(* ===== verification/Prelude.thy ===== *)
theory Prelude
  imports
    Main
    "HOL-Library.AList"
    "HOL-Library.Multiset"
    "HOL-Library.List_Lexorder"
    "HOL-Library.Char_ord"
begin

text \<open>
  Shared vocabulary of the development: Go's built-in maps and the hash sets of
  \<^verbatim>\<open>hashicorp/go-set\<close> as duplicate-free lists, the unspecified iteration order of both as an
  explicit parameter, \<^verbatim>\<open>strings.Join\<close>, Go's \<^verbatim>\<open>error\<close> values, and the generic lemmas on lists,
  folds and association lists that the component theories use through the collection
  \<open>go_simps\<close>.
\<close>

named_theorems go_simps

section \<open>Sets and maps\<close>

text \<open>
  A \<^verbatim>\<open>set.Set[T]\<close> is a list without duplicates; \<open>List.insert\<close> is its \<^verbatim>\<open>Insert\<close>,
  \<open>x \<in> set s\<close> its \<^verbatim>\<open>Contains\<close> and \<open>length\<close> its \<^verbatim>\<open>Size\<close>. A Go map is an association list with distinct
  keys: \<open>map_of\<close> is the lookup, \<open>AList.update\<close> the assignment, \<open>AList.delete\<close> the built-in
  \<^verbatim>\<open>delete\<close>.
\<close>

type_synonym 'a goset = "'a list"

type_synonym ('k, 'v) gomap = "('k \<times> 'v) list"

abbreviation map_put :: "'k \<Rightarrow> 'v \<Rightarrow> ('k, 'v) gomap \<Rightarrow> ('k, 'v) gomap" where
  "map_put \<equiv> AList.update"

definition map_wf :: "('k, 'v) gomap \<Rightarrow> bool" where
  "map_wf m \<longleftrightarrow> distinct (map fst m)"

definition set_From :: "'a list \<Rightarrow> 'a goset" where
  "set_From xs = fold List.insert xs []"

text \<open>
  Go leaves the iteration order of a map (and so the order of \<^verbatim>\<open>Slice()\<close> of a set) unspecified.
  Every iteration of the model goes through an order function; the only thing known of it is
  that it permutes what it is given.
\<close>

definition permuting :: "('a list \<Rightarrow> 'a list) \<Rightarrow> bool" where
  "permuting \<pi> \<longleftrightarrow> (\<forall>xs. mset (\<pi> xs) = mset xs)"

definition go_range :: "('k list \<Rightarrow> 'k list) \<Rightarrow> ('k, 'v) gomap \<Rightarrow> ('k \<times> 'v) list" where
  "go_range \<pi> m = map (\<lambda>k. (k, the (map_of m k))) (\<pi> (map fst m))"

text \<open>\<^verbatim>\<open>strings.Join\<close>.\<close>

fun strings_Join :: "string list \<Rightarrow> string \<Rightarrow> string" where
  "strings_Join [] sep = []"
| "strings_Join [x] sep = x"
| "strings_Join (x # y # zs) sep = x @ sep @ strings_Join (y # zs) sep"

section \<open>Errors\<close>

text \<open>
  Errors of the API server (\<^verbatim>\<open>errors.IsNotFound\<close> singles one kind out) and Go \<^verbatim>\<open>error\<close> values:
  \<open>Errorf msg None\<close> is \<^verbatim>\<open>fmt.Errorf(msg)\<close>, \<open>Errorf msg (Some e)\<close> is \<^verbatim>\<open>fmt.Errorf("msg: %w", e)\<close>,
  \<open>Multi es\<close> is what \<^verbatim>\<open>multierr.Append\<close> has collected.
\<close>

datatype api_error = NotFound | ApiFailure string

datatype error = Api api_error | Errorf string "error option" | Multi "error list"

text \<open>
  An accumulator of \<^verbatim>\<open>multierr.Append\<close> is the list of the errors appended so far; \<open>multierr\<close>
  reads it back as an \<^verbatim>\<open>error\<close>, \<open>None\<close> being Go's \<^verbatim>\<open>nil\<close>.
\<close>

definition multierr :: "error list \<Rightarrow> error option" where
  "multierr es = (case es of [] \<Rightarrow> None | [e] \<Rightarrow> Some e | _ \<Rightarrow> Some (Multi es))"

lemma multierr_None [simp, go_simps]: "multierr es = None \<longleftrightarrow> es = []"
  by (auto simp: multierr_def split: list.splits)

text \<open>
  The loop \<^verbatim>\<open>for _, x := range xs { if err := f(x); err != nil { errs = multierr.Append(errs, err) } }\<close>
  over a state: the errors of the calls, in order, and the state after the last one.
\<close>

fun for_each :: "('a \<Rightarrow> 'c \<Rightarrow> error option \<times> 'c) \<Rightarrow> 'a list \<Rightarrow> 'c \<Rightarrow> error list \<times> 'c" where
  "for_each f [] c = ([], c)"
| "for_each f (x # xs) c =
     (let (e, c1) = f x c; (es, c2) = for_each f xs c1
      in (case e of None \<Rightarrow> es | Some err \<Rightarrow> err # es, c2))"

text \<open>A loop over a state that returns at the first error.\<close>

fun for_until :: "('a \<Rightarrow> 's \<Rightarrow> error option \<times> 's) \<Rightarrow> 'a list \<Rightarrow> 's \<Rightarrow> error option \<times> 's" where
  "for_until f [] s = (None, s)"
| "for_until f (x # xs) s =
     (case f x s of (Some err, s') \<Rightarrow> (Some err, s') | (None, s') \<Rightarrow> for_until f xs s')"

text \<open>\<^verbatim>\<open>%d\<close> of a number that is not negative.\<close>

fun fmt_d :: "nat \<Rightarrow> string" where
  "fmt_d n = (if n < 10 then [char_of (48 + n)] else fmt_d (n div 10) @ [char_of (48 + n mod 10)])"

declare fmt_d.simps [simp del]

section \<open>Generic lemmas\<close>

lemma for_until_invariant:
  assumes "\<And>x s. x \<in> set xs \<Longrightarrow> P s \<Longrightarrow> P (snd (f x s))" and "P s"
  shows "P (snd (for_until f xs s))"
  using assms
proof (induction xs arbitrary: s)
  case Nil
  then show ?case by simp
next
  case (Cons x xs)
  obtain e s' where fx: "f x s = (e, s')" by fastforce
  then have "P s'" using Cons.prems(1)[of x s] Cons.prems(2) by simp
  then have "P (snd (for_until f xs s'))" using Cons by simp
  with fx \<open>P s'\<close> show ?case by (cases e) simp_all
qed

text \<open>
  A loop that runs to its end, over checks that can only turn the verdict \<open>V\<close> from true to false:
  if the verdict is still true, every check has passed.
\<close>

lemma for_until_all:
  assumes "for_until f xs s = (None, s')" and "I s"
    and step: "\<And>x s s1. x \<in> set xs \<Longrightarrow> f x s = (None, s1) \<Longrightarrow> I s \<Longrightarrow> I s1 \<and> (V s1 \<longrightarrow> V s \<and> P x)"
  shows "I s' \<and> (V s' \<longrightarrow> V s \<and> (\<forall>x \<in> set xs. P x))"
  using assms
proof (induction xs arbitrary: s)
  case Nil
  then show ?case by simp
next
  case (Cons x xs)
  then obtain s1 where x: "f x s = (None, s1)" and rest: "for_until f xs s1 = (None, s')"
    by (auto split: prod.splits option.splits)
  have "I s1 \<and> (V s1 \<longrightarrow> V s \<and> P x)" using Cons.prems(2) x by (intro Cons.prems(3)) auto
  with Cons.IH[OF rest] Cons.prems(3) show ?case by auto
qed

lemma for_each_append:
  "for_each f (xs @ ys) c =
     (let (es1, c1) = for_each f xs c; (es2, c2) = for_each f ys c1 in (es1 @ es2, c2))"
  by (induction xs arbitrary: c) (auto split: prod.splits option.splits)

lemma for_each_ok_Cons:
  "for_each f (x # xs) c = ([], c') \<longleftrightarrow> (\<exists>c1. f x c = (None, c1) \<and> for_each f xs c1 = ([], c'))"
  by (cases "f x c") (auto split: prod.splits option.splits)

lemma for_each_map: "for_each f (map g xs) c = for_each (\<lambda>x. f (g x)) xs c"
  by (induction xs arbitrary: c) (auto split: prod.splits)

text \<open>What every iteration keeps, the loop keeps, whether or not iterations fail.\<close>

lemma for_each_invariant:
  assumes "\<And>x c. x \<in> set xs \<Longrightarrow> P c \<Longrightarrow> P (snd (f x c))" and "P c"
  shows "P (snd (for_each f xs c))"
  using assms
proof (induction xs arbitrary: c)
  case Nil
  then show ?case by simp
next
  case (Cons x xs)
  have "P (snd (f x c))" using Cons.prems by simp
  then have "P (snd (for_each f xs (snd (f x c))))" using Cons by simp
  then show ?case by (simp add: case_prod_beta Let_def)
qed

text \<open>
  A loop that reports no error has had no failing iteration: what an iteration establishes and
  the following ones keep holds at the end.
\<close>

lemma for_each_establishes:
  assumes "for_each f xs c = ([], c')" and "x \<in> set xs"
    and step: "\<And>c c'. f x c = (None, c') \<Longrightarrow> Q c'"
    and keep: "\<And>y c c'. y \<in> set xs \<Longrightarrow> f y c = (None, c') \<Longrightarrow> Q c \<Longrightarrow> Q c'"
  shows "Q c'"
proof -
  have kept: "Q c2" if "for_each f ys c1 = ([], c2)" "Q c1" "set ys \<subseteq> set xs" for ys c1 c2
    using that
  proof (induction ys arbitrary: c1)
    case Nil
    then show ?case by simp
  next
    case (Cons y ys)
    then obtain c3 where y: "f y c1 = (None, c3)" and rest: "for_each f ys c3 = ([], c2)"
      by (auto simp only: for_each_ok_Cons)
    with Cons.prems(2,3) have "Q c3" using keep[of y c1 c3] by simp
    with Cons rest show ?case by simp
  qed
  obtain ys zs where xs: "xs = ys @ x # zs" using \<open>x \<in> set xs\<close> by (meson split_list)
  obtain es1 c1 where 1: "for_each f ys c = (es1, c1)" by fastforce
  obtain e c2 where 2: "f x c1 = (e, c2)" by fastforce
  obtain es3 c3 where 3: "for_each f zs c2 = (es3, c3)" by fastforce
  from assms(1) have "e = None" "es3 = []" "c3 = c'"
    by (auto simp: xs for_each_append 1 2 3 split: option.splits)
  with 2 have "Q c2" using step[of c1 c2] by simp
  then show ?thesis using kept[of zs c2 c'] 3 \<open>es3 = []\<close> \<open>c3 = c'\<close> xs by auto
qed

lemma set_fold_insert [simp, go_simps]: "set (fold List.insert xs s) = set xs \<union> set s"
  by (induction xs arbitrary: s) auto

lemma distinct_fold_insert [simp]: "distinct s \<Longrightarrow> distinct (fold List.insert xs s)"
  by (induction xs arbitrary: s) auto

lemma set_set_From [simp, go_simps]: "set (set_From xs) = set xs"
  by (simp add: set_From_def)

lemma distinct_set_From [simp]: "distinct (set_From xs)"
  by (simp add: set_From_def)

lemma set_From_Nil_iff [simp]: "set_From xs = [] \<longleftrightarrow> xs = []"
  by (metis set_empty set_set_From)

lemma permuting_mset: "permuting \<pi> \<Longrightarrow> mset (\<pi> xs) = mset xs"
  by (simp add: permuting_def)

lemma permuting_set: "permuting \<pi> \<Longrightarrow> set (\<pi> xs) = set xs"
  by (metis permuting_mset set_mset_mset)

lemma permuting_distinct: "permuting \<pi> \<Longrightarrow> distinct (\<pi> xs) = distinct xs"
  by (metis permuting_mset mset_eq_imp_distinct_iff)

lemma permuting_length: "permuting \<pi> \<Longrightarrow> length (\<pi> xs) = length xs"
  by (metis permuting_mset size_mset)

lemma permuting_Nil_iff: "permuting \<pi> \<Longrightarrow> \<pi> xs = [] \<longleftrightarrow> xs = []"
  by (metis permuting_length length_0_conv)

lemma permuting_id [simp]: "permuting (\<lambda>xs. xs)"
  by (simp add: permuting_def)

lemma permuting_rev [simp]: "permuting rev"
  by (simp add: permuting_def)

lemmas permuting_simps = permuting_set permuting_distinct permuting_length permuting_Nil_iff

lemma map_wf_Nil [simp]: "map_wf []"
  by (simp add: map_wf_def)

lemma map_wf_put [simp]: "map_wf m \<Longrightarrow> map_wf (map_put k v m)"
  by (simp add: map_wf_def distinct_update)

lemma map_wf_in_set: "map_wf m \<Longrightarrow> (k, v) \<in> set m \<longleftrightarrow> map_of m k = Some v"
  unfolding map_wf_def by (rule map_of_eq_Some_iff[symmetric])

lemma map_of_put: "map_of (map_put k v m) = (map_of m)(k \<mapsto> v)"
  by (simp add: update_conv')

lemma set_map_fst_dom: "set (map fst m) = dom (map_of m)"
  by (simp add: dom_map_of_conv_image_fst)

lemma set_go_range:
  assumes "permuting \<pi>"
  shows "set (go_range \<pi> m) = {(k, v). map_of m k = Some v}"
proof -
  have "set (go_range \<pi> m) = (\<lambda>k. (k, the (map_of m k))) ` dom (map_of m)"
    using assms by (simp only: go_range_def set_map permuting_set flip: set_map_fst_dom)
  also have "\<dots> = {(k, v). map_of m k = Some v}"
    by force
  finally show ?thesis .
qed

lemma map_fst_go_range [simp]: "map fst (go_range \<pi> m) = \<pi> (map fst m)"
  by (simp add: go_range_def comp_def)

lemma distinct_go_range: "permuting \<pi> \<Longrightarrow> map_wf m \<Longrightarrow> distinct (map fst (go_range \<pi> m))"
  by (simp add: map_wf_def permuting_distinct)

text \<open>
  Loops that assign one map entry per iteration: the keys written are the keys of the entries,
  and with distinct keys every entry is found again.
\<close>

lemma map_wf_fold_put:
  "map_wf m \<Longrightarrow> map_wf (fold (\<lambda>x. map_put (f x) (g x)) xs m)"
  by (induction xs arbitrary: m) auto

lemma dom_fold_put:
  "dom (map_of (fold (\<lambda>x. map_put (f x) (g x)) xs m)) = f ` set xs \<union> dom (map_of m)"
  by (induction xs arbitrary: m) (auto simp: map_of_put)

lemma fold_put_other:
  "k \<notin> f ` set xs \<Longrightarrow> map_of (fold (\<lambda>x. map_put (f x) (g x)) xs m) k = map_of m k"
  by (induction xs arbitrary: m) (auto simp: map_of_put)

lemma fold_put_inj:
  assumes "inj_on f (set xs)" and "x \<in> set xs"
  shows "map_of (fold (\<lambda>x. map_put (f x) (g x)) xs m) (f x) = Some (g x)"
  using assms
proof (induction xs arbitrary: m)
  case Nil
  then show ?case by simp
next
  case (Cons y ys)
  show ?case
  proof (cases "x \<in> set ys")
    case True
    with Cons.prems(1) show ?thesis
      using Cons.IH by (auto simp: inj_on_def)
  next
    case False
    with Cons.prems have "x = y" and "f x \<notin> f ` set ys"
      by (auto simp: inj_on_def)
    then show ?thesis by (simp add: fold_put_other map_of_put)
  qed
qed

lemma set_fold_Un:
  assumes "\<And>x r. set (f x r) = set r \<union> A x"
  shows "set (fold f xs r) = set r \<union> (\<Union>x \<in> set xs. A x)"
  by (induction xs arbitrary: r) (auto simp: assms)

lemma fold_if_filter: "fold (\<lambda>x s. if P x then f x s else s) xs s = fold f (filter P xs) s"
  by (induction xs arbitrary: s) auto

text \<open>Without distinct keys the value found was still written by some iteration for that key.\<close>

lemma fold_put_origin:
  "map_of (fold (\<lambda>x. map_put (f x) (g x)) xs m) k = Some v \<Longrightarrow>
     (\<exists>x \<in> set xs. f x = k \<and> g x = v) \<or> map_of m k = Some v"
proof (induction xs arbitrary: m)
  case Nil
  then show ?case by simp
next
  case (Cons y ys)
  then have "(\<exists>x \<in> set ys. f x = k \<and> g x = v) \<or> map_of (map_put (f y) (g y) m) k = Some v"
    by simp
  then show ?case
    by (cases "f y = k") (auto simp: map_of_put)
qed

text \<open>Copying a map entry by entry gives the same map.\<close>

lemma map_of_copy:
  assumes "permuting \<pi>"
  shows "map_of (fold (\<lambda>(k, v). map_put k v) (go_range \<pi> m) []) = map_of m"
proof
  fix k
  let ?xs = "go_range \<pi> m"
  have xs: "set ?xs = {(k, v). map_of m k = Some v}" by (rule set_go_range[OF assms])
  have inj: "inj_on fst (set ?xs)" unfolding xs by (auto simp: inj_on_def)
  have copy: "fold (\<lambda>(k, v). map_put k v) ?xs [] = fold (\<lambda>x. map_put (fst x) (snd x)) ?xs []"
    by (simp add: case_prod_beta')
  show "map_of (fold (\<lambda>(k, v). map_put k v) ?xs []) k = map_of m k"
  proof (cases "map_of m k")
    case None
    then have "k \<notin> fst ` set ?xs" unfolding xs by auto
    with None show ?thesis unfolding copy by (simp add: fold_put_other)
  next
    case (Some v)
    then have "(k, v) \<in> set ?xs" unfolding xs by simp
    from fold_put_inj[OF inj this, of snd "[]"] Some show ?thesis unfolding copy by simp
  qed
qed

section \<open>Joined strings\<close>

lemma strings_Join_Nil_iff:
  "\<forall>x \<in> set xs. x \<noteq> [] \<Longrightarrow> strings_Join xs sep = [] \<longleftrightarrow> xs = []"
  by (induction xs sep rule: strings_Join.induct) auto

lemma strings_Join_Cons:
  "ys \<noteq> [] \<Longrightarrow> strings_Join (x # ys) sep = x @ sep @ strings_Join ys sep"
  by (cases ys) auto

lemma append_sep_inject:
  "c \<notin> set x \<Longrightarrow> c \<notin> set y \<Longrightarrow> x @ c # r = y @ c # r' \<longleftrightarrow> x = y \<and> r = r'"
proof (induction x arbitrary: y)
  case Nil
  then show ?case by (cases y) auto
next
  case (Cons a x)
  then show ?case by (cases y) auto
qed

text \<open>A separator that occurs in no element makes joining injective.\<close>

lemma strings_Join_inject:
  assumes "\<forall>x \<in> set xs \<union> set ys. x \<noteq> [] \<and> c \<notin> set x"
    and "strings_Join xs [c] = strings_Join ys [c]"
  shows "xs = ys"
  using assms
proof (induction xs arbitrary: ys)
  case Nil
  then have "strings_Join ys [c] = []" by simp
  with Nil.prems(1) show ?case by (subst (asm) strings_Join_Nil_iff) auto
next
  case (Cons x xs)
  have "strings_Join (x # xs) [c] \<noteq> []"
    using Cons.prems(1) by (subst strings_Join_Nil_iff) auto
  then obtain y ys' where ys: "ys = y # ys'"
    using Cons.prems(2) by (cases ys) auto
  have noc: "c \<notin> set x" "c \<notin> set y" using Cons.prems(1) ys by auto
  show ?case
  proof (cases "xs = [] \<or> ys' = []")
    case True
    with Cons.prems(2) noc ys have "xs = [] \<and> ys' = []"
      by (cases "xs = []"; cases "ys' = []") (auto simp: strings_Join_Cons)
    with Cons.prems(2) ys show ?thesis by simp
  next
    case False
    with Cons.prems(2) ys have "x @ c # strings_Join xs [c] = y @ c # strings_Join ys' [c]"
      by (simp add: strings_Join_Cons)
    then have "x = y" and "strings_Join xs [c] = strings_Join ys' [c]"
      using noc by (simp_all add: append_sep_inject)
    moreover have "\<forall>x \<in> set xs \<union> set ys'. x \<noteq> [] \<and> c \<notin> set x"
      using Cons.prems(1) ys by auto
    ultimately show ?thesis using Cons.IH ys by simp
  qed
qed

lemma map_sort_key: "map f (sort_key f xs) = sort (map f xs)"
  by (rule properties_for_sort[symmetric]) simp_all

lemma sort_cong_mset: "mset xs = mset ys \<Longrightarrow> sort xs = sort (ys :: 'a :: linorder list)"
  by (metis mset_sort properties_for_sort sorted_sort)

lemma sort_distinct_set: "distinct xs \<Longrightarrow> sort xs = sorted_list_of_set (set xs)"
  by (simp add: sorted_list_of_set_sort_remdups distinct_remdups_id)

end
