(* ===== verification/ApiTypes.thy ===== *)
theory ApiTypes
  imports Prelude
begin

text \<open>
  The data of the program: deployment scopes (\<^verbatim>\<open>internal/types/scope.go\<close>), the two custom resources
  (\<^verbatim>\<open>api/v1beta1\<close>), the parts of the Kubernetes object types that the controller reads or writes,
  and the interface \<^verbatim>\<open>WSAResource\<close> with its two adapters (\<^verbatim>\<open>internal/rules/wsa_resource.go\<close>). The
  locale \<open>wsa_resource\<close> states what the rest of the program relies on of an adapter.
\<close>

section \<open>Scopes\<close>

record Scope =
  Project :: string
  ProjectGroup :: string
  Environment :: string
  Tenant :: string
  Step :: string
  Space :: string

definition Scope_zero :: Scope where
  "Scope_zero = \<lparr>Project = [], ProjectGroup = [], Environment = [], Tenant = [], Step = [], Space = []\<rparr>"

definition IsEmpty :: "Scope \<Rightarrow> bool" where
  "IsEmpty s \<longleftrightarrow> Project s = [] \<and> ProjectGroup s = [] \<and> Environment s = [] \<and>
     Tenant s = [] \<and> Step s = [] \<and> Space s = []"

definition Scope_String :: "Scope \<Rightarrow> string" where
  "Scope_String s =
     ''projects='' @ Project s @ '',projectGroups='' @ ProjectGroup s @
     '',environments='' @ Environment s @ '',tenants='' @ Tenant s @
     '',steps='' @ Step s @ '',spaces='' @ Space s"

section \<open>Kubernetes object types\<close>

record NamespacedName =
  nn_Namespace :: string
  nn_Name :: string

definition nn_String :: "NamespacedName \<Rightarrow> string" where
  "nn_String n = nn_Namespace n @ ''/'' @ nn_Name n"

text \<open>Names and namespaces are DNS names: no slash and no comma.\<close>

definition valid_key :: "NamespacedName \<Rightarrow> bool" where
  "valid_key k \<longleftrightarrow> CHR ''/'' \<notin> set (nn_Namespace k) \<and> CHR '','' \<notin> set (nn_Namespace k) \<and>
     CHR '','' \<notin> set (nn_Name k)"

lemma nn_String_inject:
  assumes "valid_key k" and "valid_key k'" and "nn_String k = nn_String k'"
  shows "k = k'"
  using assms append_sep_inject[of "CHR ''/''" "nn_Namespace k" "nn_Namespace k'"]
  by (auto simp: nn_String_def valid_key_def intro: NamespacedName.equality)

record ManagedFieldsEntry =
  mf_Manager :: string
  mf_Time :: "nat option"

record OwnerReference =
  or_APIVersion :: string
  or_Kind :: string
  or_Name :: string
  or_UID :: string
  or_Controller :: bool
  or_BlockOwnerDeletion :: bool

text \<open>\<^verbatim>\<open>DeletionTimestamp\<close> is \<open>None\<close> when \<^verbatim>\<open>IsZero()\<close> holds.\<close>

record ObjectMeta =
  om_Name :: string
  om_Namespace :: string
  om_UID :: string
  om_Generation :: int
  om_ResourceVersion :: string
  om_Labels :: "(string, string) gomap"
  om_Annotations :: "(string, string) gomap"
  om_Finalizers :: "string list"
  om_DeletionTimestamp :: "nat option"
  om_ManagedFields :: "ManagedFieldsEntry list"
  om_OwnerReferences :: "OwnerReference list"

definition ObjectMeta_zero :: ObjectMeta where
  "ObjectMeta_zero =
     \<lparr>om_Name = [], om_Namespace = [], om_UID = [], om_Generation = 0, om_ResourceVersion = [],
      om_Labels = [], om_Annotations = [], om_Finalizers = [], om_DeletionTimestamp = None,
      om_ManagedFields = [], om_OwnerReferences = []\<rparr>"

definition om_key :: "ObjectMeta \<Rightarrow> NamespacedName" where
  "om_key m = \<lparr>nn_Namespace = om_Namespace m, nn_Name = om_Name m\<rparr>"

record PolicyRule =
  pr_Verbs :: "string list"
  pr_APIGroups :: "string list"
  pr_Resources :: "string list"
  pr_ResourceNames :: "string list"
  pr_NonResourceURLs :: "string list"

record RoleRef =
  rr_APIGroup :: string
  rr_Kind :: string
  rr_Name :: string

record Subject =
  su_Kind :: string
  su_Name :: string
  su_Namespace :: string

record ServiceAccount =
  sa_Meta :: ObjectMeta

record Role =
  ro_Meta :: ObjectMeta
  ro_Rules :: "PolicyRule list"

record RoleBinding =
  rb_Meta :: ObjectMeta
  rb_RoleRef :: RoleRef
  rb_Subjects :: "Subject list"

text \<open>
  \<^verbatim>\<open>ClusterRole\<close> and \<^verbatim>\<open>ClusterRoleBinding\<close> have the fields of their namespaced counterparts, with an
  empty namespace.
\<close>

type_synonym ClusterRole = Role
type_synonym ClusterRoleBinding = RoleBinding

datatype ConditionStatus = ConditionTrue | ConditionFalse | ConditionUnknown

record Condition =
  co_Type :: string
  co_Status :: ConditionStatus
  co_Reason :: string
  co_Message :: string
  co_ObservedGeneration :: int

section \<open>Custom resources\<close>

record WorkloadServiceAccountScope =
  Projects :: "string list"
  ProjectGroups :: "string list"
  Environments :: "string list"
  Tenants :: "string list"
  Steps :: "string list"
  Spaces :: "string list"

record WorkloadServiceAccountPermissions =
  ClusterRoles :: "RoleRef list"
  Roles :: "RoleRef list"
  Permissions :: "PolicyRule list"

record WorkloadServiceAccountSpec =
  wsaScope :: WorkloadServiceAccountScope
  wsaPermissions :: WorkloadServiceAccountPermissions

record WorkloadServiceAccount =
  wsaMeta :: ObjectMeta
  wsaSpec :: WorkloadServiceAccountSpec
  wsaConditions :: "Condition list"

record ClusterWorkloadServiceAccountPermissions =
  cClusterRoles :: "RoleRef list"
  cPermissions :: "PolicyRule list"

record ClusterWorkloadServiceAccountSpec =
  cwsaScope :: WorkloadServiceAccountScope
  cwsaPermissions :: ClusterWorkloadServiceAccountPermissions

record ClusterWorkloadServiceAccount =
  cwsaMeta :: ObjectMeta
  cwsaSpec :: ClusterWorkloadServiceAccountSpec
  cwsaConditions :: "Condition list"

section \<open>WSAResource\<close>

text \<open>The dynamic types of a \<^verbatim>\<open>WSAResource\<close> value are \<^verbatim>\<open>*wsaAdapter\<close> and \<^verbatim>\<open>*clusterWSAAdapter\<close>.\<close>

datatype WSAResource =
    wsaAdapter WorkloadServiceAccount
  | clusterWSAAdapter ClusterWorkloadServiceAccount

definition NewWSAResource :: "WorkloadServiceAccount \<Rightarrow> WSAResource" where
  "NewWSAResource wsa = wsaAdapter wsa"

definition NewClusterWSAResource :: "ClusterWorkloadServiceAccount \<Rightarrow> WSAResource" where
  "NewClusterWSAResource cwsa = clusterWSAAdapter cwsa"

fun GetName :: "WSAResource \<Rightarrow> string" where
  "GetName (wsaAdapter w) = om_Name (wsaMeta w)"
| "GetName (clusterWSAAdapter c) = om_Name (cwsaMeta c)"

fun GetNamespace :: "WSAResource \<Rightarrow> string" where
  "GetNamespace (wsaAdapter w) = om_Namespace (wsaMeta w)"
| "GetNamespace (clusterWSAAdapter c) = []"

fun GetNamespacedName :: "WSAResource \<Rightarrow> NamespacedName" where
  "GetNamespacedName (wsaAdapter w) =
     \<lparr>nn_Namespace = om_Namespace (wsaMeta w), nn_Name = om_Name (wsaMeta w)\<rparr>"
| "GetNamespacedName (clusterWSAAdapter c) =
     \<lparr>nn_Namespace = [], nn_Name = om_Name (cwsaMeta c)\<rparr>"

fun GetScope :: "WSAResource \<Rightarrow> WorkloadServiceAccountScope" where
  "GetScope (wsaAdapter w) = wsaScope (wsaSpec w)"
| "GetScope (clusterWSAAdapter c) = cwsaScope (cwsaSpec c)"

fun GetPermissionRules :: "WSAResource \<Rightarrow> PolicyRule list" where
  "GetPermissionRules (wsaAdapter w) = Permissions (wsaPermissions (wsaSpec w))"
| "GetPermissionRules (clusterWSAAdapter c) = cPermissions (cwsaPermissions (cwsaSpec c))"

fun GetRoles :: "WSAResource \<Rightarrow> RoleRef list" where
  "GetRoles (wsaAdapter w) = Roles (wsaPermissions (wsaSpec w))"
| "GetRoles (clusterWSAAdapter c) = []"

fun GetClusterRoles :: "WSAResource \<Rightarrow> RoleRef list" where
  "GetClusterRoles (wsaAdapter w) = ClusterRoles (wsaPermissions (wsaSpec w))"
| "GetClusterRoles (clusterWSAAdapter c) = cClusterRoles (cwsaPermissions (cwsaSpec c))"

fun IsClusterScoped :: "WSAResource \<Rightarrow> bool" where
  "IsClusterScoped (wsaAdapter w) = False"
| "IsClusterScoped (clusterWSAAdapter c) = True"

fun GetGeneration :: "WSAResource \<Rightarrow> int" where
  "GetGeneration (wsaAdapter w) = om_Generation (wsaMeta w)"
| "GetGeneration (clusterWSAAdapter c) = om_Generation (cwsaMeta c)"

fun GetResourceVersion :: "WSAResource \<Rightarrow> string" where
  "GetResourceVersion (wsaAdapter w) = om_ResourceVersion (wsaMeta w)"
| "GetResourceVersion (clusterWSAAdapter c) = om_ResourceVersion (cwsaMeta c)"

text \<open>
  \<^verbatim>\<open>GetOwnerObject\<close> hands out the wrapped object; its users read the metadata of it and tell the
  two kinds apart by a type switch.
\<close>

fun GetOwnerObject :: "WSAResource \<Rightarrow> WorkloadServiceAccount + ClusterWorkloadServiceAccount" where
  "GetOwnerObject (wsaAdapter w) = Inl w"
| "GetOwnerObject (clusterWSAAdapter c) = Inr c"

section \<open>The contract of the interface\<close>

text \<open>
  What the clients of the interface rely on: the key is made of name and namespace, and a
  cluster-scoped resource has no namespace and no namespaced roles.
\<close>

locale wsa_resource =
  fixes name :: "'r \<Rightarrow> string"
    and namespace :: "'r \<Rightarrow> string"
    and key :: "'r \<Rightarrow> NamespacedName"
    and roles :: "'r \<Rightarrow> RoleRef list"
    and cluster_scoped :: "'r \<Rightarrow> bool"
  assumes key_name: "nn_Name (key r) = name r"
    and key_namespace: "nn_Namespace (key r) = namespace r"
    and cluster_namespace: "cluster_scoped r \<Longrightarrow> namespace r = []"
    and cluster_roles: "cluster_scoped r \<Longrightarrow> roles r = []"
begin

lemma key_eq: "key r = \<lparr>nn_Namespace = namespace r, nn_Name = name r\<rparr>"
  by (simp add: NamespacedName.equality key_name key_namespace)

lemma same_key_iff: "key r = key r' \<longleftrightarrow> namespace r = namespace r' \<and> name r = name r'"
  by (auto simp: key_eq)

lemma roles_namespaced: "ref \<in> set (roles r) \<Longrightarrow> \<not> cluster_scoped r"
  using cluster_roles by force

end

interpretation wsa: wsa_resource GetName GetNamespace GetNamespacedName GetRoles IsClusterScoped
proof
  fix r
  show "nn_Name (GetNamespacedName r) = GetName r"
    by (cases r) simp_all
  show "nn_Namespace (GetNamespacedName r) = GetNamespace r"
    by (cases r) simp_all
  show "IsClusterScoped r \<Longrightarrow> GetNamespace r = []"
    by (cases r) simp_all
  show "IsClusterScoped r \<Longrightarrow> GetRoles r = []"
    by (cases r) simp_all
qed

section \<open>Iteration orders\<close>

text \<open>
  The orders in which one run of the program meets the entries of its maps and sets, one per key
  type (the runtime may choose another for every run).
\<close>

record go_order =
  o_string :: "string list \<Rightarrow> string list"
  o_scope :: "Scope list \<Rightarrow> Scope list"
  o_index :: "nat list \<Rightarrow> nat list"
  o_key :: "NamespacedName list \<Rightarrow> NamespacedName list"

definition order_ok :: "go_order \<Rightarrow> bool" where
  "order_ok \<omega> \<longleftrightarrow> permuting (o_string \<omega>) \<and> permuting (o_scope \<omega>) \<and>
     permuting (o_index \<omega>) \<and> permuting (o_key \<omega>)"

lemma order_okD:
  assumes "order_ok \<omega>"
  shows "permuting (o_string \<omega>)" "permuting (o_scope \<omega>)" "permuting (o_index \<omega>)" "permuting (o_key \<omega>)"
  using assms by (simp_all add: order_ok_def)

definition order_id :: go_order where
  "order_id = \<lparr>o_string = (\<lambda>x. x), o_scope = (\<lambda>x. x), o_index = (\<lambda>x. x), o_key = (\<lambda>x. x)\<rparr>"

definition order_rev :: go_order where
  "order_rev = \<lparr>o_string = rev, o_scope = rev, o_index = rev, o_key = rev\<rparr>"

lemma order_ok_id [simp]: "order_ok order_id"
  by (simp add: order_ok_def order_id_def)

lemma order_ok_rev [simp]: "order_ok order_rev"
  by (simp add: order_ok_def order_rev_def)

section \<open>Example resources\<close>

text \<open>Small resources for the worked examples of the other theories.\<close>

definition scope_of :: "string list \<Rightarrow> string list \<Rightarrow> WorkloadServiceAccountScope" where
  "scope_of projects environments =
     \<lparr>Projects = projects, ProjectGroups = [], Environments = environments, Tenants = [], Steps = [],
      Spaces = []\<rparr>"

definition example_wsa ::
  "string \<Rightarrow> string \<Rightarrow> WorkloadServiceAccountScope \<Rightarrow> WorkloadServiceAccountPermissions \<Rightarrow>
   WorkloadServiceAccount" where
  "example_wsa ns name scope perms =
     \<lparr>wsaMeta = ObjectMeta_zero\<lparr>om_Name := name, om_Namespace := ns, om_Generation := 1\<rparr>,
      wsaSpec = \<lparr>wsaScope = scope, wsaPermissions = perms\<rparr>,
      wsaConditions = []\<rparr>"

definition no_permissions :: WorkloadServiceAccountPermissions where
  "no_permissions = \<lparr>ClusterRoles = [], Roles = [], Permissions = []\<rparr>"

definition deployment :: "string \<Rightarrow> string \<Rightarrow> Scope" where
  "deployment project environment = Scope_zero\<lparr>Project := project, Environment := environment\<rparr>"

end
