(* ===== verification/Scopes.thy ===== *)
theory Scopes
  imports ApiTypes
begin

text \<open>
  The scope computation of \<^verbatim>\<open>internal/rules/generator.go\<close>: the vocabulary of values that occur in
  any resource, the coverage of a resource as a cartesian product over the six dimensions, and
  the map from every covered scope to the resources that cover it. The main results say that the
  computed map is exactly the relation "resource covers scope", and that looking a deployment's
  scope up through the vocabulary finds exactly the resources whose constraints the deployment
  satisfies.
\<close>

section \<open>Dimensions and the vocabulary\<close>

definition WildcardValue :: string where
  "WildcardValue = ''*''"

type_synonym DimensionIndex = nat

abbreviation ProjectIndex :: DimensionIndex where "ProjectIndex \<equiv> 0"
abbreviation ProjectGroupIndex :: DimensionIndex where "ProjectGroupIndex \<equiv> Suc 0"
abbreviation EnvironmentIndex :: DimensionIndex where "EnvironmentIndex \<equiv> 2"
abbreviation TenantIndex :: DimensionIndex where "TenantIndex \<equiv> 3"
abbreviation StepIndex :: DimensionIndex where "StepIndex \<equiv> 4"
abbreviation SpaceIndex :: DimensionIndex where "SpaceIndex \<equiv> 5"
abbreviation MaxDimensionIndex :: DimensionIndex where "MaxDimensionIndex \<equiv> 6"

text \<open>An array of \<^verbatim>\<open>MaxDimensionIndex\<close> sets is a list of that length.\<close>

type_synonym GlobalVocabulary = "string goset list"

definition NewGlobalVocabulary :: GlobalVocabulary where
  "NewGlobalVocabulary = [[], [], [], [], [], []]"

definition GetKnownScopeCombination :: "GlobalVocabulary \<Rightarrow> Scope \<Rightarrow> Scope" where
  "GetKnownScopeCombination v scope =
     \<lparr>Project = (if Project scope \<in> set (v ! ProjectIndex) then Project scope else WildcardValue),
      ProjectGroup = (if ProjectGroup scope \<in> set (v ! ProjectGroupIndex) then ProjectGroup scope
                      else WildcardValue),
      Environment = (if Environment scope \<in> set (v ! EnvironmentIndex) then Environment scope
                     else WildcardValue),
      Tenant = (if Tenant scope \<in> set (v ! TenantIndex) then Tenant scope else WildcardValue),
      Step = (if Step scope \<in> set (v ! StepIndex) then Step scope else WildcardValue),
      Space = (if Space scope \<in> set (v ! SpaceIndex) then Space scope else WildcardValue)\<rparr>"

definition addAllValuesToVocabulary ::
  "DimensionIndex \<Rightarrow> string list \<Rightarrow> GlobalVocabulary \<Rightarrow> GlobalVocabulary" where
  "addAllValuesToVocabulary dimensionIndex values vocabulary =
     vocabulary[dimensionIndex := fold List.insert values (vocabulary ! dimensionIndex)]"

definition addResourceToVocabulary :: "WSAResource \<Rightarrow> GlobalVocabulary \<Rightarrow> GlobalVocabulary" where
  "addResourceToVocabulary resource v0 =
     (let scope = GetScope resource;
          v1 = addAllValuesToVocabulary ProjectIndex (Projects scope) v0;
          v2 = addAllValuesToVocabulary ProjectGroupIndex (ProjectGroups scope) v1;
          v3 = addAllValuesToVocabulary EnvironmentIndex (Environments scope) v2;
          v4 = addAllValuesToVocabulary TenantIndex (Tenants scope) v3;
          v5 = addAllValuesToVocabulary StepIndex (Steps scope) v4
      in addAllValuesToVocabulary SpaceIndex (Spaces scope) v5)"

definition buildGlobalVocabulary :: "WSAResource list \<Rightarrow> GlobalVocabulary" where
  "buildGlobalVocabulary resources = fold addResourceToVocabulary resources NewGlobalVocabulary"

section \<open>Coverage\<close>

text \<open>The switch of \<^verbatim>\<open>generateScopeCombinations\<close>.\<close>

definition setDimension :: "DimensionIndex \<Rightarrow> string \<Rightarrow> Scope \<Rightarrow> Scope" where
  "setDimension currentDim val newScope =
     (if currentDim = ProjectIndex then newScope\<lparr>Project := val\<rparr>
      else if currentDim = ProjectGroupIndex then newScope\<lparr>ProjectGroup := val\<rparr>
      else if currentDim = EnvironmentIndex then newScope\<lparr>Environment := val\<rparr>
      else if currentDim = TenantIndex then newScope\<lparr>Tenant := val\<rparr>
      else if currentDim = StepIndex then newScope\<lparr>Step := val\<rparr>
      else if currentDim = SpaceIndex then newScope\<lparr>Space := val\<rparr>
      else newScope)"

text \<open>
  The recursion starts at 0 and counts up to \<^verbatim>\<open>MaxDimensionIndex\<close>; beyond it the array access
  would panic, a case no call reaches.
\<close>

function generateScopeCombinations ::
  "go_order \<Rightarrow> DimensionIndex \<Rightarrow> Scope \<Rightarrow> string goset list \<Rightarrow> Scope goset \<Rightarrow> Scope goset" where
  "generateScopeCombinations \<omega> currentDim currentScope dimensionSets result =
     (if MaxDimensionIndex \<le> currentDim then List.insert currentScope result
      else fold (\<lambda>val acc.
             generateScopeCombinations \<omega> (currentDim + 1) (setDimension currentDim val currentScope)
               dimensionSets acc)
           (o_string \<omega> (dimensionSets ! currentDim)) result)"
  by pat_completeness auto
termination
  by (relation "measure (\<lambda>(_, d, _). MaxDimensionIndex - d)") auto

declare generateScopeCombinations.simps [simp del]

definition scopeSlices :: "WSAResource \<Rightarrow> string list list" where
  "scopeSlices resource =
     (let scope = GetScope resource
      in [Projects scope, ProjectGroups scope, Environments scope, Tenants scope, Steps scope,
          Spaces scope])"

definition dimensionCoverage :: "WSAResource \<Rightarrow> GlobalVocabulary \<Rightarrow> string goset list" where
  "dimensionCoverage resource vocabulary =
     map (\<lambda>dim. if scopeSlices resource ! dim = [] then List.insert WildcardValue (vocabulary ! dim)
                else set_From (scopeSlices resource ! dim)) [0..<MaxDimensionIndex]"

definition computeWSACoverage :: "go_order \<Rightarrow> WSAResource \<Rightarrow> GlobalVocabulary \<Rightarrow> Scope goset" where
  "computeWSACoverage \<omega> resource vocabulary =
     generateScopeCombinations \<omega> 0 Scope_zero (dimensionCoverage resource vocabulary) []"

section \<open>Intersections and the scope map\<close>

definition addWSAIndex ::
  "nat \<Rightarrow> Scope \<Rightarrow> (Scope, nat goset) gomap \<Rightarrow> (Scope, nat goset) gomap" where
  "addWSAIndex wsaIndex scope m =
     map_put scope (List.insert wsaIndex (case map_of m scope of None \<Rightarrow> [] | Some s \<Rightarrow> s)) m"

definition findScopeIntersections ::
  "go_order \<Rightarrow> Scope goset list \<Rightarrow> (Scope, nat goset) gomap" where
  "findScopeIntersections \<omega> coverageSets =
     fold (\<lambda>(wsaIndex, coverageSet). fold (addWSAIndex wsaIndex) (o_scope \<omega> coverageSet))
       (List.enumerate 0 coverageSets) []"

type_synonym WSAMap = "(NamespacedName, WSAResource) gomap"
type_synonym ScopeMap = "(Scope, WSAMap) gomap"

definition wsaMapOf :: "go_order \<Rightarrow> WSAResource list \<Rightarrow> nat goset \<Rightarrow> WSAMap" where
  "wsaMapOf \<omega> wsaList wsaIndices =
     fold (\<lambda>wsaIndex. map_put (GetNamespacedName (wsaList ! wsaIndex)) (wsaList ! wsaIndex))
       (o_index \<omega> wsaIndices) []"

definition buildScopeToWSAMapping ::
  "go_order \<Rightarrow> (Scope, nat goset) gomap \<Rightarrow> WSAResource list \<Rightarrow> ScopeMap" where
  "buildScopeToWSAMapping \<omega> scopeIntersections wsaList =
     fold (\<lambda>(scope, wsaIndices) result.
             if length wsaIndices > 0 then map_put scope (wsaMapOf \<omega> wsaList wsaIndices) result
             else result)
       (go_range (o_scope \<omega>) scopeIntersections) []"

definition computeMinimalServiceAccountScopes ::
  "go_order \<Rightarrow> WSAResource list \<Rightarrow> GlobalVocabulary \<Rightarrow> ScopeMap" where
  "computeMinimalServiceAccountScopes \<omega> wsaList vocabulary =
     (if length wsaList = 0 then []
      else let wsaCoverageSets = map (\<lambda>wsa. computeWSACoverage \<omega> wsa vocabulary) wsaList;
               scopeIntersections = findScopeIntersections \<omega> wsaCoverageSets
           in buildScopeToWSAMapping \<omega> scopeIntersections wsaList)"

definition getScopesForWSAs :: "go_order \<Rightarrow> WSAResource list \<Rightarrow> ScopeMap \<times> GlobalVocabulary" where
  "getScopesForWSAs \<omega> wsaList =
     (let vocabulary = buildGlobalVocabulary wsaList
      in (computeMinimalServiceAccountScopes \<omega> wsaList vocabulary, vocabulary))"

section \<open>The vocabulary, dimension by dimension\<close>

text \<open>The six fields of a scope as a list, so that statements can range over dimensions.\<close>

definition scope_dims :: "Scope \<Rightarrow> string list" where
  "scope_dims s = [Project s, ProjectGroup s, Environment s, Tenant s, Step s, Space s]"

lemma less_Max_cases:
  "d < MaxDimensionIndex \<Longrightarrow>
     d = ProjectIndex \<or> d = ProjectGroupIndex \<or> d = EnvironmentIndex \<or> d = TenantIndex \<or>
     d = StepIndex \<or> d = SpaceIndex"
  by linarith

lemma all_dims:
  "(\<forall>d < MaxDimensionIndex. P d) \<longleftrightarrow>
     P ProjectIndex \<and> P ProjectGroupIndex \<and> P EnvironmentIndex \<and> P TenantIndex \<and> P StepIndex \<and>
     P SpaceIndex"
  using less_Max_cases by auto

lemma length_scope_dims [simp]: "length (scope_dims s) = MaxDimensionIndex"
  by (simp add: scope_dims_def)

lemma scope_dims_inject [simp]: "scope_dims s = scope_dims t \<longleftrightarrow> s = t"
  by (auto simp: scope_dims_def)

lemma scope_eqI: "(\<And>d. d < MaxDimensionIndex \<Longrightarrow> scope_dims s ! d = scope_dims t ! d) \<Longrightarrow> s = t"
  by (metis length_scope_dims nth_equalityI scope_dims_inject)

lemma length_scopeSlices [simp]: "length (scopeSlices r) = MaxDimensionIndex"
  by (simp add: scopeSlices_def Let_def)

lemma known_dim:
  "d < MaxDimensionIndex \<Longrightarrow>
     scope_dims (GetKnownScopeCombination v s) ! d =
       (if scope_dims s ! d \<in> set (v ! d) then scope_dims s ! d else WildcardValue)"
  by (drule less_Max_cases) (elim disjE; simp add: scope_dims_def GetKnownScopeCombination_def)

lemma length_addAll [simp]: "length (addAllValuesToVocabulary i vs v) = length v"
  by (simp add: addAllValuesToVocabulary_def)

lemma length_addResource [simp]: "length (addResourceToVocabulary r v) = length v"
  by (simp add: addResourceToVocabulary_def Let_def)

lemma addAll_nth:
  "i < length v \<Longrightarrow> set (addAllValuesToVocabulary i vs v ! d) =
     (if d = i then set vs \<union> set (v ! d) else set (v ! d))"
  by (auto simp: addAllValuesToVocabulary_def)

lemma addResource_nth:
  assumes "length v = MaxDimensionIndex" and "d < MaxDimensionIndex"
  shows "set (addResourceToVocabulary r v ! d) = set (scopeSlices r ! d) \<union> set (v ! d)"
  using less_Max_cases[OF assms(2)] assms(1)
  by (elim disjE) (simp_all add: addResourceToVocabulary_def Let_def addAll_nth scopeSlices_def)

lemma length_buildGlobalVocabulary [simp]: "length (buildGlobalVocabulary rs) = MaxDimensionIndex"
proof -
  have "length (fold addResourceToVocabulary rs v) = length v" for v
    by (induction rs arbitrary: v) auto
  then show ?thesis
    by (simp add: buildGlobalVocabulary_def NewGlobalVocabulary_def)
qed

lemma vocabulary_nth:
  assumes "d < MaxDimensionIndex"
  shows "set (buildGlobalVocabulary rs ! d) = (\<Union>r \<in> set rs. set (scopeSlices r ! d))"
proof -
  have "length v = MaxDimensionIndex \<Longrightarrow> set (fold addResourceToVocabulary rs v ! d) =
      (\<Union>r \<in> set rs. set (scopeSlices r ! d)) \<union> set (v ! d)" for v
    by (induction rs arbitrary: v) (auto simp: addResource_nth assms)
  moreover have "set (NewGlobalVocabulary ! d) = {}"
    using less_Max_cases[OF assms] by (auto simp: NewGlobalVocabulary_def)
  ultimately show ?thesis
    by (simp add: buildGlobalVocabulary_def NewGlobalVocabulary_def)
qed

section \<open>Coverage is the cartesian product\<close>

lemma setDimension_nth:
  assumes "i < MaxDimensionIndex" and "d < MaxDimensionIndex"
  shows "scope_dims (setDimension d v s) ! i = (if i = d then v else scope_dims s ! i)"
  using less_Max_cases[OF assms(1)] less_Max_cases[OF assms(2)]
  by (elim disjE; simp add: scope_dims_def setDimension_def)

text \<open>The scopes that agree with \<open>s\<close> below dimension \<open>d\<close> and range over the sets from \<open>d\<close> on.\<close>

definition combos :: "DimensionIndex \<Rightarrow> Scope \<Rightarrow> string goset list \<Rightarrow> Scope set" where
  "combos d s sets = {t. \<forall>i < MaxDimensionIndex.
     if i < d then scope_dims t ! i = scope_dims s ! i else scope_dims t ! i \<in> set (sets ! i)}"

lemma combos_Max: "MaxDimensionIndex \<le> d \<Longrightarrow> combos d s sets = {s}"
  by (auto simp: combos_def intro: scope_eqI)

lemma combos_step:
  assumes "d < MaxDimensionIndex"
  shows "combos d s sets = (\<Union>v \<in> set (sets ! d). combos (d + 1) (setDimension d v s) sets)"
    (is "?L = ?R")
proof
  show "?L \<subseteq> ?R"
  proof
    fix t assume "t \<in> ?L"
    then have t: "i < MaxDimensionIndex \<Longrightarrow> if i < d then scope_dims t ! i = scope_dims s ! i
        else scope_dims t ! i \<in> set (sets ! i)" for i
      by (simp add: combos_def)
    have "scope_dims t ! d \<in> set (sets ! d)"
      using t[OF assms] by simp
    moreover have "t \<in> combos (d + 1) (setDimension d (scope_dims t ! d) s) sets"
      using t assms by (auto simp: combos_def setDimension_nth less_Suc_eq)
    ultimately show "t \<in> ?R" by blast
  qed
  show "?R \<subseteq> ?L"
  proof
    fix t assume "t \<in> ?R"
    then obtain v where v: "v \<in> set (sets ! d)" and t: "t \<in> combos (d + 1) (setDimension d v s) sets"
      by blast
    have "if i < d then scope_dims t ! i = scope_dims s ! i else scope_dims t ! i \<in> set (sets ! i)"
      if "i < MaxDimensionIndex" for i
    proof (cases "i = d")
      case True
      with t v assms show ?thesis by (auto simp: combos_def setDimension_nth)
    next
      case False
      with t that assms show ?thesis
        by (auto simp: combos_def setDimension_nth less_Suc_eq)
    qed
    then show "t \<in> ?L" by (simp add: combos_def)
  qed
qed

lemma set_generateScopeCombinations:
  assumes "permuting (o_string \<omega>)"
  shows "set (generateScopeCombinations \<omega> d s sets res) = set res \<union> combos d s sets"
proof (induction "MaxDimensionIndex - d" arbitrary: d s res)
  case 0
  then show ?case
    by (subst generateScopeCombinations.simps) (simp add: combos_Max)
next
  case (Suc n)
  then have d: "d < MaxDimensionIndex" and n: "n = MaxDimensionIndex - (d + 1)" by auto
  have "set (generateScopeCombinations \<omega> d s sets res) =
      set res \<union> (\<Union>v \<in> set (o_string \<omega> (sets ! d)). combos (d + 1) (setDimension d v s) sets)"
    using d by (subst generateScopeCombinations.simps)
      (simp add: set_fold_Un Suc.hyps(1)[OF n, simplified])
  then show ?case
    by (simp add: combos_step[OF d] permuting_set[OF assms])
qed

lemma distinct_generateScopeCombinations:
  "distinct res \<Longrightarrow> distinct (generateScopeCombinations \<omega> d s sets res)"
proof (induction "MaxDimensionIndex - d" arbitrary: d s res)
  case 0
  then show ?case
    by (subst generateScopeCombinations.simps) simp
next
  case (Suc n)
  then have d: "d < MaxDimensionIndex" and n: "n = MaxDimensionIndex - (d + 1)" by auto
  have "distinct (fold (\<lambda>val. generateScopeCombinations \<omega> (d + 1) (setDimension d val s) sets) vs r)"
    if "distinct r" for vs r
    using that by (induction vs arbitrary: r) (auto simp: Suc.hyps(1)[OF n, simplified])
  with d Suc.prems show ?case
    by (subst generateScopeCombinations.simps) simp
qed

text \<open>
  A resource covers a scope when every value of the scope is allowed: in an unconstrained
  dimension any known value or the wildcard, in a constrained one the listed values only.
\<close>

definition covers :: "GlobalVocabulary \<Rightarrow> WSAResource \<Rightarrow> Scope \<Rightarrow> bool" where
  "covers v r s \<longleftrightarrow> (\<forall>d < MaxDimensionIndex.
     if scopeSlices r ! d = [] then scope_dims s ! d \<in> insert WildcardValue (set (v ! d))
     else scope_dims s ! d \<in> set (scopeSlices r ! d))"

lemma set_computeWSACoverage:
  assumes "order_ok \<omega>"
  shows "set (computeWSACoverage \<omega> r v) = {s. covers v r s}"
  using order_okD(1)[OF assms]
  by (auto simp: computeWSACoverage_def set_generateScopeCombinations combos_def covers_def
      dimensionCoverage_def)

lemma distinct_computeWSACoverage: "distinct (computeWSACoverage \<omega> r v)"
  by (simp add: computeWSACoverage_def distinct_generateScopeCombinations)

section \<open>The scope map is the coverage relation\<close>

definition indices_at :: "(Scope, nat goset) gomap \<Rightarrow> Scope \<Rightarrow> nat goset" where
  "indices_at m s = (case map_of m s of None \<Rightarrow> [] | Some ix \<Rightarrow> ix)"

lemma indices_addWSAIndex:
  "set (indices_at (addWSAIndex i s m) t) = (if t = s then insert i (set (indices_at m t)) else set (indices_at m t))"
  by (auto simp: indices_at_def addWSAIndex_def map_of_put split: option.splits)

lemma indices_fold_add:
  "set (indices_at (fold (addWSAIndex i) ss m) t) =
     set (indices_at m t) \<union> (if t \<in> set ss then {i} else {})"
  by (induction ss arbitrary: m) (auto simp: indices_addWSAIndex)

lemma indices_fold_fold:
  "set (indices_at (fold (\<lambda>(i, ss). fold (addWSAIndex i) (\<pi> ss)) xs m) t) =
     set (indices_at m t) \<union> {i. \<exists>ss. (i, ss) \<in> set xs \<and> t \<in> set (\<pi> ss)}"
  by (induction xs arbitrary: m) (auto simp: indices_fold_add split: if_splits)

lemma indices_findScopeIntersections:
  assumes "order_ok \<omega>"
  shows "set (indices_at (findScopeIntersections \<omega> covs) s) =
     {i. i < length covs \<and> s \<in> set (covs ! i)}"
  unfolding findScopeIntersections_def indices_fold_fold
  using permuting_set[OF order_okD(2)[OF assms]]
  by (auto simp: indices_at_def in_set_enumerate_eq)

text \<open>Every entry of the intersection map is a non-empty index set.\<close>

definition entries_ok :: "(Scope, nat goset) gomap \<Rightarrow> bool" where
  "entries_ok m \<longleftrightarrow> map_wf m \<and> (\<forall>s ix. map_of m s = Some ix \<longrightarrow> ix \<noteq> [] \<and> distinct ix)"

lemma entries_ok_addWSAIndex: "entries_ok m \<Longrightarrow> entries_ok (addWSAIndex i s m)"
  by (auto simp: entries_ok_def addWSAIndex_def map_of_put List.insert_def split: option.splits if_splits)

lemma entries_ok_fold: "entries_ok m \<Longrightarrow> entries_ok (fold (addWSAIndex i) ss m)"
  by (induction ss arbitrary: m) (auto intro: entries_ok_addWSAIndex)

lemma entries_ok_findScopeIntersections: "entries_ok (findScopeIntersections \<omega> covs)"
proof -
  have "entries_ok m \<Longrightarrow> entries_ok (fold (\<lambda>(i, ss). fold (addWSAIndex i) (o_scope \<omega> ss)) xs m)" for xs m
    by (induction xs arbitrary: m) (auto intro: entries_ok_fold)
  moreover have "entries_ok []"
    by (simp add: entries_ok_def)
  ultimately show ?thesis
    by (simp only: findScopeIntersections_def)
qed

definition keys_distinct :: "WSAResource list \<Rightarrow> bool" where
  "keys_distinct rs \<longleftrightarrow> distinct (map GetNamespacedName rs)"

lemma keys_distinct_inj:
  "keys_distinct rs \<Longrightarrow> inj_on (\<lambda>i. GetNamespacedName (rs ! i)) {..<length rs}"
  by (auto simp: keys_distinct_def inj_on_def distinct_conv_nth)

lemma keys_distinct_eq:
  "keys_distinct rs \<Longrightarrow> r \<in> set rs \<Longrightarrow> r' \<in> set rs \<Longrightarrow>
     GetNamespacedName r = GetNamespacedName r' \<Longrightarrow> r = r'"
  by (auto simp: keys_distinct_def distinct_map inj_on_def)

lemma map_wf_wsaMapOf [simp]: "map_wf (wsaMapOf \<omega> rs ix)"
  by (simp add: wsaMapOf_def map_wf_fold_put)

lemma wsaMapOf_iff:
  assumes "order_ok \<omega>" and "keys_distinct rs" and "\<forall>i \<in> set ix. i < length rs"
  shows "map_of (wsaMapOf \<omega> rs ix) k = Some r \<longleftrightarrow>
     (\<exists>i \<in> set ix. rs ! i = r \<and> GetNamespacedName r = k)"
proof
  assume "map_of (wsaMapOf \<omega> rs ix) k = Some r"
  then show "\<exists>i \<in> set ix. rs ! i = r \<and> GetNamespacedName r = k"
    using fold_put_origin permuting_set[OF order_okD(3)[OF assms(1)]]
    unfolding wsaMapOf_def by fastforce
next
  assume "\<exists>i \<in> set ix. rs ! i = r \<and> GetNamespacedName r = k"
  then obtain i where i: "i \<in> set (o_index \<omega> ix)" "rs ! i = r" "GetNamespacedName r = k"
    using permuting_set[OF order_okD(3)[OF assms(1)]] by blast
  have "inj_on (\<lambda>i. GetNamespacedName (rs ! i)) (set (o_index \<omega> ix))"
    using keys_distinct_inj[OF assms(2)] assms(3) permuting_set[OF order_okD(3)[OF assms(1)]]
    by (auto intro: inj_on_subset)
  from fold_put_inj[OF this i(1), of "\<lambda>i. rs ! i" "[]"] show "map_of (wsaMapOf \<omega> rs ix) k = Some r"
    by (simp add: wsaMapOf_def i)
qed

lemma map_of_buildScopeToWSAMapping:
  assumes "order_ok \<omega>" and "entries_ok m"
  shows "map_of (buildScopeToWSAMapping \<omega> m rs) s = map_option (wsaMapOf \<omega> rs) (map_of m s)"
proof -
  let ?xs = "filter (\<lambda>(s, ix). length ix > 0) (go_range (o_scope \<omega>) m)"
  have build: "buildScopeToWSAMapping \<omega> m rs =
      fold (\<lambda>x. map_put (fst x) (wsaMapOf \<omega> rs (snd x))) ?xs []"
    by (simp add: buildScopeToWSAMapping_def case_prod_unfold fold_if_filter)
  have xs: "set ?xs = {(s, ix). map_of m s = Some ix}"
    using assms(2) by (auto simp: set_go_range[OF order_okD(2)[OF assms(1)]] entries_ok_def)
  have inj: "inj_on fst (set ?xs)"
    unfolding xs by (auto simp: inj_on_def)
  show ?thesis
  proof (cases "map_of m s")
    case None
    then have "s \<notin> fst ` set ?xs" unfolding xs by auto
    with None show ?thesis by (simp add: build fold_put_other)
  next
    case (Some ix)
    then have "(s, ix) \<in> set ?xs" unfolding xs by simp
    from fold_put_inj[OF inj this, of "\<lambda>x. wsaMapOf \<omega> rs (snd x)" "[]"] Some
    show ?thesis by (simp add: build)
  qed
qed

lemma map_wf_computeMinimal: "map_wf (computeMinimalServiceAccountScopes \<omega> rs v)"
proof -
  have "map_wf (buildScopeToWSAMapping \<omega> m rs)" for m
    by (simp add: buildScopeToWSAMapping_def case_prod_unfold fold_if_filter map_wf_fold_put)
  then show ?thesis
    by (simp add: computeMinimalServiceAccountScopes_def Let_def)
qed

lemma computeMinimal_entry:
  assumes "order_ok \<omega>"
  shows "map_of (computeMinimalServiceAccountScopes \<omega> rs v) s =
    (if \<exists>r \<in> set rs. covers v r s
     then Some (wsaMapOf \<omega> rs (indices_at
       (findScopeIntersections \<omega> (map (\<lambda>r. computeWSACoverage \<omega> r v) rs)) s))
     else None)"
proof (cases "rs = []")
  case True
  then show ?thesis by (simp add: computeMinimalServiceAccountScopes_def)
next
  case False
  let ?m = "findScopeIntersections \<omega> (map (\<lambda>r. computeWSACoverage \<omega> r v) rs)"
  have ok: "entries_ok ?m" by (rule entries_ok_findScopeIntersections)
  have "set (indices_at ?m s) = {i. i < length rs \<and> covers v (rs ! i) s}"
    by (auto simp: indices_findScopeIntersections[OF assms] set_computeWSACoverage[OF assms])
  then have "indices_at ?m s \<noteq> [] \<longleftrightarrow> (\<exists>r \<in> set rs. covers v r s)"
    by (metis (no_types, lifting) in_set_conv_nth mem_Collect_eq set_empty ex_in_conv)
  then have "map_of ?m s = (if \<exists>r \<in> set rs. covers v r s then Some (indices_at ?m s) else None)"
    using ok by (auto simp: indices_at_def entries_ok_def split: option.splits)
  with False show ?thesis
    by (simp add: computeMinimalServiceAccountScopes_def map_of_buildScopeToWSAMapping[OF assms ok])
qed

lemma computeMinimal_dom:
  "order_ok \<omega> \<Longrightarrow> s \<in> dom (map_of (computeMinimalServiceAccountScopes \<omega> rs v)) \<longleftrightarrow>
     (\<exists>r \<in> set rs. covers v r s)"
  by (simp add: computeMinimal_entry domIff)

lemma computeMinimal_wsas:
  assumes "order_ok \<omega>" and "keys_distinct rs"
    and "map_of (computeMinimalServiceAccountScopes \<omega> rs v) s = Some m"
  shows "map_wf m" and "map_of m k = Some r \<longleftrightarrow> r \<in> set rs \<and> covers v r s \<and> GetNamespacedName r = k"
proof -
  let ?ix = "indices_at (findScopeIntersections \<omega> (map (\<lambda>r. computeWSACoverage \<omega> r v) rs)) s"
  have m: "m = wsaMapOf \<omega> rs ?ix"
    using assms(3) by (auto simp: computeMinimal_entry[OF assms(1)] split: if_splits)
  then show "map_wf m" by simp
  have "set ?ix = {i. i < length rs \<and> covers v (rs ! i) s}"
    by (auto simp: indices_findScopeIntersections[OF assms(1)] set_computeWSACoverage[OF assms(1)])
  then show "map_of m k = Some r \<longleftrightarrow> r \<in> set rs \<and> covers v r s \<and> GetNamespacedName r = k"
    unfolding m by (subst wsaMapOf_iff[OF assms(1,2)]) (auto simp: in_set_conv_nth)
qed

section \<open>Looking a deployment up\<close>

text \<open>
  The meaning of a scope constraint for a deployment: every constrained dimension lists the
  deployment's value.
\<close>

definition wsa_matches :: "WSAResource \<Rightarrow> Scope \<Rightarrow> bool" where
  "wsa_matches r s \<longleftrightarrow> (\<forall>d < MaxDimensionIndex.
     scopeSlices r ! d = [] \<or> scope_dims s ! d \<in> set (scopeSlices r ! d))"

text \<open>
  The schema of both custom resources admits slugs only (\<^verbatim>\<open>+kubebuilder:validation:items:Pattern\<close>),
  so no listed value is the wildcard.
\<close>

definition no_wildcard :: "WSAResource list \<Rightarrow> bool" where
  "no_wildcard rs \<longleftrightarrow> (\<forall>r \<in> set rs. \<forall>d < MaxDimensionIndex. WildcardValue \<notin> set (scopeSlices r ! d))"

lemma covers_known_iff:
  assumes "no_wildcard rs" and "r \<in> set rs"
  shows "covers (buildGlobalVocabulary rs) r (GetKnownScopeCombination (buildGlobalVocabulary rs) s) \<longleftrightarrow>
     wsa_matches r s"
proof -
  let ?v = "buildGlobalVocabulary rs"
  have "(if scopeSlices r ! d = []
         then scope_dims (GetKnownScopeCombination ?v s) ! d \<in> insert WildcardValue (set (?v ! d))
         else scope_dims (GetKnownScopeCombination ?v s) ! d \<in> set (scopeSlices r ! d)) \<longleftrightarrow>
        scopeSlices r ! d = [] \<or> scope_dims s ! d \<in> set (scopeSlices r ! d)"
    if "d < MaxDimensionIndex" for d
  proof -
    have "set (scopeSlices r ! d) \<subseteq> set (?v ! d)" "WildcardValue \<notin> set (scopeSlices r ! d)"
      using that assms by (auto simp: vocabulary_nth no_wildcard_def)
    with that show ?thesis by (auto simp: known_dim)
  qed
  then show ?thesis by (simp add: covers_def wsa_matches_def)
qed

end
