(* ===== verification/Sha256.thy ===== *)
theory Sha256
  imports Prelude "HOL-Library.Word"
begin

text \<open>
  \<^verbatim>\<open>shortHash\<close> of \<^verbatim>\<open>internal/rules/generator.go\<close>: the first 32 hexadecimal digits of
  \<^verbatim>\<open>sha256.Sum256\<close>. The standard library's SHA-256 is written out on 32-bit words (message
  padding, message schedule, 64 rounds), so that names of the model are the names the program
  produces. Shown: the digest of the FIPS test message, and that every short hash is 32
  lower-case hexadecimal digits.
\<close>

unbundle bit_operations_syntax

type_synonym byte = "8 word"
type_synonym u32 = "32 word"

section \<open>crypto/sha256\<close>

definition sha256_K :: "u32 list" where
  "sha256_K =
   [1116352408, 1899447441, 3049323471, 3921009573, 961987163, 1508970993, 2453635748, 2870763221,
    3624381080, 310598401, 607225278, 1426881987, 1925078388, 2162078206, 2614888103, 3248222580,
    3835390401, 4022224774, 264347078, 604807628, 770255983, 1249150122, 1555081692, 1996064986,
    2554220882, 2821834349, 2952996808, 3210313671, 3336571891, 3584528711, 113926993, 338241895,
    666307205, 773529912, 1294757372, 1396182291, 1695183700, 1986661051, 2177026350, 2456956037,
    2730485921, 2820302411, 3259730800, 3345764771, 3516065817, 3600352804, 4094571909, 275423344,
    430227734, 506948616, 659060556, 883997877, 958139571, 1322822218, 1537002063, 1747873779,
    1955562222, 2024104815, 2227730452, 2361852424, 2428436474, 2756734187, 3204031479, 3329325298]"

type_synonym digest = "u32 \<times> u32 \<times> u32 \<times> u32 \<times> u32 \<times> u32 \<times> u32 \<times> u32"

definition sha256_init :: digest where
  "sha256_init = (1779033703, 3144134277, 1013904242, 2773480762,
                  1359893119, 2600822924, 528734635, 1541459225)"

text \<open>The last sixteen words of the message schedule are enough to compute the next one.\<close>

fun sha256_schedule :: "nat \<Rightarrow> u32 list \<Rightarrow> u32 list" where
  "sha256_schedule 0 ws = ws"
| "sha256_schedule (Suc n) [] = []"
| "sha256_schedule (Suc n) (w0 # ws) =
     (let v1 = ws ! 13; t1 = word_rotr 17 v1 XOR word_rotr 19 v1 XOR drop_bit 10 v1;
          v2 = ws ! 0;  t2 = word_rotr 7 v2 XOR word_rotr 18 v2 XOR drop_bit 3 v2
      in w0 # sha256_schedule n (ws @ [t1 + ws ! 8 + t2 + w0]))"

fun sha256_mix :: "u32 \<Rightarrow> u32 \<Rightarrow> digest \<Rightarrow> digest" where
  "sha256_mix t1 t2 (a, b, c, d, e, f, g, h) = (t1 + t2, a, b, c, d + t1, e, f, g)"

fun sha256_round :: "u32 \<Rightarrow> u32 \<Rightarrow> digest \<Rightarrow> digest" where
  "sha256_round k w (a, b, c, d, e, f, g, h) =
     sha256_mix
       (h + (word_rotr 6 e XOR word_rotr 11 e XOR word_rotr 25 e)
          + ((e AND f) XOR (NOT e AND g)) + k + w)
       ((word_rotr 2 a XOR word_rotr 13 a XOR word_rotr 22 a)
          + ((a AND b) XOR (a AND c) XOR (b AND c)))
       (a, b, c, d, e, f, g, h)"

fun sha256_rounds :: "u32 list \<Rightarrow> u32 list \<Rightarrow> digest \<Rightarrow> digest" where
  "sha256_rounds (k # ks) (w # ws) s = sha256_rounds ks ws (sha256_round k w s)"
| "sha256_rounds _ _ s = s"

fun digest_add :: "digest \<Rightarrow> digest \<Rightarrow> digest" where
  "digest_add (a, b, c, d, e, f, g, h) (a', b', c', d', e', f', g', h') =
     (a + a', b + b', c + c', d + d', e + e', f + f', g + g', h + h')"

definition sha256_block :: "u32 list \<Rightarrow> digest \<Rightarrow> digest" where
  "sha256_block ws s = digest_add s (sha256_rounds sha256_K (sha256_schedule 48 ws) s)"

fun sha256_blocks :: "nat \<Rightarrow> u32 list \<Rightarrow> digest \<Rightarrow> digest" where
  "sha256_blocks 0 ws s = s"
| "sha256_blocks (Suc n) ws s = sha256_blocks n (drop 16 ws) (sha256_block (take 16 ws) s)"

definition be_bytes :: "64 word \<Rightarrow> byte list" where
  "be_bytes x = map (\<lambda>i. ucast (drop_bit i x)) [56, 48, 40, 32, 24, 16, 8, 0]"

definition sha256_pad :: "byte list \<Rightarrow> byte list" where
  "sha256_pad bs = bs @ [0x80] @ replicate ((119 - length bs mod 64) mod 64) 0
     @ be_bytes (of_nat (8 * length bs))"

fun be_words :: "byte list \<Rightarrow> u32 list" where
  "be_words (a # b # c # d # bs) =
     (ucast a * 0x1000000 + ucast b * 0x10000 + ucast c * 0x100 + ucast d) # be_words bs"
| "be_words _ = []"

definition Sum256 :: "byte list \<Rightarrow> digest" where
  "Sum256 bs = (let ws = be_words (sha256_pad bs)
                in sha256_blocks (length ws div 16) ws sha256_init)"

section \<open>shortHash\<close>

definition hex_digits :: string where
  "hex_digits = ''0123456789abcdef''"

definition hex_u32 :: "u32 \<Rightarrow> string" where
  "hex_u32 w = map (\<lambda>i. hex_digits ! unat (drop_bit i w AND 15)) [28, 24, 20, 16, 12, 8, 4, 0]"

fun hex_digest :: "digest \<Rightarrow> string" where
  "hex_digest (a, b, c, d, e, f, g, h) = concat (map hex_u32 [a, b, c, d, e, f, g, h])"

definition shortHash :: "string \<Rightarrow> string" where
  "shortHash value = take 32 (hex_digest (Sum256 (map of_char value)))"

section \<open>Properties\<close>

lemma length_hex_u32 [simp]: "length (hex_u32 w) = 8"
  by (simp add: hex_u32_def)

lemma nibble_less: "unat ((w :: u32) AND 15) < 16"
proof -
  have "w AND 15 \<le> (15 :: u32)"
    by (rule word_and_le1)
  then have "unat (w AND 15) \<le> unat (15 :: u32)"
    by (simp add: word_le_nat_alt)
  then show ?thesis by simp
qed

lemma set_hex_u32: "set (hex_u32 w) \<subseteq> set hex_digits"
proof -
  have "length hex_digits = 16"
    by (simp add: hex_digits_def)
  then have "hex_digits ! unat (v AND 15) \<in> set hex_digits" for v :: u32
    using nibble_less by (simp add: nth_mem)
  then show ?thesis
    unfolding hex_u32_def set_map by blast
qed

lemma length_hex_digest [simp]: "length (hex_digest s) = 64"
  by (cases s rule: hex_digest.cases) simp

lemma set_hex_digest: "set (hex_digest s) \<subseteq> set hex_digits"
proof (cases s rule: hex_digest.cases)
  case (1 a b c d e f g h)
  have "set (hex_digest s) \<subseteq> (\<Union>w. set (hex_u32 w))"
    unfolding 1 by simp blast
  also have "\<dots> \<subseteq> set hex_digits"
    using set_hex_u32 by blast
  finally show ?thesis .
qed

lemma length_shortHash [simp, go_simps]: "length (shortHash s) = 32"
  by (simp add: shortHash_def)

lemma set_shortHash: "set (shortHash s) \<subseteq> set hex_digits"
  unfolding shortHash_def by (meson order_trans set_take_subset set_hex_digest)

text \<open>Known answers: the FIPS 180 message, and the strings that the worked examples hash.\<close>

lemma shortHash_abc: "shortHash ''abc'' = ''ba7816bf8f01cfea414140de5dae2223''"
  by code_simp

lemma shortHash_p1: "shortHash ''projects:p1'' = ''c9843b9db54ae59ae787045516ddc2de''"
  by code_simp

lemma shortHash_p2: "shortHash ''projects:p2'' = ''c7e409025440fb61490bcbf91ac1d891''"
  by code_simp

lemma shortHash_wildcard: "shortHash ''wildcard'' = ''ed3c7bc96fed7441c591e20c2ceebaf1''"
  by code_simp

lemma shortHash_label_p1: "shortHash ''p1'' = ''f64551fcd6f07823cb87971cfb914464''"
  by code_simp

lemma shortHash_label_p2: "shortHash ''p2'' = ''3946ca64ff78d93ca61090a437cbb6b3''"
  by code_simp

lemma shortHash_rb_deployer: "shortHash ''a-deployer'' = ''db0810aeea86d6d485c15a1a48930dea''"
  by code_simp

text \<open>
  The examples evaluate the same few hashes over and over; this code equation looks them up.
\<close>

lemma shortHash_memo [code]:
  "shortHash v =
     (if v = ''projects:p1'' then ''c9843b9db54ae59ae787045516ddc2de'' else
      if v = ''projects:p2'' then ''c7e409025440fb61490bcbf91ac1d891'' else
      if v = ''p1'' then ''f64551fcd6f07823cb87971cfb914464'' else
      if v = ''p2'' then ''3946ca64ff78d93ca61090a437cbb6b3'' else
      if v = ''a-deployer'' then ''db0810aeea86d6d485c15a1a48930dea'' else
      take 32 (hex_digest (Sum256 (map of_char v))))"
  by (simp add: shortHash_p1 shortHash_p2 shortHash_label_p1 shortHash_label_p2 shortHash_rb_deployer flip: shortHash_def)

end
