(* ===== verification/Mappings.thy ===== *)
theory Mappings
  imports Scopes Sha256
begin

text \<open>
  The second half of \<^verbatim>\<open>internal/rules/generator.go\<close>, and \<^verbatim>\<open>internal/rules/scope_computation.go\<close>:
  scopes with the same set of resources form a group, every group gets one service account whose
  name is the hash of the values occurring in the group, and four maps record who belongs to
  whom. Shown: what each of the four maps contains, for every iteration order of the runtime.
\<close>

section \<open>Constants\<close>

definition MetadataNamespace :: string where "MetadataNamespace = ''agent.octopus.com''"
definition PermissionsKey :: string where "PermissionsKey = MetadataNamespace @ ''/permissions''"
definition ProjectKey :: string where "ProjectKey = MetadataNamespace @ ''/project''"
definition ProjectGroupKey :: string where "ProjectGroupKey = MetadataNamespace @ ''/project-group''"
definition EnvironmentKey :: string where "EnvironmentKey = MetadataNamespace @ ''/environment''"
definition TenantKey :: string where "TenantKey = MetadataNamespace @ ''/tenant''"
definition StepKey :: string where "StepKey = MetadataNamespace @ ''/step''"
definition SpaceKey :: string where "SpaceKey = MetadataNamespace @ ''/space''"
definition ManagedByLabel :: string where "ManagedByLabel = ''app.kubernetes.io/managed-by''"
definition ManagedByValue :: string where "ManagedByValue = ''octopus-permissions-controller''"

definition IsOctopusManaged :: "(string, string) gomap \<Rightarrow> bool" where
  "IsOctopusManaged labels \<longleftrightarrow>
     (case map_of labels ManagedByLabel of None \<Rightarrow> False | Some managedBy \<Rightarrow> managedBy = ManagedByValue)"

section \<open>Grouping\<close>

definition wsaSetKey :: "go_order \<Rightarrow> WSAMap \<Rightarrow> string" where
  "wsaSetKey \<omega> wsaMap =
     (let wsaKeys = sort_key nn_String (o_key \<omega> (map fst wsaMap))
      in strings_Join (map nn_String wsaKeys) '','')"

definition addScopeToGroup ::
  "string \<Rightarrow> Scope \<Rightarrow> (string, Scope list) gomap \<Rightarrow> (string, Scope list) gomap" where
  "addScopeToGroup k scope m =
     map_put k ((case map_of m k of None \<Rightarrow> [] | Some ss \<Rightarrow> ss) @ [scope]) m"

definition groupScopesByWSASet :: "go_order \<Rightarrow> ScopeMap \<Rightarrow> (string, Scope list) gomap" where
  "groupScopesByWSASet \<omega> scopeMap =
     fold (\<lambda>(scope, wsaMap). addScopeToGroup (wsaSetKey \<omega> wsaMap) scope)
       (go_range (o_scope \<omega>) scopeMap) []"

record GroupedDimensions =
  gProjects :: "string list"
  gProjectGroups :: "string list"
  gEnvironments :: "string list"
  gTenants :: "string list"
  gSteps :: "string list"
  gSpaces :: "string list"

text \<open>One of the six sets that the loop of \<^verbatim>\<open>collectDimensionValues\<close> fills, sorted.\<close>

definition collectDimension :: "go_order \<Rightarrow> (Scope \<Rightarrow> string) \<Rightarrow> Scope list \<Rightarrow> string list" where
  "collectDimension \<omega> field scopes =
     sort (o_string \<omega> (fold (\<lambda>scope acc.
        if field scope \<noteq> [] \<and> field scope \<noteq> WildcardValue then List.insert (field scope) acc
        else acc) scopes []))"

definition collectDimensionValues :: "go_order \<Rightarrow> Scope list \<Rightarrow> GroupedDimensions" where
  "collectDimensionValues \<omega> scopes =
     \<lparr>gProjects = collectDimension \<omega> Project scopes,
      gProjectGroups = collectDimension \<omega> ProjectGroup scopes,
      gEnvironments = collectDimension \<omega> Environment scopes,
      gTenants = collectDimension \<omega> Tenant scopes,
      gSteps = collectDimension \<omega> Step scopes,
      gSpaces = collectDimension \<omega> Space scopes\<rparr>"

section \<open>Names, labels and annotations\<close>

type_synonym ServiceAccountName = string

definition groupedParts :: "GroupedDimensions \<Rightarrow> string list" where
  "groupedParts grouped =
     (let parts =
        (if length (gSpaces grouped) > 0
         then [''spaces:'' @ strings_Join (gSpaces grouped) ''+''] else []) @
        (if length (gProjects grouped) > 0
         then [''projects:'' @ strings_Join (gProjects grouped) ''+''] else []) @
        (if length (gProjectGroups grouped) > 0
         then [''projectgroups:'' @ strings_Join (gProjectGroups grouped) ''+''] else []) @
        (if length (gEnvironments grouped) > 0
         then [''environments:'' @ strings_Join (gEnvironments grouped) ''+''] else []) @
        (if length (gTenants grouped) > 0
         then [''tenants:'' @ strings_Join (gTenants grouped) ''+''] else []) @
        (if length (gSteps grouped) > 0
         then [''steps:'' @ strings_Join (gSteps grouped) ''+''] else [])
      in if length parts = 0 then [''wildcard''] else parts)"

definition scopeString :: "GroupedDimensions \<Rightarrow> string" where
  "scopeString grouped = strings_Join (groupedParts grouped) ''|''"

definition generateGroupedServiceAccountName :: "GroupedDimensions \<Rightarrow> ServiceAccountName" where
  "generateGroupedServiceAccountName grouped = ''octopus-sa-'' @ shortHash (scopeString grouped)"

definition put_if_any ::
  "(string list \<Rightarrow> string) \<Rightarrow> string list \<Rightarrow> string \<Rightarrow> (string, string) gomap \<Rightarrow> (string, string) gomap" where
  "put_if_any joined values key m = (if length values > 0 then map_put key (joined values) m else m)"

definition generateServiceAccountLabelsFromGrouped :: "GroupedDimensions \<Rightarrow> (string, string) gomap" where
  "generateServiceAccountLabelsFromGrouped grouped =
     (let joined = (\<lambda>values. shortHash (strings_Join values ''+''));
          labels = [(ManagedByLabel, ManagedByValue)];
          labels = put_if_any joined (gProjects grouped) ProjectKey labels;
          labels = put_if_any joined (gProjectGroups grouped) ProjectGroupKey labels;
          labels = put_if_any joined (gEnvironments grouped) EnvironmentKey labels;
          labels = put_if_any joined (gTenants grouped) TenantKey labels;
          labels = put_if_any joined (gSteps grouped) StepKey labels
      in put_if_any joined (gSpaces grouped) SpaceKey labels)"

definition generateAnnotationsFromGrouped :: "GroupedDimensions \<Rightarrow> (string, string) gomap" where
  "generateAnnotationsFromGrouped grouped =
     (let joined = (\<lambda>values. strings_Join values ''+'');
          m = [];
          m = put_if_any joined (gProjects grouped) ProjectKey m;
          m = put_if_any joined (gProjectGroups grouped) ProjectGroupKey m;
          m = put_if_any joined (gEnvironments grouped) EnvironmentKey m;
          m = put_if_any joined (gTenants grouped) TenantKey m;
          m = put_if_any joined (gSteps grouped) StepKey m
      in put_if_any joined (gSpaces grouped) SpaceKey m)"

definition generateServiceAccountFromGrouped ::
  "ServiceAccountName \<Rightarrow> GroupedDimensions \<Rightarrow> ServiceAccount" where
  "generateServiceAccountFromGrouped name grouped =
     \<lparr>sa_Meta = ObjectMeta_zero
        \<lparr>om_Name := name,
         om_Labels := generateServiceAccountLabelsFromGrouped grouped,
         om_Annotations := generateAnnotationsFromGrouped grouped\<rparr>\<rparr>"

section \<open>The mappings\<close>

record mappings =
  scopeToServiceAccount :: "(Scope, ServiceAccountName) gomap"
  serviceAccountToWSAs :: "(ServiceAccountName, WSAMap) gomap"
  uniqueServiceAccounts :: "(ServiceAccountName, ServiceAccount) gomap"
  wsaToServiceAccountNamesSet :: "(NamespacedName, string goset) gomap"

definition mappings_empty :: mappings where
  "mappings_empty = \<lparr>scopeToServiceAccount = [], serviceAccountToWSAs = [],
     uniqueServiceAccounts = [], wsaToServiceAccountNamesSet = []\<rparr>"

definition trackWSA ::
  "ServiceAccountName \<Rightarrow> NamespacedName \<Rightarrow> (NamespacedName, string goset) gomap \<Rightarrow>
   (NamespacedName, string goset) gomap" where
  "trackWSA serviceAccountName wsaName m =
     (case map_of m wsaName of
        Some wsaSet \<Rightarrow> map_put wsaName (List.insert serviceAccountName wsaSet) m
      | None \<Rightarrow> map_put wsaName (List.insert serviceAccountName []) m)"

definition groupName :: "go_order \<Rightarrow> Scope list \<Rightarrow> ServiceAccountName" where
  "groupName \<omega> scopes = generateGroupedServiceAccountName (collectDimensionValues \<omega> scopes)"

definition groupWSAs :: "ScopeMap \<Rightarrow> Scope list \<Rightarrow> WSAMap" where
  "groupWSAs scopeMap scopes = (case map_of scopeMap (scopes ! 0) of None \<Rightarrow> [] | Some m \<Rightarrow> m)"

text \<open>The body of the loop over the groups.\<close>

definition mapGroup :: "go_order \<Rightarrow> ScopeMap \<Rightarrow> Scope list \<Rightarrow> mappings \<Rightarrow> mappings" where
  "mapGroup \<omega> scopeMap scopes ms =
     (let grouped = collectDimensionValues \<omega> scopes;
          serviceAccountName = groupName \<omega> scopes;
          wsaMap = groupWSAs scopeMap scopes
      in \<lparr>scopeToServiceAccount =
            fold (\<lambda>scope. map_put scope serviceAccountName) scopes (scopeToServiceAccount ms),
          serviceAccountToWSAs = map_put serviceAccountName wsaMap (serviceAccountToWSAs ms),
          uniqueServiceAccounts =
            map_put serviceAccountName (generateServiceAccountFromGrouped serviceAccountName grouped)
              (uniqueServiceAccounts ms),
          wsaToServiceAccountNamesSet =
            fold (trackWSA serviceAccountName) (o_key \<omega> (map fst wsaMap))
              (wsaToServiceAccountNamesSet ms)\<rparr>)"

text \<open>The groups in the order in which the main loop meets them.\<close>

definition groupList :: "go_order \<Rightarrow> ScopeMap \<Rightarrow> Scope list list" where
  "groupList \<omega> scopeMap = map snd (go_range (o_string \<omega>) (groupScopesByWSASet \<omega> scopeMap))"

definition allMappings :: "go_order \<Rightarrow> ScopeMap \<Rightarrow> mappings" where
  "allMappings \<omega> scopeMap =
     fold (mapGroup \<omega> scopeMap) (groupList \<omega> scopeMap) mappings_empty"

definition GenerateServiceAccountMappings ::
  "go_order \<Rightarrow> ScopeMap \<Rightarrow>
   (Scope, ServiceAccountName) gomap \<times> (ServiceAccountName, WSAMap) gomap \<times>
   (NamespacedName, string list) gomap \<times> ServiceAccount list" where
  "GenerateServiceAccountMappings \<omega> scopeMap =
     (let ms = allMappings \<omega> scopeMap;
          serviceAccountsToCreate = map snd (go_range (o_string \<omega>) (uniqueServiceAccounts ms));
          wsaToServiceAccountNames =
            fold (\<lambda>(wsa, wsaSet). map_put wsa (o_string \<omega> wsaSet))
              (go_range (o_key \<omega>) (wsaToServiceAccountNamesSet ms)) []
      in (scopeToServiceAccount ms, serviceAccountToWSAs ms, wsaToServiceAccountNames,
          serviceAccountsToCreate))"

section \<open>ScopeComputationService\<close>

record ScopeComputationService =
  scs_vocabulary :: GlobalVocabulary
  scs_scopeToSA :: "(Scope, ServiceAccountName) gomap"

definition NewScopeComputationService ::
  "GlobalVocabulary \<Rightarrow> (Scope, ServiceAccountName) gomap \<Rightarrow> ScopeComputationService" where
  "NewScopeComputationService vocabulary scopeToSA =
     \<lparr>scs_vocabulary = vocabulary, scs_scopeToSA = scopeToSA\<rparr>"

text \<open>The Go function also returns an error, which is always \<^verbatim>\<open>nil\<close>.\<close>

definition GetServiceAccountForScope ::
  "ScopeComputationService \<Rightarrow> Scope \<Rightarrow> ServiceAccountName \<times> error option" where
  "GetServiceAccountForScope s scope =
     (let knownScope = GetKnownScopeCombination (scs_vocabulary s) scope
      in case map_of (scs_scopeToSA s) knownScope of Some sa \<Rightarrow> (sa, None) | None \<Rightarrow> ([], None))"

definition ComputeScopesForWSAs :: "go_order \<Rightarrow> WSAResource list \<Rightarrow> ScopeMap \<times> GlobalVocabulary" where
  "ComputeScopesForWSAs \<omega> wsaList =
     (let vocabulary = buildGlobalVocabulary wsaList
      in (computeMinimalServiceAccountScopes \<omega> wsaList vocabulary, vocabulary))"

definition GetScopeToSA :: "ScopeComputationService \<Rightarrow> (Scope, ServiceAccountName) gomap" where
  "GetScopeToSA s = scs_scopeToSA s"

section \<open>Groups partition the scopes\<close>

definition group_at :: "(string, Scope list) gomap \<Rightarrow> string \<Rightarrow> Scope list" where
  "group_at m k = (case map_of m k of None \<Rightarrow> [] | Some ss \<Rightarrow> ss)"

lemma group_at_add:
  "group_at (addScopeToGroup k s m) k' = (if k' = k then group_at m k' @ [s] else group_at m k')"
  by (auto simp: group_at_def addScopeToGroup_def map_of_put split: option.splits)

lemma group_at_fold:
  "group_at (fold (\<lambda>(s, w). addScopeToGroup (f w) s) xs m) k =
     group_at m k @ map fst (filter (\<lambda>(s, w). f w = k) xs)"
  by (induction xs arbitrary: m) (auto simp: group_at_add)

definition groups_ok :: "(string, Scope list) gomap \<Rightarrow> bool" where
  "groups_ok m \<longleftrightarrow> map_wf m \<and> (\<forall>k ss. map_of m k = Some ss \<longrightarrow> ss \<noteq> [])"

lemma groups_ok_add: "groups_ok m \<Longrightarrow> groups_ok (addScopeToGroup k s m)"
  by (auto simp: groups_ok_def addScopeToGroup_def map_of_put)

lemma groups_ok_group: "groups_ok (groupScopesByWSASet \<omega> sm)"
proof -
  have "groups_ok m \<Longrightarrow> groups_ok (fold (\<lambda>(s, w). addScopeToGroup (f w) s) xs m)"
    for f :: "WSAMap \<Rightarrow> string" and xs m
    by (induction xs arbitrary: m) (auto intro: groups_ok_add)
  moreover have "groups_ok []" by (simp add: groups_ok_def)
  ultimately show ?thesis by (simp only: groupScopesByWSASet_def)
qed

lemma group_at_group:
  "group_at (groupScopesByWSASet \<omega> sm) k =
     map fst (filter (\<lambda>(s, w). wsaSetKey \<omega> w = k) (go_range (o_scope \<omega>) sm))"
  by (simp add: groupScopesByWSASet_def group_at_fold) (simp add: group_at_def)

lemma set_group_at_group:
  "order_ok \<omega> \<Longrightarrow> set (group_at (groupScopesByWSASet \<omega> sm) k) =
     {s. \<exists>m. map_of sm s = Some m \<and> wsaSetKey \<omega> m = k}"
  by (force simp: group_at_group set_go_range[OF order_okD(2)])

lemma distinct_group_at_group:
  assumes "order_ok \<omega>" and "map_wf sm"
  shows "distinct (group_at (groupScopesByWSASet \<omega> sm) k)"
proof -
  have "distinct (map fst (go_range (o_scope \<omega>) sm))"
    by (rule distinct_go_range[OF order_okD(2)[OF assms(1)] assms(2)])
  then show ?thesis
    by (simp add: group_at_group distinct_map_filter)
qed

lemma groupList_iff:
  assumes "order_ok \<omega>"
  shows "g \<in> set (groupList \<omega> sm) \<longleftrightarrow>
    (\<exists>k. g = group_at (groupScopesByWSASet \<omega> sm) k \<and> g \<noteq> [])"
proof -
  have "g \<in> set (groupList \<omega> sm) \<longleftrightarrow> (\<exists>k. map_of (groupScopesByWSASet \<omega> sm) k = Some g)"
    using set_go_range[OF order_okD(1)[OF assms], of "groupScopesByWSASet \<omega> sm"]
    by (force simp: groupList_def)
  also have "\<dots> \<longleftrightarrow> (\<exists>k. g = group_at (groupScopesByWSASet \<omega> sm) k \<and> g \<noteq> [])"
  proof -
    have "map_of m k = Some g \<longleftrightarrow> g = group_at m k \<and> g \<noteq> []" if "groups_ok m" for m k
      using that by (cases "map_of m k") (auto simp: groups_ok_def group_at_def)
    then show ?thesis using groups_ok_group by simp
  qed
  finally show ?thesis .
qed

text \<open>The group of a scope, and that groups with a common scope are equal.\<close>

definition group_of :: "go_order \<Rightarrow> ScopeMap \<Rightarrow> Scope \<Rightarrow> Scope list" where
  "group_of \<omega> sm s = (case map_of sm s of None \<Rightarrow> []
     | Some m \<Rightarrow> group_at (groupScopesByWSASet \<omega> sm) (wsaSetKey \<omega> m))"

lemma group_of_mem: "order_ok \<omega> \<Longrightarrow> s \<in> set (group_of \<omega> sm s) \<longleftrightarrow> s \<in> dom (map_of sm)"
  by (auto simp: group_of_def set_group_at_group split: option.splits)

lemma groupList_group_of:
  assumes "order_ok \<omega>"
  shows "set (groupList \<omega> sm) = group_of \<omega> sm ` dom (map_of sm)"
proof -
  have "g \<in> set (groupList \<omega> sm) \<longleftrightarrow> g \<in> group_of \<omega> sm ` dom (map_of sm)" for g
  proof
    assume "g \<in> set (groupList \<omega> sm)"
    then obtain k where k: "g = group_at (groupScopesByWSASet \<omega> sm) k" and "g \<noteq> []"
      by (auto simp: groupList_iff[OF assms])
    then obtain s where "s \<in> set g" by (metis last_in_set)
    then obtain m where "map_of sm s = Some m" "wsaSetKey \<omega> m = k"
      unfolding k by (auto simp: set_group_at_group[OF assms])
    then show "g \<in> group_of \<omega> sm ` dom (map_of sm)"
      using k by (intro image_eqI[of _ _ s]) (auto simp: group_of_def)
  next
    assume "g \<in> group_of \<omega> sm ` dom (map_of sm)"
    then obtain s m where s: "map_of sm s = Some m"
      and g: "g = group_at (groupScopesByWSASet \<omega> sm) (wsaSetKey \<omega> m)"
      by (auto simp: group_of_def)
    then have "s \<in> set g"
      by (auto simp: set_group_at_group[OF assms])
    with g show "g \<in> set (groupList \<omega> sm)"
      by (auto simp: groupList_iff[OF assms])
  qed
  then show ?thesis by blast
qed

lemma group_of_same:
  assumes "order_ok \<omega>" and "t \<in> set (group_of \<omega> sm s)"
  shows "t \<in> dom (map_of sm)" and "group_of \<omega> sm t = group_of \<omega> sm s"
  using assms(2)
  by (auto simp: group_of_def set_group_at_group[OF assms(1)] split: option.splits)

section \<open>What the four maps contain\<close>

lemma scopeToServiceAccount_fold:
  "scopeToServiceAccount (fold (mapGroup \<omega> sm) gs ms) =
     fold (\<lambda>x. map_put (fst x) (snd x))
       (concat (map (\<lambda>g. map (\<lambda>s. (s, groupName \<omega> g)) g) gs)) (scopeToServiceAccount ms)"
proof (induction gs arbitrary: ms)
  case Nil
  then show ?case by simp
next
  case (Cons g gs)
  have "scopeToServiceAccount (mapGroup \<omega> sm g ms) =
      fold (\<lambda>x. map_put (fst x) (snd x)) (map (\<lambda>s. (s, groupName \<omega> g)) g) (scopeToServiceAccount ms)"
    by (simp add: mapGroup_def Let_def fold_map comp_def)
  with Cons show ?case by simp
qed

lemma scopeToServiceAccount_all:
  assumes "order_ok \<omega>"
  shows "map_of (scopeToServiceAccount (allMappings \<omega> sm)) s =
    (if s \<in> dom (map_of sm) then Some (groupName \<omega> (group_of \<omega> sm s)) else None)"
proof -
  let ?xs = "concat (map (\<lambda>g. map (\<lambda>s. (s, groupName \<omega> g)) g) (groupList \<omega> sm))"
  have xs: "set ?xs = {(s, groupName \<omega> (group_of \<omega> sm s)) | s. s \<in> dom (map_of sm)}"
  proof -
    have "set ?xs = {(s, groupName \<omega> g) | s g. g \<in> set (groupList \<omega> sm) \<and> s \<in> set g}"
      by auto
    also have "\<dots> = {(s, groupName \<omega> (group_of \<omega> sm t)) | s t.
        t \<in> dom (map_of sm) \<and> s \<in> set (group_of \<omega> sm t)}"
      unfolding groupList_group_of[OF assms] by blast
    also have "\<dots> = {(s, groupName \<omega> (group_of \<omega> sm s)) | s. s \<in> dom (map_of sm)}"
      using group_of_same[OF assms] group_of_mem[OF assms] by (safe, metis, blast)
    finally show ?thesis .
  qed
  then have inj: "inj_on fst (set ?xs)" by (auto simp: inj_on_def)
  have all: "scopeToServiceAccount (allMappings \<omega> sm) = fold (\<lambda>x. map_put (fst x) (snd x)) ?xs []"
    by (simp add: allMappings_def scopeToServiceAccount_fold mappings_empty_def)
  show ?thesis
  proof (cases "s \<in> dom (map_of sm)")
    case True
    then have "(s, groupName \<omega> (group_of \<omega> sm s)) \<in> set ?xs" unfolding xs by blast
    from fold_put_inj[OF inj this, of snd "[]"] True show ?thesis by (simp add: all)
  next
    case False
    then have "s \<notin> fst ` set ?xs" unfolding xs by auto
    with False show ?thesis by (simp add: all fold_put_other)
  qed
qed

lemma serviceAccountToWSAs_all:
  "serviceAccountToWSAs (allMappings \<omega> sm) =
     fold (\<lambda>g. map_put (groupName \<omega> g) (groupWSAs sm g)) (groupList \<omega> sm) []"
proof -
  have "serviceAccountToWSAs (fold (mapGroup \<omega> sm) gs ms) =
      fold (\<lambda>g. map_put (groupName \<omega> g) (groupWSAs sm g)) gs (serviceAccountToWSAs ms)" for gs ms
    by (induction gs arbitrary: ms) (simp_all add: mapGroup_def Let_def)
  then show ?thesis by (simp add: allMappings_def mappings_empty_def)
qed

lemma uniqueServiceAccounts_all:
  "uniqueServiceAccounts (allMappings \<omega> sm) =
     fold (\<lambda>g. map_put (groupName \<omega> g)
        (generateServiceAccountFromGrouped (groupName \<omega> g) (collectDimensionValues \<omega> g)))
       (groupList \<omega> sm) []"
proof -
  have "uniqueServiceAccounts (fold (mapGroup \<omega> sm) gs ms) =
      fold (\<lambda>g. map_put (groupName \<omega> g)
        (generateServiceAccountFromGrouped (groupName \<omega> g) (collectDimensionValues \<omega> g)))
       gs (uniqueServiceAccounts ms)" for gs ms
    by (induction gs arbitrary: ms) (simp_all add: mapGroup_def Let_def)
  then show ?thesis by (simp add: allMappings_def mappings_empty_def)
qed

definition names_at :: "(NamespacedName, string goset) gomap \<Rightarrow> NamespacedName \<Rightarrow> string goset" where
  "names_at m k = (case map_of m k of None \<Rightarrow> [] | Some ns \<Rightarrow> ns)"

lemma names_trackWSA:
  "set (names_at (trackWSA n w m) k) = (if k = w then insert n (set (names_at m k)) else set (names_at m k))"
  by (auto simp: names_at_def trackWSA_def map_of_put split: option.splits)

lemma names_fold_trackWSA:
  "set (names_at (fold (trackWSA n) ws m) k) = set (names_at m k) \<union> (if k \<in> set ws then {n} else {})"
  by (induction ws arbitrary: m) (auto simp: names_trackWSA)

lemma names_all:
  assumes "order_ok \<omega>"
  shows "set (names_at (wsaToServiceAccountNamesSet (allMappings \<omega> sm)) k) =
    {groupName \<omega> g | g. g \<in> set (groupList \<omega> sm) \<and> k \<in> dom (map_of (groupWSAs sm g))}"
proof -
  have "set (names_at (wsaToServiceAccountNamesSet (fold (mapGroup \<omega> sm) gs ms)) k) =
      set (names_at (wsaToServiceAccountNamesSet ms) k) \<union>
      {groupName \<omega> g | g. g \<in> set gs \<and> k \<in> dom (map_of (groupWSAs sm g))}" for gs ms
  proof (induction gs arbitrary: ms)
    case Nil
    then show ?case by simp
  next
    case (Cons g gs)
    have "set (names_at (wsaToServiceAccountNamesSet (mapGroup \<omega> sm g ms)) k) =
        set (names_at (wsaToServiceAccountNamesSet ms) k) \<union>
        (if k \<in> dom (map_of (groupWSAs sm g)) then {groupName \<omega> g} else {})"
      by (simp only: mapGroup_def Let_def mappings.simps names_fold_trackWSA
          permuting_set[OF order_okD(4)[OF assms]] set_map_fst_dom)
    with Cons show ?case by auto
  qed
  then show ?thesis
    by (simp add: allMappings_def mappings_empty_def names_at_def)
qed

definition tracked_ok :: "(NamespacedName, string goset) gomap \<Rightarrow> bool" where
  "tracked_ok m \<longleftrightarrow> map_wf m \<and> (\<forall>k ns. map_of m k = Some ns \<longrightarrow> ns \<noteq> [] \<and> distinct ns)"

lemma tracked_ok_trackWSA: "tracked_ok m \<Longrightarrow> tracked_ok (trackWSA n w m)"
  by (auto simp: tracked_ok_def trackWSA_def map_of_put List.insert_def split: option.splits if_splits)

lemma tracked_ok_all: "tracked_ok (wsaToServiceAccountNamesSet (allMappings \<omega> sm))"
proof -
  have track: "tracked_ok m \<Longrightarrow> tracked_ok (fold (trackWSA n) ws m)" for n ws m
    by (induction ws arbitrary: m) (auto intro: tracked_ok_trackWSA)
  have "tracked_ok (wsaToServiceAccountNamesSet ms) \<Longrightarrow>
      tracked_ok (wsaToServiceAccountNamesSet (fold (mapGroup \<omega> sm) gs ms))" for gs ms
    by (induction gs arbitrary: ms) (simp_all add: mapGroup_def Let_def track)
  moreover have "tracked_ok (wsaToServiceAccountNamesSet mappings_empty)"
    by (simp add: mappings_empty_def tracked_ok_def)
  ultimately show ?thesis
    by (simp only: allMappings_def)
qed

text \<open>The maps as the function returns them.\<close>

abbreviation scopeToSA_of where "scopeToSA_of \<omega> sm \<equiv> fst (GenerateServiceAccountMappings \<omega> sm)"
abbreviation saToWSAs_of where "saToWSAs_of \<omega> sm \<equiv> fst (snd (GenerateServiceAccountMappings \<omega> sm))"
abbreviation wsaToSANames_of where
  "wsaToSANames_of \<omega> sm \<equiv> fst (snd (snd (GenerateServiceAccountMappings \<omega> sm)))"
abbreviation accounts_of where "accounts_of \<omega> sm \<equiv> snd (snd (snd (GenerateServiceAccountMappings \<omega> sm)))"

lemma scopeToSA_of_eq:
  "order_ok \<omega> \<Longrightarrow> map_of (scopeToSA_of \<omega> sm) s =
    (if s \<in> dom (map_of sm) then Some (groupName \<omega> (group_of \<omega> sm s)) else None)"
  by (simp add: GenerateServiceAccountMappings_def Let_def scopeToServiceAccount_all)

lemma map_wf_scopeToSA: "map_wf (scopeToSA_of \<omega> sm)"
  by (simp add: GenerateServiceAccountMappings_def Let_def allMappings_def scopeToServiceAccount_fold mappings_empty_def
      map_wf_fold_put)

lemma wsaToSANames_of_eq:
  assumes "order_ok \<omega>"
  shows "map_of (wsaToSANames_of \<omega> sm) k =
    map_option (o_string \<omega>) (map_of (wsaToServiceAccountNamesSet (allMappings \<omega> sm)) k)"
proof -
  let ?m = "wsaToServiceAccountNamesSet (allMappings \<omega> sm)"
  let ?xs = "go_range (o_key \<omega>) ?m"
  have all: "wsaToSANames_of \<omega> sm = fold (\<lambda>x. map_put (fst x) (o_string \<omega> (snd x))) ?xs []"
    by (simp add: GenerateServiceAccountMappings_def Let_def case_prod_unfold)
  have xs: "set ?xs = {(k, ns). map_of ?m k = Some ns}"
    by (rule set_go_range[OF order_okD(4)[OF assms]])
  have inj: "inj_on fst (set ?xs)" unfolding xs by (auto simp: inj_on_def)
  show ?thesis
  proof (cases "map_of ?m k")
    case None
    then have "k \<notin> fst ` set ?xs" unfolding xs by auto
    with None show ?thesis by (simp add: all fold_put_other)
  next
    case (Some ns)
    then have "(k, ns) \<in> set ?xs" unfolding xs by simp
    from fold_put_inj[OF inj this, of "\<lambda>x. o_string \<omega> (snd x)" "[]"] Some show ?thesis
      by (simp add: all)
  qed
qed

text \<open>The service accounts that \<^verbatim>\<open>EnsureRoleBindings\<close> binds to a resource.\<close>

definition accounts_bound :: "(NamespacedName, string list) gomap \<Rightarrow> NamespacedName \<Rightarrow> string set" where
  "accounts_bound m k = (case map_of m k of None \<Rightarrow> {} | Some ns \<Rightarrow> set ns)"

lemma accounts_bound_eq:
  assumes "order_ok \<omega>"
  shows "accounts_bound (wsaToSANames_of \<omega> sm) k =
    {groupName \<omega> g | g. g \<in> set (groupList \<omega> sm) \<and> k \<in> dom (map_of (groupWSAs sm g))}"
proof -
  have "accounts_bound (wsaToSANames_of \<omega> sm) k =
      set (names_at (wsaToServiceAccountNamesSet (allMappings \<omega> sm)) k)"
    by (auto simp: accounts_bound_def names_at_def wsaToSANames_of_eq[OF assms]
        permuting_set[OF order_okD(1)[OF assms]] split: option.splits)
  then show ?thesis by (simp add: names_all[OF assms])
qed

lemma names_accounts_of:
  assumes "order_ok \<omega>"
  shows "(om_Name \<circ> sa_Meta) ` set (accounts_of \<omega> sm) = groupName \<omega> ` set (groupList \<omega> sm)"
    and "distinct (map (om_Name \<circ> sa_Meta) (accounts_of \<omega> sm))"
proof -
  let ?u = "uniqueServiceAccounts (allMappings \<omega> sm)"
  let ?xs = "go_range (o_string \<omega>) ?u"
  have acc: "accounts_of \<omega> sm = map snd ?xs"
    by (simp add: GenerateServiceAccountMappings_def Let_def)
  have wf: "map_wf ?u" by (simp add: uniqueServiceAccounts_all map_wf_fold_put)
  have "om_Name (sa_Meta a) = n" if "(n, a) \<in> set ?xs" for n a
    using that fold_put_origin
    by (fastforce simp: set_go_range[OF order_okD(1)[OF assms]] uniqueServiceAccounts_all
        generateServiceAccountFromGrouped_def)
  then have names: "map (om_Name \<circ> sa_Meta) (accounts_of \<omega> sm) = map fst ?xs"
    unfolding acc map_map by (intro map_cong) auto
  show "distinct (map (om_Name \<circ> sa_Meta) (accounts_of \<omega> sm))"
    unfolding names by (rule distinct_go_range[OF order_okD(1)[OF assms] wf])
  have "(om_Name \<circ> sa_Meta) ` set (accounts_of \<omega> sm) = set (map fst ?xs)"
    by (simp only: names flip: set_map)
  also have "\<dots> = dom (map_of ?u)"
    by (simp only: map_fst_go_range permuting_set[OF order_okD(1)[OF assms]] set_map_fst_dom)
  also have "\<dots> = groupName \<omega> ` set (groupList \<omega> sm)"
    by (simp add: uniqueServiceAccounts_all dom_fold_put)
  finally show "(om_Name \<circ> sa_Meta) ` set (accounts_of \<omega> sm) = groupName \<omega> ` set (groupList \<omega> sm)" .
qed

end
