(* ===== verification/Kube.thy ===== *)
theory Kube
  imports Mappings
begin

text \<open>
  The Kubernetes API as the controller sees it. The client (\<^verbatim>\<open>sigs.k8s.io/controller-runtime/pkg/client\<close>)
  and the API server behind it are not code of the repository: they are the record \<open>client\<close>, a
  parameter of every definition that calls them, over an unspecified world \<open>'c\<close>. The locales
  \<open>api_client\<close> and \<open>api_client_current\<close> state the documented behaviour that the theorems rely on,
  against the abstract contents \<open>view\<close> of the cluster: what a successful, a refused and a failed
  request does to the stored objects, and that a read returns what is stored. The second half is
  an in-memory API server with injected faults on which both locales are interpreted; the worked
  examples run on it.
\<close>

section \<open>Objects\<close>

datatype kind =
    KWorkloadServiceAccount | KClusterWorkloadServiceAccount | KServiceAccount | KRole
  | KClusterRole | KRoleBinding | KClusterRoleBinding | KDeployment | KNamespace

datatype object =
    OWorkloadServiceAccount WorkloadServiceAccount
  | OClusterWorkloadServiceAccount ClusterWorkloadServiceAccount
  | OServiceAccount ServiceAccount
  | ORole Role
  | OClusterRole ClusterRole
  | ORoleBinding RoleBinding
  | OClusterRoleBinding ClusterRoleBinding
  | ODeployment ObjectMeta
  | ONamespace ObjectMeta

fun obj_kind :: "object \<Rightarrow> kind" where
  "obj_kind (OWorkloadServiceAccount _) = KWorkloadServiceAccount"
| "obj_kind (OClusterWorkloadServiceAccount _) = KClusterWorkloadServiceAccount"
| "obj_kind (OServiceAccount _) = KServiceAccount"
| "obj_kind (ORole _) = KRole"
| "obj_kind (OClusterRole _) = KClusterRole"
| "obj_kind (ORoleBinding _) = KRoleBinding"
| "obj_kind (OClusterRoleBinding _) = KClusterRoleBinding"
| "obj_kind (ODeployment _) = KDeployment"
| "obj_kind (ONamespace _) = KNamespace"

fun obj_meta :: "object \<Rightarrow> ObjectMeta" where
  "obj_meta (OWorkloadServiceAccount x) = wsaMeta x"
| "obj_meta (OClusterWorkloadServiceAccount x) = cwsaMeta x"
| "obj_meta (OServiceAccount x) = sa_Meta x"
| "obj_meta (ORole x) = ro_Meta x"
| "obj_meta (OClusterRole x) = ro_Meta x"
| "obj_meta (ORoleBinding x) = rb_Meta x"
| "obj_meta (OClusterRoleBinding x) = rb_Meta x"
| "obj_meta (ODeployment x) = x"
| "obj_meta (ONamespace x) = x"

fun map_meta :: "(ObjectMeta \<Rightarrow> ObjectMeta) \<Rightarrow> object \<Rightarrow> object" where
  "map_meta f (OWorkloadServiceAccount x) = OWorkloadServiceAccount (x\<lparr>wsaMeta := f (wsaMeta x)\<rparr>)"
| "map_meta f (OClusterWorkloadServiceAccount x) =
     OClusterWorkloadServiceAccount (x\<lparr>cwsaMeta := f (cwsaMeta x)\<rparr>)"
| "map_meta f (OServiceAccount x) = OServiceAccount (x\<lparr>sa_Meta := f (sa_Meta x)\<rparr>)"
| "map_meta f (ORole x) = ORole (x\<lparr>ro_Meta := f (ro_Meta x)\<rparr>)"
| "map_meta f (OClusterRole x) = OClusterRole (x\<lparr>ro_Meta := f (ro_Meta x)\<rparr>)"
| "map_meta f (ORoleBinding x) = ORoleBinding (x\<lparr>rb_Meta := f (rb_Meta x)\<rparr>)"
| "map_meta f (OClusterRoleBinding x) = OClusterRoleBinding (x\<lparr>rb_Meta := f (rb_Meta x)\<rparr>)"
| "map_meta f (ODeployment x) = ODeployment (f x)"
| "map_meta f (ONamespace x) = ONamespace (f x)"

lemma obj_kind_map_meta [simp]: "obj_kind (map_meta f x) = obj_kind x"
  by (cases x) simp_all

lemma obj_meta_map_meta [simp]: "obj_meta (map_meta f x) = f (obj_meta x)"
  by (cases x) simp_all

type_synonym object_id = "kind \<times> NamespacedName"

abbreviation obj_id :: "object \<Rightarrow> object_id" where
  "obj_id x \<equiv> (obj_kind x, om_key (obj_meta x))"

abbreviation labels_of :: "object \<Rightarrow> (string, string) gomap" where
  "labels_of x \<equiv> om_Labels (obj_meta x)"

text \<open>
  Objects of a namespaced kind have a namespace, those of the other kinds have none; names and
  namespaces contain neither slashes nor commas.
\<close>

fun namespaced :: "kind \<Rightarrow> bool" where
  "namespaced KClusterWorkloadServiceAccount \<longleftrightarrow> False"
| "namespaced KClusterRole \<longleftrightarrow> False"
| "namespaced KClusterRoleBinding \<longleftrightarrow> False"
| "namespaced KNamespace \<longleftrightarrow> False"
| "namespaced _ \<longleftrightarrow> True"

definition valid_id :: "object_id \<Rightarrow> bool" where
  "valid_id i \<longleftrightarrow> (nn_Namespace (snd i) \<noteq> [] \<longleftrightarrow> namespaced (fst i)) \<and> valid_key (snd i)"

text \<open>The contents of the cluster.\<close>

type_synonym cluster = "object_id \<Rightarrow> object option"

text \<open>A label selector of \<^verbatim>\<open>client.MatchingLabels\<close>.\<close>

definition matches :: "(string, string) gomap \<Rightarrow> object \<Rightarrow> bool" where
  "matches sel x \<longleftrightarrow> (\<forall>(k, v) \<in> set sel. map_of (labels_of x) k = Some v)"

text \<open>An object carries the label of the controller.\<close>

definition managed :: "object \<Rightarrow> bool" where
  "managed x \<longleftrightarrow> IsOctopusManaged (labels_of x)"

lemma managed_iff: "managed x \<longleftrightarrow> map_of (labels_of x) ManagedByLabel = Some ManagedByValue"
  by (auto simp: managed_def IsOctopusManaged_def split: option.splits)

lemma matches_managed: "matches [(ManagedByLabel, ManagedByValue)] x \<longleftrightarrow> managed x"
  by (simp add: matches_def managed_iff)

section \<open>Typed items of a listing\<close>

fun as_WSA :: "object \<Rightarrow> WorkloadServiceAccount option" where
  "as_WSA (OWorkloadServiceAccount x) = Some x" | "as_WSA _ = None"

fun as_CWSA :: "object \<Rightarrow> ClusterWorkloadServiceAccount option" where
  "as_CWSA (OClusterWorkloadServiceAccount x) = Some x" | "as_CWSA _ = None"

fun as_ServiceAccount :: "object \<Rightarrow> ServiceAccount option" where
  "as_ServiceAccount (OServiceAccount x) = Some x" | "as_ServiceAccount _ = None"

fun as_Role :: "object \<Rightarrow> Role option" where
  "as_Role (ORole x) = Some x" | "as_Role _ = None"

fun as_ClusterRole :: "object \<Rightarrow> ClusterRole option" where
  "as_ClusterRole (OClusterRole x) = Some x" | "as_ClusterRole _ = None"

fun as_RoleBinding :: "object \<Rightarrow> RoleBinding option" where
  "as_RoleBinding (ORoleBinding x) = Some x" | "as_RoleBinding _ = None"

fun as_ClusterRoleBinding :: "object \<Rightarrow> ClusterRoleBinding option" where
  "as_ClusterRoleBinding (OClusterRoleBinding x) = Some x" | "as_ClusterRoleBinding _ = None"

fun as_Deployment :: "object \<Rightarrow> ObjectMeta option" where
  "as_Deployment (ODeployment x) = Some x" | "as_Deployment _ = None"

lemma as_Some_iff [simp]:
  "as_WSA x = Some w \<longleftrightarrow> x = OWorkloadServiceAccount w"
  "as_CWSA x = Some c \<longleftrightarrow> x = OClusterWorkloadServiceAccount c"
  "as_ServiceAccount x = Some sa \<longleftrightarrow> x = OServiceAccount sa"
  "as_Role x = Some ro \<longleftrightarrow> x = ORole ro"
  "as_ClusterRole x = Some ro \<longleftrightarrow> x = OClusterRole ro"
  "as_RoleBinding x = Some rb \<longleftrightarrow> x = ORoleBinding rb"
  "as_ClusterRoleBinding x = Some rb \<longleftrightarrow> x = OClusterRoleBinding rb"
  "as_Deployment x = Some d \<longleftrightarrow> x = ODeployment d"
  by (cases x; auto)+

lemma set_map_filter: "set (List.map_filter f xs) = {y. \<exists>x \<in> set xs. f x = Some y}"
  by (induction xs) (auto split: option.splits)

section \<open>The client\<close>

text \<open>
  One field per method of \<^verbatim>\<open>client.Client\<close> that the program calls. \<^verbatim>\<open>Apply\<close> takes the apply
  configuration as an object that has exactly the configured fields set. The merge patch
  \<^verbatim>\<open>Patch(ctx, obj, MergeFrom(original))\<close> takes the original and the modified object, the status
  patch the object with its new conditions; both return the stored object, which Go writes back
  into its argument.
\<close>

record 'c client =
  client_Get :: "kind \<Rightarrow> NamespacedName \<Rightarrow> 'c \<Rightarrow> (api_error + object) \<times> 'c"
  client_List :: "kind \<Rightarrow> (string, string) gomap \<Rightarrow> 'c \<Rightarrow> (api_error + object list) \<times> 'c"
  client_Apply :: "object \<Rightarrow> 'c \<Rightarrow> api_error option \<times> 'c"
  client_Delete :: "object \<Rightarrow> 'c \<Rightarrow> api_error option \<times> 'c"
  client_Patch :: "object \<Rightarrow> object \<Rightarrow> 'c \<Rightarrow> (api_error + object) \<times> 'c"
  client_StatusPatch :: "object \<Rightarrow> 'c \<Rightarrow> (api_error + object) \<times> 'c"

text \<open>
  What server-side apply with \<^verbatim>\<open>ForceOwnership\<close> makes of an apply configuration \<open>ac\<close>: the stored
  object \<open>x\<close> has its name, all its labels and annotations, and its rules, role reference and
  subjects (atomic lists, so replaced as a whole).
\<close>

fun same_payload :: "object \<Rightarrow> object \<Rightarrow> bool" where
  "same_payload (ORole a) (ORole b) \<longleftrightarrow> ro_Rules a = ro_Rules b"
| "same_payload (OClusterRole a) (OClusterRole b) \<longleftrightarrow> ro_Rules a = ro_Rules b"
| "same_payload (ORoleBinding a) (ORoleBinding b) \<longleftrightarrow>
     rb_RoleRef a = rb_RoleRef b \<and> rb_Subjects a = rb_Subjects b"
| "same_payload (OClusterRoleBinding a) (OClusterRoleBinding b) \<longleftrightarrow>
     rb_RoleRef a = rb_RoleRef b \<and> rb_Subjects a = rb_Subjects b"
| "same_payload (OServiceAccount a) (OServiceAccount b) \<longleftrightarrow> True"
| "same_payload _ _ \<longleftrightarrow> False"

definition conforms :: "object \<Rightarrow> object \<Rightarrow> bool" where
  "conforms ac x \<longleftrightarrow> obj_id x = obj_id ac \<and> same_payload ac x \<and>
     map_of (labels_of ac) \<subseteq>\<^sub>m map_of (labels_of x) \<and>
     map_of (om_Annotations (obj_meta ac)) \<subseteq>\<^sub>m map_of (om_Annotations (obj_meta x))"

text \<open>
  An object deleted while it still has finalizers stays, with a deletion timestamp, until they
  are removed; any other object goes at once.
\<close>

definition terminating :: "object \<Rightarrow> bool" where
  "terminating x \<longleftrightarrow> om_DeletionTimestamp (obj_meta x) \<noteq> None"

definition deleted :: "object_id \<Rightarrow> cluster \<Rightarrow> cluster \<Rightarrow> bool" where
  "deleted i m m' \<longleftrightarrow> m' = m(i := None) \<or>
     (\<exists>x x'. m i = Some x \<and> om_Finalizers (obj_meta x) \<noteq> [] \<and>
        obj_id x' = i \<and> labels_of x' = labels_of x \<and> terminating x' \<and> m' = m(i \<mapsto> x'))"

definition applied :: "object \<Rightarrow> cluster \<Rightarrow> cluster \<Rightarrow> bool" where
  "applied ac m m' \<longleftrightarrow> (\<exists>x. conforms ac x \<and> m' = m(obj_id ac \<mapsto> x))"

section \<open>The contract of the API\<close>

text \<open>
  Reads do not change the cluster. A write that reports success has happened; one that reports
  a failure may have happened all the same (a response can be lost), and changes at most the
  object it names. Requests for an absent object are refused with \<^verbatim>\<open>NotFound\<close>.
\<close>

locale api_client =
  fixes cl :: "'c client" and view :: "'c \<Rightarrow> cluster"
  assumes view_id: "view c i = Some x \<Longrightarrow> obj_id x = i"
    and view_valid: "view c i = Some x \<Longrightarrow> valid_id i"
    and Get_frame: "client_Get cl k n c = (res, c') \<Longrightarrow> view c' = view c"
    and List_frame: "client_List cl k sel c = (items, c') \<Longrightarrow> view c' = view c"
    and Apply_ok: "client_Apply cl ac c = (None, c') \<Longrightarrow> applied ac (view c) (view c')"
    and Apply_fails: "client_Apply cl ac c = (Some e, c') \<Longrightarrow>
          view c' = view c \<or> applied ac (view c) (view c')"
    and Delete_ok: "client_Delete cl x c = (None, c') \<Longrightarrow> deleted (obj_id x) (view c) (view c')"
    and Delete_absent: "client_Delete cl x c = (Some NotFound, c') \<Longrightarrow>
          view c' = view c \<and> view c (obj_id x) = None"
    and Delete_fails: "client_Delete cl x c = (Some e, c') \<Longrightarrow>
          view c' = view c \<or> deleted (obj_id x) (view c) (view c')"
begin

lemma Apply_frame:
  assumes "client_Apply cl ac c = (r, c')" and "i \<noteq> obj_id ac"
  shows "view c' i = view c i"
proof -
  have "view c' = view c \<or> applied ac (view c) (view c')"
    using assms(1) Apply_ok Apply_fails by (cases r) blast+
  then show ?thesis
    using assms(2) by (auto simp: applied_def)
qed

lemma Delete_frame:
  assumes "client_Delete cl x c = (r, c')" and "i \<noteq> obj_id x"
  shows "view c' i = view c i"
proof -
  have "view c' = view c \<or> deleted (obj_id x) (view c) (view c')"
    using assms(1) Delete_ok Delete_fails by (cases r) blast+
  then show ?thesis
    using assms(2) by (auto simp: deleted_def)
qed

text \<open>After a deletion that does not fail, the object is gone or on its way out.\<close>

lemma Delete_gone:
  assumes "client_Delete cl x c = (r, c')" and "r = None \<or> r = Some NotFound"
    and "view c' (obj_id x) = Some y"
  shows "terminating y"
  using assms Delete_ok[of x c c'] Delete_absent[of x c c']
  by (auto simp: deleted_def)

lemma Apply_conforms:
  assumes "client_Apply cl ac c = (None, c')"
  obtains x where "view c' (obj_id ac) = Some x" and "conforms ac x"
  using Apply_ok[OF assms] by (auto simp: applied_def)

end

text \<open>
  Reads that see the cluster as it is (a client that does not lag behind the server). A listing
  returns every object of the kind that matches the selector once.
\<close>

locale api_client_current = api_client +
  assumes List_items: "client_List cl k sel c = (Inr xs, c') \<Longrightarrow>
        set xs = {x. \<exists>n. view c (k, n) = Some x \<and> matches sel x} \<and> distinct (map obj_id xs)"
    and Get_found: "client_Get cl k n c = (Inr x, c') \<Longrightarrow> view c (k, n) = Some x"
    and Get_absent: "client_Get cl k n c = (Inl NotFound, c') \<Longrightarrow> view c (k, n) = None"
begin

lemma List_kind: "client_List cl k sel c = (Inr xs, c') \<Longrightarrow> x \<in> set xs \<Longrightarrow> obj_kind x = k"
  using List_items view_id by fastforce

lemma List_stored:
  assumes "client_List cl k sel c = (Inr xs, c')" and "x \<in> set xs"
  shows "view c (obj_id x) = Some x" and "matches sel x"
proof -
  from assms List_items obtain n where n: "view c (k, n) = Some x" and "matches sel x" by blast
  with view_id[OF n] show "view c (obj_id x) = Some x" and "matches sel x" by simp_all
qed

lemma List_complete:
  assumes "client_List cl k sel c = (Inr xs, c')" and "view c (k, n) = Some x" and "matches sel x"
  shows "x \<in> set xs"
  using assms List_items by blast

end

section \<open>An in-memory API server\<close>

text \<open>
  A server that stores objects in a list, hands out UIDs, keeps the role reference of a binding
  immutable, and takes the outcome of every request from a script: it may proceed, be refused,
  or be carried out with the response lost. It also keeps
  the records of a deletion tracker and of a cache.
\<close>

datatype fault = Proceed | Refuse string | Lose string

record server =
  srv_objects :: "object list"
  srv_faults :: "fault list"
  srv_created :: nat
  srv_marked :: "string list"
  srv_cache :: "(string, string list) gomap"

definition server_view :: "server \<Rightarrow> cluster" where
  "server_view s i = (if valid_id i then find (\<lambda>x. obj_id x = i) (srv_objects s) else None)"

definition next_fault :: "server \<Rightarrow> fault \<times> server" where
  "next_fault s = (case srv_faults s of [] \<Rightarrow> (Proceed, s) | f # fs \<Rightarrow> (f, s\<lparr>srv_faults := fs\<rparr>))"

text \<open>A read fails under any fault; a write is carried out unless it is refused.\<close>

definition server_read :: "(server \<Rightarrow> api_error + 'a) \<Rightarrow> server \<Rightarrow> (api_error + 'a) \<times> server" where
  "server_read f s =
     (case next_fault s of
        (Proceed, s') \<Rightarrow> (f s', s')
      | (Refuse msg, s') \<Rightarrow> (Inl (ApiFailure msg), s')
      | (Lose msg, s') \<Rightarrow> (Inl (ApiFailure msg), s'))"

definition server_write ::
  "(server \<Rightarrow> (api_error + 'a) \<times> server) \<Rightarrow> server \<Rightarrow> (api_error + 'a) \<times> server" where
  "server_write f s =
     (case next_fault s of
        (Proceed, s') \<Rightarrow> f s'
      | (Refuse msg, s') \<Rightarrow> (Inl (ApiFailure msg), s')
      | (Lose msg, s') \<Rightarrow> (Inl (ApiFailure msg), snd (f s')))"

fun err_of :: "api_error + 'a \<Rightarrow> api_error option" where
  "err_of (Inl e) = Some e"
| "err_of (Inr _) = None"

definition server_Get :: "kind \<Rightarrow> NamespacedName \<Rightarrow> server \<Rightarrow> (api_error + object) \<times> server" where
  "server_Get k n = server_read (\<lambda>s.
     case server_view s (k, n) of None \<Rightarrow> Inl NotFound | Some x \<Rightarrow> Inr x)"

definition server_List ::
  "kind \<Rightarrow> (string, string) gomap \<Rightarrow> server \<Rightarrow> (api_error + object list) \<times> server" where
  "server_List k sel = server_read (\<lambda>s. Inr (remdups (filter
     (\<lambda>x. obj_kind x = k \<and> matches sel x \<and> server_view s (obj_id x) = Some x) (srv_objects s))))"

definition without :: "object_id \<Rightarrow> server \<Rightarrow> server" where
  "without i s = s\<lparr>srv_objects := filter (\<lambda>x. obj_id x \<noteq> i) (srv_objects s)\<rparr>"

definition store_object :: "object \<Rightarrow> server \<Rightarrow> server" where
  "store_object x s = (without (obj_id x) s)\<lparr>srv_objects := srv_objects (without (obj_id x) s) @ [x]\<rparr>"

text \<open>Server-side apply on a stored object: metadata is merged, atomic fields are replaced.\<close>

definition merge_entries :: "(string, string) gomap \<Rightarrow> (string, string) gomap \<Rightarrow> (string, string) gomap" where
  "merge_entries new old = new @ filter (\<lambda>(k, _). k \<notin> fst ` set new) old"

definition merge_meta :: "ObjectMeta \<Rightarrow> ObjectMeta \<Rightarrow> ObjectMeta" where
  "merge_meta ac m = m\<lparr>
     om_Labels := merge_entries (om_Labels ac) (om_Labels m),
     om_Annotations := merge_entries (om_Annotations ac) (om_Annotations m),
     om_OwnerReferences := om_OwnerReferences m @
       filter (\<lambda>r. or_UID r \<notin> or_UID ` set (om_OwnerReferences m)) (om_OwnerReferences ac)\<rparr>"

fun merge :: "object \<Rightarrow> object \<Rightarrow> object option" where
  "merge (OServiceAccount a) (OServiceAccount b) =
     Some (OServiceAccount (b\<lparr>sa_Meta := merge_meta (sa_Meta a) (sa_Meta b)\<rparr>))"
| "merge (ORole a) (ORole b) =
     Some (ORole \<lparr>ro_Meta = merge_meta (ro_Meta a) (ro_Meta b), ro_Rules = ro_Rules a\<rparr>)"
| "merge (OClusterRole a) (OClusterRole b) =
     Some (OClusterRole \<lparr>ro_Meta = merge_meta (ro_Meta a) (ro_Meta b), ro_Rules = ro_Rules a\<rparr>)"
| "merge (ORoleBinding a) (ORoleBinding b) =
     (if rb_RoleRef a = rb_RoleRef b
      then Some (ORoleBinding (a\<lparr>rb_Meta := merge_meta (rb_Meta a) (rb_Meta b)\<rparr>)) else None)"
| "merge (OClusterRoleBinding a) (OClusterRoleBinding b) =
     (if rb_RoleRef a = rb_RoleRef b
      then Some (OClusterRoleBinding (a\<lparr>rb_Meta := merge_meta (rb_Meta a) (rb_Meta b)\<rparr>)) else None)"
| "merge _ _ = None"

text \<open>A new object starts from bare metadata with the identity of the configuration and a UID.\<close>

definition fresh_meta :: "server \<Rightarrow> ObjectMeta \<Rightarrow> ObjectMeta" where
  "fresh_meta s m = merge_meta m (ObjectMeta_zero\<lparr>om_Name := om_Name m, om_Namespace := om_Namespace m,
     om_UID := replicate (Suc (srv_created s)) (CHR ''u''), om_Generation := 1\<rparr>)"

definition appliable :: "object \<Rightarrow> bool" where
  "appliable x \<longleftrightarrow> obj_kind x \<in> {KServiceAccount, KRole, KClusterRole, KRoleBinding, KClusterRoleBinding}"

definition do_Apply :: "object \<Rightarrow> server \<Rightarrow> (api_error + object) \<times> server" where
  "do_Apply ac s =
     (if \<not> (appliable ac \<and> valid_id (obj_id ac)) then (Inl (ApiFailure ''invalid object''), s) else
      case server_view s (obj_id ac) of
        None \<Rightarrow> (let x = map_meta (fresh_meta s) ac
                  in (Inr x, (store_object x s)\<lparr>srv_created := Suc (srv_created s)\<rparr>))
      | Some old \<Rightarrow>
          (case merge ac old of
             None \<Rightarrow> (Inl (ApiFailure ''field is immutable''), s)
           | Some x \<Rightarrow> (Inr x, store_object x s)))"

definition server_Apply :: "object \<Rightarrow> server \<Rightarrow> api_error option \<times> server" where
  "server_Apply ac s = (let (r, s') = server_write (do_Apply ac) s in (err_of r, s'))"

definition do_Delete :: "object \<Rightarrow> server \<Rightarrow> (api_error + object) \<times> server" where
  "do_Delete x s =
     (case server_view s (obj_id x) of
        None \<Rightarrow> (Inl NotFound, s)
      | Some old \<Rightarrow>
          if om_Finalizers (obj_meta old) = [] then (Inr old, without (obj_id x) s)
          else (let new = map_meta (\<lambda>m. m\<lparr>om_DeletionTimestamp := Some 0\<rparr>) old
                in (Inr new, store_object new s)))"

definition server_Delete :: "object \<Rightarrow> server \<Rightarrow> api_error option \<times> server" where
  "server_Delete x s = (let (r, s') = server_write (do_Delete x) s in (err_of r, s'))"

text \<open>
  The two patches: the finalizers of the metadata (removing the last one of an object that is
  being deleted removes the object) and the conditions of the status.
\<close>

definition do_Patch :: "object \<Rightarrow> server \<Rightarrow> (api_error + object) \<times> server" where
  "do_Patch new s =
     (case server_view s (obj_id new) of
        None \<Rightarrow> (Inl NotFound, s)
      | Some old \<Rightarrow>
          (let x = map_meta (\<lambda>m. m\<lparr>om_Finalizers := om_Finalizers (obj_meta new)\<rparr>) old
           in (Inr x, if terminating x \<and> om_Finalizers (obj_meta x) = [] then without (obj_id x) s
                      else store_object x s)))"

fun with_conditions :: "object \<Rightarrow> object \<Rightarrow> object" where
  "with_conditions (OWorkloadServiceAccount new) (OWorkloadServiceAccount old) =
     OWorkloadServiceAccount (old\<lparr>wsaConditions := wsaConditions new\<rparr>)"
| "with_conditions (OClusterWorkloadServiceAccount new) (OClusterWorkloadServiceAccount old) =
     OClusterWorkloadServiceAccount (old\<lparr>cwsaConditions := cwsaConditions new\<rparr>)"
| "with_conditions _ old = old"

definition do_StatusPatch :: "object \<Rightarrow> server \<Rightarrow> (api_error + object) \<times> server" where
  "do_StatusPatch new s =
     (case server_view s (obj_id new) of
        None \<Rightarrow> (Inl NotFound, s)
      | Some old \<Rightarrow> (let x = with_conditions new old in (Inr x, store_object x s)))"

definition server_client :: "server client" where
  "server_client =
     \<lparr>client_Get = server_Get, client_List = server_List, client_Apply = server_Apply,
      client_Delete = server_Delete, client_Patch = (\<lambda>_ new. server_write (do_Patch new)),
      client_StatusPatch = (\<lambda>new. server_write (do_StatusPatch new))\<rparr>"

section \<open>The server fulfils the contract\<close>

lemma view_store_object:
  assumes "valid_id (obj_id x)"
  shows "server_view (store_object x s) = (server_view s)(obj_id x \<mapsto> x)"
proof
  fix i
  have f: "find (\<lambda>y. obj_id y = i) (filter (\<lambda>y. obj_id y \<noteq> obj_id x) ys @ [x]) =
      (if i = obj_id x then Some x else find (\<lambda>y. obj_id y = i) ys)" for ys
    by (induction ys) auto
  have o: "srv_objects (store_object x s) = filter (\<lambda>y. obj_id y \<noteq> obj_id x) (srv_objects s) @ [x]"
    by (simp add: store_object_def without_def)
  show "server_view (store_object x s) i = ((server_view s)(obj_id x \<mapsto> x)) i"
    unfolding server_view_def o f using assms by auto
qed

lemma view_without: "server_view (without i s) = (server_view s)(i := None)"
proof
  fix j
  have f: "find (\<lambda>y. obj_id y = j) (filter (\<lambda>y. obj_id y \<noteq> i) ys) =
      (if j = i then None else find (\<lambda>y. obj_id y = j) ys)" for ys
    by (induction ys) auto
  have o: "srv_objects (without i s) = filter (\<lambda>y. obj_id y \<noteq> i) (srv_objects s)"
    by (simp add: without_def)
  show "server_view (without i s) j = ((server_view s)(i := None)) j"
    unfolding server_view_def o f by auto
qed

lemma view_created [simp]: "server_view (s\<lparr>srv_created := n\<rparr>) = server_view s"
  by (simp add: server_view_def fun_eq_iff)

lemma view_faults [simp]: "server_view (s\<lparr>srv_faults := fs\<rparr>) = server_view s"
  by (simp add: server_view_def fun_eq_iff)

lemma view_marked [simp]: "server_view (s\<lparr>srv_marked := us\<rparr>) = server_view s"
  by (simp add: server_view_def fun_eq_iff)

lemma view_cache [simp]: "server_view (s\<lparr>srv_cache := xs\<rparr>) = server_view s"
  by (simp add: server_view_def fun_eq_iff)

lemma next_fault_view: "next_fault s = (f, s') \<Longrightarrow> server_view s' = server_view s"
  by (auto simp: next_fault_def split: list.splits)

lemma server_view_id: "server_view s i = Some x \<Longrightarrow> obj_id x = i"
  by (auto simp: server_view_def find_Some_iff split: if_splits)

lemma server_view_valid: "server_view s i = Some x \<Longrightarrow> valid_id i"
  by (simp add: server_view_def split: if_splits)

lemma server_view_mem: "server_view s i = Some x \<Longrightarrow> x \<in> set (srv_objects s)"
  by (auto simp: server_view_def find_Some_iff split: if_splits)

lemma server_read_frame: "server_read f s = (r, s') \<Longrightarrow> server_view s' = server_view s"
  by (auto simp: server_read_def next_fault_view split: prod.splits fault.splits)

text \<open>A write that the script lets through acts on a server with the same contents.\<close>

lemma server_write_cases:
  assumes "server_write f s = (r, s')"
  obtains s1 where "server_view s1 = server_view s" "f s1 = (r, s')"
  | msg where "r = Inl (ApiFailure msg)" "server_view s' = server_view s"
  | s1 msg where "server_view s1 = server_view s" "r = Inl (ApiFailure msg)" "s' = snd (f s1)"
proof (cases "next_fault s")
  case (Pair fl s1)
  with assms that next_fault_view[OF Pair] show ?thesis
    by (cases fl) (auto simp: server_write_def)
qed

lemma merge_entries_le [simp]: "map_of new \<subseteq>\<^sub>m map_of (merge_entries new old)"
  by (simp add: merge_entries_def map_le_def map_add_def dom_def split: option.splits)

lemma merge_meta_simps [simp]:
  "om_key (merge_meta ac m) = om_key m"
  "map_of (om_Labels ac) \<subseteq>\<^sub>m map_of (om_Labels (merge_meta ac m))"
  "map_of (om_Annotations ac) \<subseteq>\<^sub>m map_of (om_Annotations (merge_meta ac m))"
  by (simp_all add: merge_meta_def om_key_def)

lemma merge_conforms:
  assumes "merge ac old = Some x" and "obj_id old = obj_id ac"
  shows "conforms ac x"
  using assms by (cases "(ac, old)" rule: merge.cases) (auto simp: conforms_def split: if_splits)

lemma fresh_conforms:
  assumes "appliable ac"
  shows "conforms ac (map_meta (fresh_meta s) ac)"
proof -
  have "om_key (fresh_meta s m) = om_key m" for m
    by (simp add: fresh_meta_def) (simp add: om_key_def)
  moreover have "same_payload ac (map_meta f ac)" for f
    using assms by (cases ac) (auto simp: appliable_def)
  ultimately show ?thesis
    by (simp add: conforms_def) (simp add: fresh_meta_def)
qed

lemma applied_store_object:
  assumes "conforms ac x" and "valid_id (obj_id ac)"
  shows "applied ac (server_view s) (server_view (store_object x s))"
proof -
  have "obj_id x = obj_id ac" using assms by (simp add: conforms_def)
  then show ?thesis using assms by (metis applied_def view_store_object)
qed

lemma do_Apply_applied:
  assumes "do_Apply ac s = (r, s')"
  shows "case r of Inl e \<Rightarrow> s' = s | Inr x \<Rightarrow> applied ac (server_view s) (server_view s')"
proof (cases "appliable ac \<and> valid_id (obj_id ac)")
  case False
  with assms show ?thesis by (auto simp: do_Apply_def)
next
  case True
  then have ac: "appliable ac" and v: "valid_id (obj_id ac)" by simp_all
  show ?thesis
  proof (cases "server_view s (obj_id ac)")
    case None
    with assms ac v applied_store_object[OF fresh_conforms[OF ac, of s] v] show ?thesis
      by (auto simp: do_Apply_def Let_def)
  next
    case (Some old)
    show ?thesis
      using assms ac v merge_conforms[of ac old] server_view_id[OF Some]
      by (auto simp: do_Apply_def Some applied_store_object split: option.splits)
  qed
qed

lemma do_Delete_deleted:
  assumes "do_Delete x s = (r, s')"
  shows "case r of Inl e \<Rightarrow> s' = s \<and> e = NotFound \<and> server_view s (obj_id x) = None
    | Inr y \<Rightarrow> deleted (obj_id x) (server_view s) (server_view s')"
proof (cases "server_view s (obj_id x)")
  case None
  with assms show ?thesis by (auto simp: do_Delete_def)
next
  case (Some old)
  have id: "obj_id old = obj_id x" by (rule server_view_id[OF Some])
  show ?thesis
  proof (cases "om_Finalizers (obj_meta old) = []")
    case True
    with assms Some show ?thesis by (auto simp: do_Delete_def deleted_def view_without)
  next
    case False
    let ?new = "map_meta (\<lambda>m. m\<lparr>om_DeletionTimestamp := Some 0\<rparr>) old"
    have new: "obj_id ?new = obj_id x" using id by (simp add: om_key_def)
    have r: "r = Inr ?new" and "s' = store_object ?new s"
      using assms Some False by (auto simp: do_Delete_def Let_def)
    then have "server_view s' = (server_view s)(obj_id x \<mapsto> ?new)"
      using new view_store_object[of ?new s] server_view_valid[OF Some] by simp
    moreover have "terminating ?new" "labels_of ?new = labels_of old"
      by (simp_all add: terminating_def)
    ultimately have "deleted (obj_id x) (server_view s) (server_view s')"
      unfolding deleted_def using Some False new
      by (intro disjI2 exI[of _ old] exI[of _ ?new] conjI) simp_all
    then show ?thesis by (simp add: r)
  qed
qed

lemma server_Apply_cases:
  assumes "server_Apply ac s = (r, s')"
  shows "(r = None \<longrightarrow> applied ac (server_view s) (server_view s')) \<and>
    (server_view s' = server_view s \<or> applied ac (server_view s) (server_view s'))"
proof -
  obtain q where w: "server_write (do_Apply ac) s = (q, s')" and r: "r = err_of q"
    using assms by (auto simp: server_Apply_def split: prod.splits)
  from w show ?thesis
  proof (cases rule: server_write_cases)
    case (1 s1)
    with do_Apply_applied[OF 1(2)] r show ?thesis by (cases q) auto
  next
    case (2 msg)
    with r show ?thesis by simp
  next
    case (3 s1 msg)
    obtain q1 where "do_Apply ac s1 = (q1, s')" using 3(3) by (metis prod.collapse)
    from do_Apply_applied[OF this] 3 r show ?thesis by (cases q1) auto
  qed
qed

lemma server_Delete_cases:
  assumes "server_Delete x s = (r, s')"
  shows "(r = None \<longrightarrow> deleted (obj_id x) (server_view s) (server_view s')) \<and>
    (r = Some NotFound \<longrightarrow> server_view s' = server_view s \<and> server_view s (obj_id x) = None) \<and>
    (server_view s' = server_view s \<or> deleted (obj_id x) (server_view s) (server_view s'))"
proof -
  obtain q where w: "server_write (do_Delete x) s = (q, s')" and r: "r = err_of q"
    using assms by (auto simp: server_Delete_def split: prod.splits)
  from w show ?thesis
  proof (cases rule: server_write_cases)
    case (1 s1)
    with do_Delete_deleted[OF 1(2)] r show ?thesis by (cases q) auto
  next
    case (2 msg)
    with r show ?thesis by simp
  next
    case (3 s1 msg)
    obtain q1 where "do_Delete x s1 = (q1, s')" using 3(3) by (metis prod.collapse)
    from do_Delete_deleted[OF this] 3 r show ?thesis by (cases q1) auto
  qed
qed

lemma server_List_items:
  assumes "server_List k sel s = (Inr xs, s')"
  shows "set xs = {x. \<exists>n. server_view s (k, n) = Some x \<and> matches sel x}"
    and "distinct (map obj_id xs)"
proof -
  obtain s1 where s1: "server_view s1 = server_view s" and
    xs: "xs = remdups (filter (\<lambda>x. obj_kind x = k \<and> matches sel x \<and>
      server_view s1 (obj_id x) = Some x) (srv_objects s1))"
  proof (cases "next_fault s")
    case (Pair fl s1)
    with assms that[of s1] next_fault_view[OF Pair] show ?thesis
      by (cases fl) (auto simp: server_List_def server_read_def)
  qed
  show "set xs = {x. \<exists>n. server_view s (k, n) = Some x \<and> matches sel x}"
  proof (intro set_eqI iffI)
    fix x
    assume "x \<in> set xs"
    then show "x \<in> {x. \<exists>n. server_view s (k, n) = Some x \<and> matches sel x}"
      using s1 by (auto simp: xs)
  next
    fix x
    assume "x \<in> {x. \<exists>n. server_view s (k, n) = Some x \<and> matches sel x}"
    then obtain n where "server_view s1 (k, n) = Some x" "matches sel x"
      using s1 by auto
    with server_view_id[OF this(1)] server_view_mem[OF this(1)] show "x \<in> set xs"
      by (auto simp: xs)
  qed
  have stored: "server_view s1 (obj_id x) = Some x" if "x \<in> set xs" for x
    using that unfolding xs by auto
  have "inj_on obj_id (set xs)"
  proof (rule inj_onI)
    fix x y
    assume "x \<in> set xs" "y \<in> set xs" "obj_id x = obj_id y"
    with stored[of x] stored[of y] show "x = y" by (metis option.inject)
  qed
  then show "distinct (map obj_id xs)"
    by (simp add: distinct_map xs)
qed

interpretation srv: api_client_current server_client server_view
proof
  fix s s' :: server and i x k n ac e res
  show "server_view s i = Some x \<Longrightarrow> obj_id x = i"
    by (rule server_view_id)
  show "server_view s i = Some x \<Longrightarrow> valid_id i"
    by (rule server_view_valid)
  show "client_Get server_client k n s = (res, s') \<Longrightarrow> server_view s' = server_view s"
    by (simp add: server_client_def server_Get_def server_read_frame)
  show "client_Apply server_client ac s = (None, s') \<Longrightarrow> applied ac (server_view s) (server_view s')"
    using server_Apply_cases by (simp add: server_client_def)
  show "client_Apply server_client ac s = (Some e, s') \<Longrightarrow>
      server_view s' = server_view s \<or> applied ac (server_view s) (server_view s')"
    using server_Apply_cases by (simp add: server_client_def)
  show "client_Delete server_client x s = (None, s') \<Longrightarrow>
      deleted (obj_id x) (server_view s) (server_view s')"
    using server_Delete_cases by (simp add: server_client_def)
  show "client_Delete server_client x s = (Some NotFound, s') \<Longrightarrow>
      server_view s' = server_view s \<and> server_view s (obj_id x) = None"
    using server_Delete_cases by (simp add: server_client_def)
  show "client_Delete server_client x s = (Some e, s') \<Longrightarrow>
      server_view s' = server_view s \<or> deleted (obj_id x) (server_view s) (server_view s')"
    using server_Delete_cases by (simp add: server_client_def)
next
  fix s s' :: server and k n x sel xs items
  show "client_List server_client k sel s = (items, s') \<Longrightarrow> server_view s' = server_view s"
    by (simp add: server_client_def server_List_def server_read_frame)
  show "client_List server_client k sel s = (Inr xs, s') \<Longrightarrow>
      set xs = {x. \<exists>n. server_view s (k, n) = Some x \<and> matches sel x} \<and> distinct (map obj_id xs)"
    using server_List_items by (simp add: server_client_def)
  show "client_Get server_client k n s = (Inr x, s') \<Longrightarrow> server_view s (k, n) = Some x"
    by (auto simp: server_client_def server_Get_def server_read_def next_fault_view
        split: prod.splits fault.splits option.splits)
  show "client_Get server_client k n s = (Inl NotFound, s') \<Longrightarrow> server_view s (k, n) = None"
    by (auto simp: server_client_def server_Get_def server_read_def next_fault_view
        split: prod.splits fault.splits option.splits)
qed

end
