(* ===== verification/ResourceManagement.thy ===== *)
theory ResourceManagement
  imports Kube
begin

text \<open>
  \<^verbatim>\<open>internal/rules/resource_management.go\<close>: the names of the roles and bindings, the apply
  configurations, the creation of roles, service accounts and bindings by server-side apply, and
  the garbage collection of what is no longer expected. A method of \<^verbatim>\<open>ResourceManagementService\<close> is
  a function of the service and of the world, to its results and the world after it. The locale
  \<open>resource_management\<close> puts the service on top of the API contract; shown in it: what every
  operation leaves alone, what garbage collection may delete and what it leaves behind, and what
  the cluster contains after a successful creation pass.
\<close>

section \<open>Names\<close>

text \<open>\<^verbatim>\<open>fmt.Sprintf("%+v", permissions)\<close> for a slice of \<^verbatim>\<open>rbacv1.PolicyRule\<close>.\<close>

definition fmt_strings :: "string list \<Rightarrow> string" where
  "fmt_strings xs = ''['' @ strings_Join xs '' '' @ '']''"

definition fmt_PolicyRule :: "PolicyRule \<Rightarrow> string" where
  "fmt_PolicyRule rule =
     ''{Verbs:'' @ fmt_strings (pr_Verbs rule) @ '' APIGroups:'' @ fmt_strings (pr_APIGroups rule) @
     '' Resources:'' @ fmt_strings (pr_Resources rule) @
     '' ResourceNames:'' @ fmt_strings (pr_ResourceNames rule) @
     '' NonResourceURLs:'' @ fmt_strings (pr_NonResourceURLs rule) @ ''}''"

definition hashPermissions :: "PolicyRule list \<Rightarrow> string" where
  "hashPermissions permissions = shortHash (fmt_strings (map fmt_PolicyRule permissions))"

definition roleName :: "PolicyRule list \<Rightarrow> string" where
  "roleName permissions = ''octopus-role-'' @ hashPermissions permissions"

definition clusterRoleName :: "PolicyRule list \<Rightarrow> string" where
  "clusterRoleName permissions = ''octopus-clusterrole-'' @ hashPermissions permissions"

definition roleBindingName :: "string \<Rightarrow> string \<Rightarrow> string" where
  "roleBindingName resourceName roleRefName =
     ''octopus-rb-'' @ shortHash (resourceName @ ''-'' @ roleRefName)"

definition clusterRoleBindingName :: "string \<Rightarrow> string \<Rightarrow> string" where
  "clusterRoleBindingName resourceName roleRefName =
     ''octopus-crb-'' @ shortHash (resourceName @ ''-'' @ roleRefName)"

section \<open>The service\<close>

text \<open>
  \<^verbatim>\<open>runtime.Scheme\<close> is used through \<^verbatim>\<open>apiutil.GVKForObject\<close> only: API version and kind of an owner
  object, or an error. A tracker that is set records UIDs in the world.
\<close>

type_synonym scheme = "kind \<Rightarrow> (string \<times> string) option"

record 'c ResourceManagementService =
  rms_client :: "'c client"
  rms_scheme :: "scheme option"
  rms_gcTracker :: "(string \<Rightarrow> 'c \<Rightarrow> 'c) option"

record serviceAccountInfo =
  sai_name :: string
  sai_namespace :: string

definition NewResourceManagementService :: "'c client \<Rightarrow> 'c ResourceManagementService" where
  "NewResourceManagementService newClient =
     \<lparr>rms_client = newClient, rms_scheme = None, rms_gcTracker = None\<rparr>"

definition NewResourceManagementServiceWithScheme ::
  "'c client \<Rightarrow> scheme \<Rightarrow> 'c ResourceManagementService" where
  "NewResourceManagementServiceWithScheme newClient sch =
     \<lparr>rms_client = newClient, rms_scheme = Some sch, rms_gcTracker = None\<rparr>"

definition SetGCTracker ::
  "(string \<Rightarrow> 'c \<Rightarrow> 'c) \<Rightarrow> 'c ResourceManagementService \<Rightarrow> 'c ResourceManagementService" where
  "SetGCTracker tracker r = r\<lparr>rms_gcTracker := Some tracker\<rparr>"

definition markForDeletion :: "'c ResourceManagementService \<Rightarrow> object \<Rightarrow> 'c \<Rightarrow> 'c" where
  "markForDeletion r obj c =
     (case rms_gcTracker r of None \<Rightarrow> c | Some tracker \<Rightarrow> tracker (om_UID (obj_meta obj)) c)"

section \<open>Apply configurations\<close>

definition ownerReferenceAC :: "'c ResourceManagementService \<Rightarrow> WSAResource \<Rightarrow> OwnerReference option" where
  "ownerReferenceAC r resource =
     (case rms_scheme r of
        None \<Rightarrow> None
      | Some sch \<Rightarrow>
          (let (k, ownerMeta) = (case GetOwnerObject resource of
                 Inl w \<Rightarrow> (KWorkloadServiceAccount, wsaMeta w)
               | Inr cw \<Rightarrow> (KClusterWorkloadServiceAccount, cwsaMeta cw))
           in case sch k of
                None \<Rightarrow> None
              | Some (apiVersion, gvkKind) \<Rightarrow>
                  Some \<lparr>or_APIVersion = apiVersion, or_Kind = gvkKind, or_Name = om_Name ownerMeta,
                        or_UID = om_UID ownerMeta, or_Controller = True,
                        or_BlockOwnerDeletion = True\<rparr>))"

definition roleRefAC :: "RoleRef \<Rightarrow> RoleRef" where
  "roleRefAC ref = \<lparr>rr_APIGroup = rr_APIGroup ref, rr_Kind = rr_Kind ref, rr_Name = rr_Name ref\<rparr>"

definition subjectsAC :: "Subject list \<Rightarrow> Subject list" where
  "subjectsAC subjects =
     map (\<lambda>s. \<lparr>su_Kind = su_Kind s, su_Name = su_Name s, su_Namespace = su_Namespace s\<rparr>) subjects"

definition policyRulesAC :: "PolicyRule list \<Rightarrow> PolicyRule list" where
  "policyRulesAC rules =
     map (\<lambda>rule. \<lparr>pr_Verbs = pr_Verbs rule, pr_APIGroups = pr_APIGroups rule,
                  pr_Resources = pr_Resources rule, pr_ResourceNames = pr_ResourceNames rule,
                  pr_NonResourceURLs = pr_NonResourceURLs rule\<rparr>) rules"

text \<open>Metadata of an apply configuration with the managed-by label and an optional owner.\<close>

definition metaAC :: "string \<Rightarrow> string \<Rightarrow> OwnerReference option \<Rightarrow> ObjectMeta" where
  "metaAC name namespace ownerRef =
     ObjectMeta_zero\<lparr>om_Name := name, om_Namespace := namespace,
       om_Labels := [(ManagedByLabel, ManagedByValue)],
       om_OwnerReferences := (case ownerRef of None \<Rightarrow> [] | Some ref \<Rightarrow> [ref])\<rparr>"

section \<open>Listing\<close>

text \<open>
  The iterators over a listing are lists: the listing is taken once, before the iteration. Those
  of the managed kinds skip what does not carry the managed-by label.
\<close>

definition list_items ::
  "'c ResourceManagementService \<Rightarrow> kind \<Rightarrow> (object \<Rightarrow> 'a option) \<Rightarrow> string \<Rightarrow> 'c \<Rightarrow> (error + 'a list) \<times> 'c" where
  "list_items r k as_item msg c =
     (case client_List (rms_client r) k [] c of
        (Inl err, c') \<Rightarrow> (Inl (Errorf msg (Some (Api err))), c')
      | (Inr xs, c') \<Rightarrow> (Inr (List.map_filter as_item xs), c'))"

definition only_managed ::
  "('a \<Rightarrow> ObjectMeta) \<Rightarrow> (error + 'a list) \<times> 'c \<Rightarrow> (error + 'a list) \<times> 'c" where
  "only_managed meta res =
     (case res of
        (Inl err, c) \<Rightarrow> (Inl err, c)
      | (Inr xs, c) \<Rightarrow> (Inr (filter (\<lambda>v. IsOctopusManaged (om_Labels (meta v))) xs), c))"

definition GetWorkloadServiceAccounts ::
  "'c ResourceManagementService \<Rightarrow> 'c \<Rightarrow> (error + WorkloadServiceAccount list) \<times> 'c" where
  "GetWorkloadServiceAccounts r =
     list_items r KWorkloadServiceAccount as_WSA ''failed to list workload service accounts''"

definition GetClusterWorkloadServiceAccounts ::
  "'c ResourceManagementService \<Rightarrow> 'c \<Rightarrow> (error + ClusterWorkloadServiceAccount list) \<times> 'c" where
  "GetClusterWorkloadServiceAccounts r =
     list_items r KClusterWorkloadServiceAccount as_CWSA ''failed to list cluster workload service accounts''"

definition GetServiceAccounts ::
  "'c ResourceManagementService \<Rightarrow> 'c \<Rightarrow> (error + ServiceAccount list) \<times> 'c" where
  "GetServiceAccounts r c =
     only_managed sa_Meta (list_items r KServiceAccount as_ServiceAccount ''failed to list service accounts'' c)"

definition GetRoles_api :: "'c ResourceManagementService \<Rightarrow> 'c \<Rightarrow> (error + Role list) \<times> 'c" where
  "GetRoles_api r c = only_managed ro_Meta (list_items r KRole as_Role ''failed to list roles'' c)"

definition GetClusterRoles_api :: "'c ResourceManagementService \<Rightarrow> 'c \<Rightarrow> (error + ClusterRole list) \<times> 'c" where
  "GetClusterRoles_api r c =
     only_managed ro_Meta (list_items r KClusterRole as_ClusterRole ''failed to list cluster roles'' c)"

definition GetRoleBindings :: "'c ResourceManagementService \<Rightarrow> 'c \<Rightarrow> (error + RoleBinding list) \<times> 'c" where
  "GetRoleBindings r c =
     only_managed rb_Meta (list_items r KRoleBinding as_RoleBinding ''failed to list role bindings'' c)"

definition GetClusterRoleBindings ::
  "'c ResourceManagementService \<Rightarrow> 'c \<Rightarrow> (error + ClusterRoleBinding list) \<times> 'c" where
  "GetClusterRoleBindings r c =
     only_managed rb_Meta
       (list_items r KClusterRoleBinding as_ClusterRoleBinding ''failed to list cluster role bindings'' c)"

section \<open>Creating\<close>

text \<open>\<^verbatim>\<open>client.Apply\<close> with an error wrapped by \<^verbatim>\<open>fmt.Errorf\<close>.\<close>

definition apply_or ::
  "'c ResourceManagementService \<Rightarrow> string \<Rightarrow> object \<Rightarrow> 'c \<Rightarrow> error option \<times> 'c" where
  "apply_or r msg ac c =
     (case client_Apply (rms_client r) ac c of
        (None, c') \<Rightarrow> (None, c')
      | (Some err, c') \<Rightarrow> (Some (Errorf msg (Some (Api err))), c'))"

definition Role_zero :: Role where
  "Role_zero = \<lparr>ro_Meta = ObjectMeta_zero, ro_Rules = []\<rparr>"

definition roleAC :: "'c ResourceManagementService \<Rightarrow> WSAResource \<Rightarrow> Role" where
  "roleAC r resource =
     \<lparr>ro_Meta = metaAC (roleName (GetPermissionRules resource)) (GetNamespace resource)
        (ownerReferenceAC r resource),
      ro_Rules = policyRulesAC (GetPermissionRules resource)\<rparr>"

definition clusterRoleAC :: "'c ResourceManagementService \<Rightarrow> WSAResource \<Rightarrow> ClusterRole" where
  "clusterRoleAC r resource =
     \<lparr>ro_Meta = metaAC (clusterRoleName (GetPermissionRules resource)) [] (ownerReferenceAC r resource),
      ro_Rules = policyRulesAC (GetPermissionRules resource)\<rparr>"

definition createClusterRoleIfNeeded ::
  "'c ResourceManagementService \<Rightarrow> WSAResource \<Rightarrow> 'c \<Rightarrow> (error + ClusterRole) \<times> 'c" where
  "createClusterRoleIfNeeded r resource c =
     (let permissions = GetPermissionRules resource;
          name = clusterRoleName permissions
      in if length permissions = 0 then (Inr Role_zero, c)
         else case apply_or r (''failed to apply ClusterRole '' @ name)
                     (OClusterRole (clusterRoleAC r resource)) c of
                (Some err, c') \<Rightarrow> (Inl err, c')
              | (None, c') \<Rightarrow> (Inr (Role_zero\<lparr>ro_Meta := ObjectMeta_zero\<lparr>om_Name := name\<rparr>\<rparr>), c'))"

definition createRoleIfNeeded ::
  "'c ResourceManagementService \<Rightarrow> WSAResource \<Rightarrow> 'c \<Rightarrow> (error + Role) \<times> 'c" where
  "createRoleIfNeeded r resource c =
     (let permissions = GetPermissionRules resource
      in if length permissions = 0 then (Inr Role_zero, c)
         else if IsClusterScoped resource then
           (case createClusterRoleIfNeeded r resource c of
              (Inl err, c') \<Rightarrow> (Inl err, c')
            | (Inr clusterRole, c') \<Rightarrow>
                (Inr (Role_zero\<lparr>ro_Meta := ObjectMeta_zero\<lparr>om_Name := om_Name (ro_Meta clusterRole)\<rparr>\<rparr>), c'))
         else
           (let name = roleName permissions
            in case apply_or r (''failed to apply Role '' @ name) (ORole (roleAC r resource)) c of
                 (Some err, c') \<Rightarrow> (Inl err, c')
               | (None, c') \<Rightarrow>
                   (Inr \<lparr>ro_Meta = ObjectMeta_zero\<lparr>om_Name := name, om_Namespace := GetNamespace resource,
                            om_Labels := [(ManagedByLabel, ManagedByValue)]\<rparr>,
                         ro_Rules = permissions\<rparr>, c')))"

type_synonym RoleMap = "(NamespacedName, Role) gomap"

definition ensureRole ::
  "'c ResourceManagementService \<Rightarrow> WSAResource \<Rightarrow> RoleMap \<times> 'c \<Rightarrow> error option \<times> RoleMap \<times> 'c" where
  "ensureRole r resource st =
     (let (createdRoles, c) = st
      in case createRoleIfNeeded r resource c of
           (Inl createErr, c') \<Rightarrow> (Some createErr, createdRoles, c')
         | (Inr role, c') \<Rightarrow>
             (None,
              if om_Name (ro_Meta role) \<noteq> [] then map_put (GetNamespacedName resource) role createdRoles
              else createdRoles, c'))"

definition EnsureRoles ::
  "'c ResourceManagementService \<Rightarrow> WSAResource list \<Rightarrow> 'c \<Rightarrow> (RoleMap \<times> error option) \<times> 'c" where
  "EnsureRoles r resources c =
     (let (errs, createdRoles, c') = for_each (ensureRole r) resources ([], c)
      in ((createdRoles, multierr errs), c'))"

text \<open>The labels of the template are copied and the managed-by label is set on top.\<close>

definition serviceAccountAC :: "string \<Rightarrow> ServiceAccount \<Rightarrow> ServiceAccount" where
  "serviceAccountAC namespace templateServiceAccount =
     (let labels = map_put ManagedByLabel ManagedByValue (om_Labels (sa_Meta templateServiceAccount))
      in \<lparr>sa_Meta = ObjectMeta_zero\<lparr>om_Name := om_Name (sa_Meta templateServiceAccount),
             om_Namespace := namespace, om_Labels := labels,
             om_Annotations := om_Annotations (sa_Meta templateServiceAccount)\<rparr>\<rparr>)"

definition createServiceAccount ::
  "'c ResourceManagementService \<Rightarrow> string \<Rightarrow> ServiceAccount \<Rightarrow> 'c \<Rightarrow> error option \<times> 'c" where
  "createServiceAccount r namespace templateServiceAccount c =
     apply_or r
       (''failed to apply ServiceAccount '' @ om_Name (sa_Meta templateServiceAccount) @
        '' in namespace '' @ namespace)
       (OServiceAccount (serviceAccountAC namespace templateServiceAccount)) c"

text \<open>Two nested loops, the accounts outside.\<close>

definition EnsureServiceAccounts ::
  "'c ResourceManagementService \<Rightarrow> ServiceAccount list \<Rightarrow> string list \<Rightarrow> 'c \<Rightarrow> error option \<times> 'c" where
  "EnsureServiceAccounts r serviceAccounts targetNamespaces c =
     (let (errs, c') = for_each (\<lambda>(serviceAccount, namespace). createServiceAccount r namespace serviceAccount)
            (List.product serviceAccounts targetNamespaces) c
      in (multierr errs, c'))"

definition roleBindingAC ::
  "'c ResourceManagementService \<Rightarrow> WSAResource \<Rightarrow> RoleRef \<Rightarrow> Subject list \<Rightarrow> RoleBinding" where
  "roleBindingAC r resource roleRef subjects =
     \<lparr>rb_Meta = metaAC (roleBindingName (GetName resource) (rr_Name roleRef)) (GetNamespace resource)
        (if \<not> IsClusterScoped resource then ownerReferenceAC r resource else None),
      rb_RoleRef = roleRefAC roleRef, rb_Subjects = subjectsAC subjects\<rparr>"

definition clusterRoleBindingAC ::
  "'c ResourceManagementService \<Rightarrow> WSAResource \<Rightarrow> RoleRef \<Rightarrow> Subject list \<Rightarrow> ClusterRoleBinding" where
  "clusterRoleBindingAC r resource roleRef subjects =
     \<lparr>rb_Meta = metaAC (clusterRoleBindingName (GetName resource) (rr_Name roleRef)) []
        (if IsClusterScoped resource then ownerReferenceAC r resource else None),
      rb_RoleRef = roleRefAC roleRef, rb_Subjects = subjectsAC subjects\<rparr>"

definition createRoleBinding ::
  "'c ResourceManagementService \<Rightarrow> WSAResource \<Rightarrow> RoleRef \<Rightarrow> Subject list \<Rightarrow> 'c \<Rightarrow> error option \<times> 'c" where
  "createRoleBinding r resource roleRef subjects c =
     apply_or r
       (''failed to apply RoleBinding '' @ roleBindingName (GetName resource) (rr_Name roleRef) @
        '' in namespace '' @ GetNamespace resource)
       (ORoleBinding (roleBindingAC r resource roleRef subjects)) c"

definition createClusterRoleBinding ::
  "'c ResourceManagementService \<Rightarrow> WSAResource \<Rightarrow> RoleRef \<Rightarrow> Subject list \<Rightarrow> 'c \<Rightarrow> error option \<times> 'c" where
  "createClusterRoleBinding r resource roleRef subjects c =
     apply_or r
       (''failed to apply ClusterRoleBinding '' @ clusterRoleBindingName (GetName resource) (rr_Name roleRef))
       (OClusterRoleBinding (clusterRoleBindingAC r resource roleRef subjects)) c"

definition inlineRoleRef :: "WSAResource \<Rightarrow> Role \<Rightarrow> RoleRef" where
  "inlineRoleRef resource createdRole =
     \<lparr>rr_APIGroup = ''rbac.authorization.k8s.io'',
      rr_Kind = (if IsClusterScoped resource then ''ClusterRole'' else ''Role''),
      rr_Name = om_Name (ro_Meta createdRole)\<rparr>"

definition createRoleBindingsForResource ::
  "'c ResourceManagementService \<Rightarrow> WSAResource \<Rightarrow> serviceAccountInfo list \<Rightarrow> RoleMap \<Rightarrow> 'c \<Rightarrow>
   error option \<times> 'c" where
  "createRoleBindingsForResource r resource serviceAccounts createdRoles c =
     (let subjects = map (\<lambda>sa. \<lparr>su_Kind = ''ServiceAccount'', su_Name = sai_name sa,
                                su_Namespace = sai_namespace sa\<rparr>) serviceAccounts;
          bind = (\<lambda>roleRef. if IsClusterScoped resource
                    then createClusterRoleBinding r resource roleRef subjects
                    else createRoleBinding r resource roleRef subjects);
          (es1, c1) = for_each (\<lambda>roleRef. createRoleBinding r resource roleRef subjects)
                        (GetRoles resource) c;
          (es2, c2) = (case map_of createdRoles (GetNamespacedName resource) of
                         None \<Rightarrow> ([], c1)
                       | Some createdRole \<Rightarrow> for_each bind [inlineRoleRef resource createdRole] c1);
          (es3, c3) = for_each bind (GetClusterRoles resource) c2
      in (multierr (es1 @ es2 @ es3), c3))"

definition accountInfos :: "string list \<Rightarrow> string list \<Rightarrow> serviceAccountInfo list" where
  "accountInfos serviceAccounts targetNamespaces =
     map (\<lambda>(account, namespace). \<lparr>sai_name = account, sai_namespace = namespace\<rparr>)
       (List.product serviceAccounts targetNamespaces)"

definition ensureRoleBindingsFor ::
  "'c ResourceManagementService \<Rightarrow> RoleMap \<Rightarrow> (NamespacedName, string list) gomap \<Rightarrow> string list \<Rightarrow>
   WSAResource \<Rightarrow> 'c \<Rightarrow> error option \<times> 'c" where
  "ensureRoleBindingsFor r createdRoles wsaToServiceAccounts targetNamespaces resource c =
     (case map_of wsaToServiceAccounts (GetNamespacedName resource) of
        None \<Rightarrow> (None, c)
      | Some serviceAccounts \<Rightarrow>
          if length serviceAccounts = 0 then (None, c)
          else
            (case createRoleBindingsForResource r resource
                    (accountInfos serviceAccounts targetNamespaces) createdRoles c of
               (None, c') \<Rightarrow> (None, c')
             | (Some bindErr, c') \<Rightarrow>
                 (Some (Errorf (''failed to ensure role bindings for resource '' @
                          nn_String (GetNamespacedName resource)) (Some bindErr)), c')))"

definition EnsureRoleBindings ::
  "'c ResourceManagementService \<Rightarrow> WSAResource list \<Rightarrow> RoleMap \<Rightarrow>
   (NamespacedName, string list) gomap \<Rightarrow> string list \<Rightarrow> 'c \<Rightarrow> error option \<times> 'c" where
  "EnsureRoleBindings r resources createdRoles wsaToServiceAccounts targetNamespaces c =
     (let (errs, c') =
        for_each (ensureRoleBindingsFor r createdRoles wsaToServiceAccounts targetNamespaces) resources c
      in (multierr errs, c'))"

section \<open>Garbage collection\<close>

text \<open>Marking, deleting, and treating an object that is already gone as deleted.\<close>

definition deleteObject ::
  "'c ResourceManagementService \<Rightarrow> string \<Rightarrow> object \<Rightarrow> 'c \<Rightarrow> error option \<times> 'c" where
  "deleteObject r msg obj c =
     (case client_Delete (rms_client r) obj (markForDeletion r obj c) of
        (None, c') \<Rightarrow> (None, c')
      | (Some NotFound, c') \<Rightarrow> (None, c')
      | (Some deleteErr, c') \<Rightarrow> (Some (Errorf msg (Some (Api deleteErr))), c'))"

definition shouldDeleteServiceAccount :: "ServiceAccount \<Rightarrow> string goset \<Rightarrow> string goset \<Rightarrow> bool" where
  "shouldDeleteServiceAccount sa expectedServiceAccounts targetNamespaces =
     (let namespaceInScope = om_Namespace (sa_Meta sa) \<in> set targetNamespaces;
          nameExpected = om_Name (sa_Meta sa) \<in> set expectedServiceAccounts
      in \<not> namespaceInScope \<or> \<not> nameExpected)"

text \<open>The \<^verbatim>\<open>ctrl.Result\<close> returned beside the error is always the zero value.\<close>

definition GarbageCollectServiceAccounts ::
  "'c ResourceManagementService \<Rightarrow> string goset \<Rightarrow> string goset \<Rightarrow> 'c \<Rightarrow> error option \<times> 'c" where
  "GarbageCollectServiceAccounts r expectedServiceAccounts targetNamespaces c =
     (case client_List (rms_client r) KServiceAccount [(ManagedByLabel, ManagedByValue)] c of
        (Inl listErr, c') \<Rightarrow> (Some (Errorf ''failed to list ServiceAccounts'' (Some (Api listErr))), c')
      | (Inr items, c') \<Rightarrow>
          (let (deleteErrors, c'') =
             for_each (\<lambda>sa c.
                 if \<not> shouldDeleteServiceAccount sa expectedServiceAccounts targetNamespaces then (None, c)
                 else deleteObject r
                   (''failed to delete ServiceAccount '' @ nn_String (om_key (sa_Meta sa)))
                   (OServiceAccount sa) c)
               (List.map_filter as_ServiceAccount items) c'
           in (multierr deleteErrors, c'')))"

definition expectedRoles :: "WSAResource list \<Rightarrow> string goset" where
  "expectedRoles resources =
     fold (\<lambda>resource s.
       let permissions = GetPermissionRules resource
       in if length permissions = 0 then s
          else if IsClusterScoped resource then List.insert (clusterRoleName permissions) s
          else List.insert (roleName permissions) s) resources []"

definition GarbageCollectRoles ::
  "'c ResourceManagementService \<Rightarrow> WSAResource list \<Rightarrow> 'c \<Rightarrow> error option \<times> 'c" where
  "GarbageCollectRoles r resources c =
     (case GetRoles_api r c of
        (Inl err, c') \<Rightarrow> (Some (Errorf ''failed to list Roles'' (Some err)), c')
      | (Inr roles, c') \<Rightarrow>
          (let (deleteErrors, c'') =
             for_each (\<lambda>role c.
                 if om_Name (ro_Meta role) \<in> set (expectedRoles resources) then (None, c)
                 else deleteObject r (''failed to delete Role '' @ nn_String (om_key (ro_Meta role)))
                   (ORole role) c)
               roles c'
           in (multierr deleteErrors, c'')))"

definition bindingKey :: "WSAResource \<Rightarrow> string \<Rightarrow> NamespacedName" where
  "bindingKey resource roleRefName =
     \<lparr>nn_Namespace = GetNamespace resource, nn_Name = roleBindingName (GetName resource) roleRefName\<rparr>"

definition expectedBindings :: "WSAResource list \<Rightarrow> NamespacedName goset" where
  "expectedBindings resources =
     fold (\<lambda>resource s.
       if IsClusterScoped resource then s
       else
         (let permissions = GetPermissionRules resource;
              s1 = (if length permissions > 0
                    then List.insert (bindingKey resource (roleName permissions)) s else s);
              allRoleRefs = GetRoles resource @ GetClusterRoles resource
          in fold (\<lambda>roleRef. List.insert (bindingKey resource (rr_Name roleRef))) allRoleRefs s1))
       resources []"

definition GarbageCollectRoleBindings ::
  "'c ResourceManagementService \<Rightarrow> WSAResource list \<Rightarrow> string list \<Rightarrow> 'c \<Rightarrow> error option \<times> 'c" where
  "GarbageCollectRoleBindings r resources targetNamespaces c =
     (case GetRoleBindings r c of
        (Inl err, c') \<Rightarrow> (Some (Errorf ''failed to list RoleBindings'' (Some err)), c')
      | (Inr bindings, c') \<Rightarrow>
          (let (deleteErrors, c'') =
             for_each (\<lambda>rb c.
                 if om_key (rb_Meta rb) \<in> set (expectedBindings resources) then (None, c)
                 else deleteObject r (''failed to delete RoleBinding '' @ nn_String (om_key (rb_Meta rb)))
                   (ORoleBinding rb) c)
               bindings c'
           in (multierr deleteErrors, c'')))"

definition expectedClusterBindings :: "WSAResource list \<Rightarrow> string goset" where
  "expectedClusterBindings resources =
     fold (\<lambda>resource s.
       let permissions = GetPermissionRules resource;
           rn = (if IsClusterScoped resource then clusterRoleName permissions else roleName permissions);
           s1 = (if length permissions > 0
                 then List.insert (clusterRoleBindingName (GetName resource) rn) s else s)
       in fold (\<lambda>roleRef. List.insert (clusterRoleBindingName (GetName resource) (rr_Name roleRef)))
            (GetClusterRoles resource) s1) resources []"

definition GarbageCollectClusterRoleBindings ::
  "'c ResourceManagementService \<Rightarrow> WSAResource list \<Rightarrow> 'c \<Rightarrow> error option \<times> 'c" where
  "GarbageCollectClusterRoleBindings r resources c =
     (case GetClusterRoleBindings r c of
        (Inl err, c') \<Rightarrow> (Some (Errorf ''failed to list ClusterRoleBindings'' (Some err)), c')
      | (Inr bindings, c') \<Rightarrow>
          (let (deleteErrors, c'') =
             for_each (\<lambda>crb c.
                 if om_Name (rb_Meta crb) \<in> set (expectedClusterBindings resources) then (None, c)
                 else deleteObject r (''failed to delete ClusterRoleBinding '' @ om_Name (rb_Meta crb))
                   (OClusterRoleBinding crb) c)
               bindings c'
           in (multierr deleteErrors, c'')))"

section \<open>What is expected\<close>

text \<open>The role that carries the inline permissions of a resource.\<close>

definition role_name :: "WSAResource \<Rightarrow> string" where
  "role_name resource =
     (if IsClusterScoped resource then clusterRoleName (GetPermissionRules resource)
      else roleName (GetPermissionRules resource))"

lemma set_expectedRoles:
  "set (expectedRoles resources) = role_name ` {res \<in> set resources. GetPermissionRules res \<noteq> []}"
proof -
  have "set (expectedRoles resources) = set [] \<union>
      (\<Union>res \<in> set resources. if GetPermissionRules res = [] then {} else {role_name res})"
    unfolding expectedRoles_def
    by (rule set_fold_Un) (auto simp: role_name_def Let_def)
  then show ?thesis by auto
qed

text \<open>The names of all roles a resource is bound to.\<close>

definition bound_role_names :: "WSAResource \<Rightarrow> string set" where
  "bound_role_names res =
     (if GetPermissionRules res = [] then {} else {role_name res}) \<union>
     rr_Name ` (set (GetRoles res) \<union> set (GetClusterRoles res))"

lemma set_fold_insert_map: "set (fold (\<lambda>x. List.insert (f x)) xs s) = f ` set xs \<union> set s"
  by (induction xs arbitrary: s) auto

lemma set_expectedBindings:
  "set (expectedBindings resources) =
     (\<Union>res \<in> {res \<in> set resources. \<not> IsClusterScoped res}. bindingKey res ` bound_role_names res)"
proof -
  have "set (expectedBindings resources) = set [] \<union>
      (\<Union>res \<in> set resources. if IsClusterScoped res then {} else bindingKey res ` bound_role_names res)"
    unfolding expectedBindings_def
    by (rule set_fold_Un) (auto simp: Let_def set_fold_insert_map bound_role_names_def role_name_def)
  then show ?thesis by auto
qed

lemma set_expectedClusterBindings:
  "set (expectedClusterBindings resources) =
     (\<Union>res \<in> set resources. clusterRoleBindingName (GetName res) `
        ((if GetPermissionRules res = [] then {} else {role_name res}) \<union>
         rr_Name ` set (GetClusterRoles res)))"
proof -
  have "set (expectedClusterBindings resources) = set [] \<union>
      (\<Union>res \<in> set resources. clusterRoleBindingName (GetName res) `
        ((if GetPermissionRules res = [] then {} else {role_name res}) \<union>
         rr_Name ` set (GetClusterRoles res)))"
    unfolding expectedClusterBindings_def
    by (rule set_fold_Un) (auto simp: Let_def set_fold_insert_map role_name_def)
  then show ?thesis by simp
qed

section \<open>Creation as a sequence of requests\<close>

lemma policyRulesAC_id [simp]: "policyRulesAC rules = rules"
  by (induction rules) (simp_all add: policyRulesAC_def)

lemma subjectsAC_id [simp]: "subjectsAC subjects = subjects"
  by (induction subjects) (simp_all add: subjectsAC_def)

lemma roleRefAC_id [simp]: "roleRefAC ref = ref"
  by (simp add: roleRefAC_def)

text \<open>
  Each of the three creation passes amounts to a list of apply requests, a message for the error
  and an apply configuration each.
\<close>

type_synonym request = "string \<times> object"

definition apply_all :: "'c ResourceManagementService \<Rightarrow> request list \<Rightarrow> 'c \<Rightarrow> error list \<times> 'c" where
  "apply_all r reqs c = for_each (\<lambda>(msg, ac). apply_or r msg ac) reqs c"

lemma apply_all_append:
  "apply_all r (xs @ ys) c =
     (let (es1, c1) = apply_all r xs c; (es2, c2) = apply_all r ys c1 in (es1 @ es2, c2))"
  by (simp add: apply_all_def for_each_append)

lemma apply_all_Nil [simp]: "apply_all r [] c = ([], c)"
  by (simp add: apply_all_def)

definition account_request :: "ServiceAccount \<Rightarrow> string \<Rightarrow> request" where
  "account_request sa ns =
     (''failed to apply ServiceAccount '' @ om_Name (sa_Meta sa) @ '' in namespace '' @ ns,
      OServiceAccount (serviceAccountAC ns sa))"

definition account_requests :: "ServiceAccount list \<Rightarrow> string list \<Rightarrow> request list" where
  "account_requests accounts namespaces =
     map (\<lambda>(sa, ns). account_request sa ns) (List.product accounts namespaces)"

lemma set_account_requests:
  "set (account_requests accounts nss) = {account_request sa ns | sa ns. sa \<in> set accounts \<and> ns \<in> set nss}"
  by (auto simp: account_requests_def)

lemma EnsureServiceAccounts_eq:
  "EnsureServiceAccounts r accounts namespaces c =
     (let (errs, c') = apply_all r (account_requests accounts namespaces) c in (multierr errs, c'))"
proof -
  have "createServiceAccount r ns sa = (case account_request sa ns of (msg, ac) \<Rightarrow> apply_or r msg ac)" for sa ns
    by (simp add: createServiceAccount_def account_request_def fun_eq_iff)
  then show ?thesis
    by (simp add: EnsureServiceAccounts_def apply_all_def account_requests_def for_each_map case_prod_unfold)
qed

definition subjects_of :: "string list \<Rightarrow> string list \<Rightarrow> Subject list" where
  "subjects_of accounts namespaces =
     map (\<lambda>(account, ns). \<lparr>su_Kind = ''ServiceAccount'', su_Name = account, su_Namespace = ns\<rparr>)
       (List.product accounts namespaces)"

definition rb_request :: "'c ResourceManagementService \<Rightarrow> WSAResource \<Rightarrow> Subject list \<Rightarrow> RoleRef \<Rightarrow> request" where
  "rb_request r res subjects ref =
     (''failed to apply RoleBinding '' @ roleBindingName (GetName res) (rr_Name ref) @
      '' in namespace '' @ GetNamespace res,
      ORoleBinding (roleBindingAC r res ref subjects))"

definition crb_request :: "'c ResourceManagementService \<Rightarrow> WSAResource \<Rightarrow> Subject list \<Rightarrow> RoleRef \<Rightarrow> request" where
  "crb_request r res subjects ref =
     (''failed to apply ClusterRoleBinding '' @ clusterRoleBindingName (GetName res) (rr_Name ref),
      OClusterRoleBinding (clusterRoleBindingAC r res ref subjects))"

definition binding_requests ::
  "'c ResourceManagementService \<Rightarrow> RoleMap \<Rightarrow> Subject list \<Rightarrow> WSAResource \<Rightarrow> request list" where
  "binding_requests r createdRoles subjects res =
     (let bind = (if IsClusterScoped res then crb_request else rb_request) r res subjects
      in map (rb_request r res subjects) (GetRoles res) @
         (case map_of createdRoles (GetNamespacedName res) of
            None \<Rightarrow> [] | Some role \<Rightarrow> [bind (inlineRoleRef res role)]) @
         map bind (GetClusterRoles res))"

lemma createRoleBinding_request:
  "createRoleBinding r res ref subjects = (case rb_request r res subjects ref of (msg, ac) \<Rightarrow> apply_or r msg ac)"
  by (simp add: createRoleBinding_def rb_request_def fun_eq_iff)

lemma createClusterRoleBinding_request:
  "createClusterRoleBinding r res ref subjects =
     (case crb_request r res subjects ref of (msg, ac) \<Rightarrow> apply_or r msg ac)"
  by (simp add: createClusterRoleBinding_def crb_request_def fun_eq_iff)

lemma for_each_rb_request:
  "for_each (\<lambda>ref. createRoleBinding r res ref subjects) refs c =
     apply_all r (map (rb_request r res subjects) refs) c"
  by (simp add: apply_all_def for_each_map createRoleBinding_request)

lemma for_each_bind_request:
  "for_each (\<lambda>ref. if IsClusterScoped res then createClusterRoleBinding r res ref subjects
       else createRoleBinding r res ref subjects) refs c =
     apply_all r (map ((if IsClusterScoped res then crb_request else rb_request) r res subjects) refs) c"
  by (simp add: apply_all_def for_each_map createRoleBinding_request createClusterRoleBinding_request)

lemma createRoleBindingsForResource_eq:
  "createRoleBindingsForResource r res (accountInfos accounts namespaces) createdRoles c =
     (let (errs, c') = apply_all r (binding_requests r createdRoles (subjects_of accounts namespaces) res) c
      in (multierr errs, c'))"
proof -
  have subj: "map (\<lambda>sa. \<lparr>su_Kind = ''ServiceAccount'', su_Name = sai_name sa,
      su_Namespace = sai_namespace sa\<rparr>) (accountInfos accounts namespaces) = subjects_of accounts namespaces"
    by (simp add: accountInfos_def subjects_of_def case_prod_beta comp_def)
  show ?thesis
    unfolding createRoleBindingsForResource_def subj Let_def binding_requests_def
      for_each_rb_request for_each_bind_request apply_all_append
    by (cases "map_of createdRoles (GetNamespacedName res)")
      (simp_all add: apply_all_append case_prod_beta Let_def)
qed

text \<open>A resource without accounts gets no bindings.\<close>

definition requests_for ::
  "'c ResourceManagementService \<Rightarrow> RoleMap \<Rightarrow> (NamespacedName, string list) gomap \<Rightarrow> string list \<Rightarrow>
   WSAResource \<Rightarrow> request list" where
  "requests_for r createdRoles accounts namespaces res =
     (case map_of accounts (GetNamespacedName res) of
        None \<Rightarrow> []
      | Some as \<Rightarrow> if as = [] then [] else binding_requests r createdRoles (subjects_of as namespaces) res)"

lemma ensureRoleBindingsFor_eq:
  "ensureRoleBindingsFor r createdRoles accounts namespaces res c =
     (let (errs, c') = apply_all r (requests_for r createdRoles accounts namespaces res) c
      in (map_option (\<lambda>err. Errorf (''failed to ensure role bindings for resource '' @
            nn_String (GetNamespacedName res)) (Some err)) (multierr errs), c'))"
  by (auto simp: ensureRoleBindingsFor_def requests_for_def createRoleBindingsForResource_eq
      multierr_def split: option.splits prod.splits list.splits)

definition all_binding_requests ::
  "'c ResourceManagementService \<Rightarrow> RoleMap \<Rightarrow> (NamespacedName, string list) gomap \<Rightarrow> string list \<Rightarrow>
   WSAResource list \<Rightarrow> request list" where
  "all_binding_requests r createdRoles accounts namespaces resources =
     concat (map (requests_for r createdRoles accounts namespaces) resources)"

lemma EnsureRoleBindings_state:
  "snd (EnsureRoleBindings r resources createdRoles accounts namespaces c) =
     snd (apply_all r (all_binding_requests r createdRoles accounts namespaces resources) c)"
proof -
  have "snd (for_each (ensureRoleBindingsFor r createdRoles accounts namespaces) resources c) =
      snd (apply_all r (all_binding_requests r createdRoles accounts namespaces resources) c)"
    by (induction resources arbitrary: c)
      (simp_all add: all_binding_requests_def apply_all_append ensureRoleBindingsFor_eq
        case_prod_beta Let_def)
  then show ?thesis by (simp add: EnsureRoleBindings_def case_prod_beta)
qed

lemma EnsureRoleBindings_ok:
  assumes "EnsureRoleBindings r resources createdRoles accounts namespaces c = (None, c')"
  shows "apply_all r (all_binding_requests r createdRoles accounts namespaces resources) c = ([], c')"
proof -
  let ?f = "ensureRoleBindingsFor r createdRoles accounts namespaces"
  have "fst (for_each ?f resources c) = [] \<Longrightarrow>
      fst (apply_all r (all_binding_requests r createdRoles accounts namespaces resources) c) = []"
  proof (induction resources arbitrary: c)
    case Nil
    then show ?case by (simp add: all_binding_requests_def)
  next
    case (Cons res resources)
    then show ?case
      by (auto simp: all_binding_requests_def apply_all_append ensureRoleBindingsFor_eq
          case_prod_beta Let_def split: option.splits)
  qed
  moreover have "fst (for_each ?f resources c) = []"
    using assms by (simp add: EnsureRoleBindings_def case_prod_beta)
  moreover have "snd (apply_all r (all_binding_requests r createdRoles accounts namespaces resources) c) = c'"
    using EnsureRoleBindings_state assms by (metis snd_conv)
  ultimately show ?thesis by (simp add: prod_eq_iff)
qed

definition role_requests :: "'c ResourceManagementService \<Rightarrow> WSAResource \<Rightarrow> request list" where
  "role_requests r res =
     (if GetPermissionRules res = [] then []
      else if IsClusterScoped res
        then [(''failed to apply ClusterRole '' @ role_name res, OClusterRole (clusterRoleAC r res))]
        else [(''failed to apply Role '' @ role_name res, ORole (roleAC r res))])"

lemma roleName_not_Nil [simp]: "roleName ps \<noteq> []" "clusterRoleName ps \<noteq> []"
  by (simp_all add: roleName_def clusterRoleName_def)

lemma ensureRole_state:
  "snd (snd (ensureRole r res (roles, c))) = snd (apply_all r (role_requests r res) c)"
  by (auto simp: ensureRole_def createRoleIfNeeded_def createClusterRoleIfNeeded_def role_requests_def
      role_name_def apply_all_def Let_def split: prod.splits option.splits sum.splits)

text \<open>What is known of the map of created roles: the entry of a resource names its role.\<close>

lemma ensureRole_ok:
  assumes "ensureRole r res (roles, c) = (None, roles', c')"
  shows "apply_all r (role_requests r res) c = ([], c') \<and>
    (if GetPermissionRules res = [] then roles' = roles
     else \<exists>role. om_Name (ro_Meta role) = role_name res \<and>
            roles' = map_put (GetNamespacedName res) role roles)"
proof (cases "GetPermissionRules res = []")
  case True
  with assms show ?thesis
    by (simp add: ensureRole_def createRoleIfNeeded_def role_requests_def Role_zero_def ObjectMeta_zero_def)
next
  case False
  obtain e c1 where a: "apply_or r (fst (hd (role_requests r res))) (snd (hd (role_requests r res))) c = (e, c1)"
    by fastforce
  show ?thesis
  proof (cases e)
    case None
    with assms False a show ?thesis
      by (cases "IsClusterScoped res")
        (force simp: ensureRole_def createRoleIfNeeded_def createClusterRoleIfNeeded_def role_requests_def
          role_name_def apply_all_def Let_def)+
  next
    case (Some e')
    with assms False a show ?thesis
      by (cases "IsClusterScoped res")
        (simp_all add: ensureRole_def createRoleIfNeeded_def createClusterRoleIfNeeded_def
          role_requests_def role_name_def Let_def)
  qed
qed

definition all_role_requests :: "'c ResourceManagementService \<Rightarrow> WSAResource list \<Rightarrow> request list" where
  "all_role_requests r resources = concat (map (role_requests r) resources)"

lemma for_each_ensureRole_state:
  "snd (snd (for_each (ensureRole r) resources (roles, c))) = snd (apply_all r (all_role_requests r resources) c)"
proof (induction resources arbitrary: roles c)
  case Nil
  then show ?case by (simp add: all_role_requests_def)
next
  case (Cons res resources)
  obtain e roles1 c1 where 1: "ensureRole r res (roles, c) = (e, roles1, c1)"
    by (metis prod_cases3)
  then have "c1 = snd (apply_all r (role_requests r res) c)"
    using ensureRole_state[of r res roles c] by simp
  with 1 Cons.IH[of roles1 c1] show ?case
    by (simp add: all_role_requests_def apply_all_append case_prod_beta Let_def)
qed

lemma EnsureRoles_state:
  "snd (EnsureRoles r resources c) = snd (apply_all r (all_role_requests r resources) c)"
  using for_each_ensureRole_state[of r resources "[]" c]
  by (simp add: EnsureRoles_def case_prod_beta Let_def)

lemma for_each_ensureRole_ok:
  "for_each (ensureRole r) resources (roles, c) = ([], roles', c') \<Longrightarrow>
     fst (apply_all r (all_role_requests r resources) c) = []"
proof (induction resources arbitrary: roles c)
  case Nil
  then show ?case by (simp add: all_role_requests_def)
next
  case (Cons x resources)
  then obtain roles1 c1 where x: "ensureRole r x (roles, c) = (None, roles1, c1)"
    and rest: "for_each (ensureRole r) resources (roles1, c1) = ([], roles', c')"
    by (auto simp only: for_each_ok_Cons)
  with Cons.IH[OF rest] ensureRole_ok[OF x] show ?case
    by (simp add: all_role_requests_def apply_all_append case_prod_beta)
qed

lemma created_roles_other:
  "for_each (ensureRole r) resources (roles, c) = ([], roles', c') \<Longrightarrow>
     k \<notin> GetNamespacedName ` set resources \<Longrightarrow> map_of roles' k = map_of roles k"
proof (induction resources arbitrary: roles c)
  case Nil
  then show ?case by simp
next
  case (Cons x resources)
  then obtain roles1 c1 where x: "ensureRole r x (roles, c) = (None, roles1, c1)"
    and rest: "for_each (ensureRole r) resources (roles1, c1) = ([], roles', c')"
    by (auto simp only: for_each_ok_Cons)
  with Cons.IH[OF rest] ensureRole_ok[OF x] Cons.prems(2) show ?case
    by (auto simp: map_of_put split: if_splits)
qed

lemma created_roles_at:
  "for_each (ensureRole r) resources (roles, c) = ([], roles', c') \<Longrightarrow>
   keys_distinct resources \<Longrightarrow> res \<in> set resources \<Longrightarrow>
     if GetPermissionRules res = [] then map_of roles' (GetNamespacedName res) = map_of roles (GetNamespacedName res)
     else \<exists>role. map_of roles' (GetNamespacedName res) = Some role \<and> om_Name (ro_Meta role) = role_name res"
proof (induction resources arbitrary: roles c)
  case Nil
  then show ?case by simp
next
  case (Cons x resources)
  then obtain roles1 c1 where x: "ensureRole r x (roles, c) = (None, roles1, c1)"
    and rest: "for_each (ensureRole r) resources (roles1, c1) = ([], roles', c')"
    by (auto simp only: for_each_ok_Cons)
  have dist: "keys_distinct resources" "GetNamespacedName x \<notin> GetNamespacedName ` set resources"
    using Cons.prems(2) by (auto simp: keys_distinct_def)
  show ?case
  proof (cases "res = x")
    case True
    with created_roles_other[OF rest dist(2)] ensureRole_ok[OF x] show ?thesis
      by (auto simp: map_of_put split: if_splits)
  next
    case False
    with Cons.prems(3) have res: "res \<in> set resources" by simp
    then have "GetNamespacedName res \<noteq> GetNamespacedName x" using dist(2) by (metis image_eqI)
    then have "map_of roles1 (GetNamespacedName res) = map_of roles (GetNamespacedName res)"
      using ensureRole_ok[OF x] by (auto simp: map_of_put split: if_splits)
    with Cons.IH[OF rest dist(1) res] show ?thesis by simp
  qed
qed

lemma EnsureRoles_ok:
  assumes "EnsureRoles r resources c = ((roles, None), c')"
  shows "apply_all r (all_role_requests r resources) c = ([], c')"
    and "keys_distinct resources \<Longrightarrow> res \<in> set resources \<Longrightarrow>
      if GetPermissionRules res = [] then map_of roles (GetNamespacedName res) = None
      else \<exists>role. map_of roles (GetNamespacedName res) = Some role \<and> om_Name (ro_Meta role) = role_name res"
proof -
  have loop: "for_each (ensureRole r) resources ([], c) = ([], roles, c')"
    using assms by (auto simp: EnsureRoles_def split: prod.splits)
  have "snd (apply_all r (all_role_requests r resources) c) = c'"
    using EnsureRoles_state[of r resources c] assms by simp
  with for_each_ensureRole_ok[OF loop]
  show "apply_all r (all_role_requests r resources) c = ([], c')"
    by (metis prod.collapse)
  show "keys_distinct resources \<Longrightarrow> res \<in> set resources \<Longrightarrow>
      if GetPermissionRules res = [] then map_of roles (GetNamespacedName res) = None
      else \<exists>role. map_of roles (GetNamespacedName res) = Some role \<and> om_Name (ro_Meta role) = role_name res"
    using created_roles_at[OF loop] by simp
qed

section \<open>The service on top of the API contract\<close>

text \<open>A tracker keeps its own records and does not touch the cluster.\<close>

locale resource_management = api_client_current "rms_client r" view
  for r :: "'c ResourceManagementService" and view +
  assumes tracker_frame: "rms_gcTracker r = Some tracker \<Longrightarrow> view (tracker uid c) = view c"
begin

lemma mark_view [simp]: "view (markForDeletion r x c) = view c"
  by (simp add: markForDeletion_def tracker_frame split: option.splits)

lemma apply_or_frame:
  assumes "apply_or r msg ac c = (e, c')" and "i \<noteq> obj_id ac"
  shows "view c' i = view c i"
proof -
  obtain q where "client_Apply (rms_client r) ac c = (q, c')"
    using assms(1) by (auto simp: apply_or_def split: prod.splits option.splits)
  then show ?thesis using assms(2) by (rule Apply_frame)
qed

lemma apply_or_ok:
  assumes "apply_or r msg ac c = (None, c')"
  shows "\<exists>x. view c' (obj_id ac) = Some x \<and> conforms ac x"
proof -
  have "client_Apply (rms_client r) ac c = (None, c')"
    using assms by (auto simp: apply_or_def split: prod.splits option.splits)
  then show ?thesis by (rule Apply_conforms) blast
qed

lemma apply_all_frame:
  assumes "\<forall>(msg, ac) \<in> set reqs. obj_id ac \<noteq> i"
  shows "view (snd (apply_all r reqs c)) i = view c i"
  unfolding apply_all_def
proof (rule for_each_invariant)
  fix x c'
  assume "x \<in> set reqs" and "view c' i = view c i"
  with assms apply_or_frame[of "fst x" "snd x" c' _ _ i]
  show "view (snd ((case x of (msg, ac) \<Rightarrow> apply_or r msg ac) c')) i = view c i"
    by (cases x; cases "apply_or r (fst x) (snd x) c'") auto
qed simp

text \<open>
  Requests for one object are consistent if satisfying any of them satisfies all: then it does
  not matter which of them came last.
\<close>

lemma apply_all_ok:
  assumes "apply_all r reqs c = ([], c')" and "(msg, ac) \<in> set reqs"
    and consistent: "\<And>msg' ac' x. (msg', ac') \<in> set reqs \<Longrightarrow> obj_id ac' = obj_id ac \<Longrightarrow>
      conforms ac' x \<Longrightarrow> conforms ac x"
  shows "\<exists>x. view c' (obj_id ac) = Some x \<and> conforms ac x"
proof (rule for_each_establishes[where Q = "\<lambda>c'. \<exists>x. view c' (obj_id ac) = Some x \<and> conforms ac x"])
  show "for_each (\<lambda>(msg, ac). apply_or r msg ac) reqs c = ([], c')"
    using assms(1) by (simp add: apply_all_def)
  show "(msg, ac) \<in> set reqs" by fact
next
  fix c c'
  assume "(case (msg, ac) of (msg, ac) \<Rightarrow> apply_or r msg ac) c = (None, c')"
  then show "\<exists>x. view c' (obj_id ac) = Some x \<and> conforms ac x" using apply_or_ok by simp
next
  fix y c c'
  assume y: "y \<in> set reqs" and step: "(case y of (msg, ac) \<Rightarrow> apply_or r msg ac) c = (None, c')"
    and ih: "\<exists>x. view c (obj_id ac) = Some x \<and> conforms ac x"
  obtain msg' ac' where [simp]: "y = (msg', ac')" by fastforce
  show "\<exists>x. view c' (obj_id ac) = Some x \<and> conforms ac x"
  proof (cases "obj_id ac' = obj_id ac")
    case True
    with step apply_or_ok[of msg' ac' c c'] consistent[of msg' ac'] y show ?thesis by auto
  next
    case False
    then have "view c' (obj_id ac) = view c (obj_id ac)"
      using step by (intro apply_or_frame[of msg' ac' c]) auto
    with ih show ?thesis by simp
  qed
qed

lemma deleteObject_frame:
  assumes "deleteObject r msg x c = (e, c')" and "i \<noteq> obj_id x"
  shows "view c' i = view c i"
proof -
  obtain q where "client_Delete (rms_client r) x (markForDeletion r x c) = (q, c')"
    using assms(1)
    by (auto simp: deleteObject_def split: prod.splits option.splits api_error.splits)
  from Delete_frame[OF this assms(2)] show ?thesis by simp
qed

lemma deleteObject_gone:
  assumes "deleteObject r msg x c = (None, c')" and "view c' (obj_id x) = Some y"
  shows "terminating y"
proof -
  obtain q where "client_Delete (rms_client r) x (markForDeletion r x c) = (q, c')"
    and "q = None \<or> q = Some NotFound"
    using assms(1)
    by (auto simp: deleteObject_def split: prod.splits option.splits api_error.splits)
  then show ?thesis using assms(2) by (rule Delete_gone)
qed

text \<open>The deletion loops: only what is not kept is touched, and without errors it is all gone.\<close>

lemma gc_loop_frame:
  assumes "for_each (\<lambda>x c. if keep x then (None, c) else deleteObject r (msg x) (wrap x) c) xs c = (es, c')"
    and "\<And>x. x \<in> set xs \<Longrightarrow> \<not> keep x \<Longrightarrow> obj_id (wrap x) \<noteq> i"
  shows "view c' i = view c i"
proof -
  have "view (snd (for_each (\<lambda>x c. if keep x then (None, c) else deleteObject r (msg x) (wrap x) c) xs c)) i = view c i"
  proof (rule for_each_invariant)
    fix x c'
    assume "x \<in> set xs" and "view c' i = view c i"
    with assms(2)[of x] deleteObject_frame[of "msg x" "wrap x" c' _ _ i]
    show "view (snd (if keep x then (None, c') else deleteObject r (msg x) (wrap x) c')) i = view c i"
      by (cases "deleteObject r (msg x) (wrap x) c'") auto
  qed simp
  then show ?thesis using assms(1) by simp
qed

lemma gc_loop_gone:
  assumes "for_each (\<lambda>x c. if keep x then (None, c) else deleteObject r (msg x) (wrap x) c) xs c = ([], c')"
    and "x \<in> set xs" and "\<not> keep x" and "view c' (obj_id (wrap x)) = Some y"
  shows "terminating y"
proof -
  let ?Q = "\<lambda>c. \<forall>y. view c (obj_id (wrap x)) = Some y \<longrightarrow> terminating y"
  have "?Q c'"
  proof (rule for_each_establishes[OF assms(1,2), where Q = ?Q])
    fix c c'
    assume "(if keep x then (None, c) else deleteObject r (msg x) (wrap x) c) = (None, c')"
    with assms(3) show "?Q c'" by (auto intro: deleteObject_gone[of "msg x" "wrap x" c c'])
  next
    fix z c c'
    assume step: "(if keep z then (None, c) else deleteObject r (msg z) (wrap z) c) = (None, c')" and ih: "?Q c"
    show "?Q c'"
    proof (cases "keep z")
      case True
      with step ih show ?thesis by simp
    next
      case False
      with step have del: "deleteObject r (msg z) (wrap z) c = (None, c')" by simp
      show ?thesis
      proof (cases "obj_id (wrap z) = obj_id (wrap x)")
        case True
        with deleteObject_gone[OF del] show ?thesis by simp
      next
        case False
        then have "view c' (obj_id (wrap x)) = view c (obj_id (wrap x))"
          using deleteObject_frame[OF del] by metis
        with ih show ?thesis by simp
      qed
    qed
  qed
  with assms(4) show ?thesis by blast
qed

text \<open>The listings of managed objects.\<close>

lemma list_items_current:
  assumes "list_items r k as_item msg c = (Inr xs, c')"
  shows "view c' = view c"
    and "x \<in> set xs \<longleftrightarrow> (\<exists>n obj. view c (k, n) = Some obj \<and> as_item obj = Some x)"
proof -
  obtain objs where l: "client_List (rms_client r) k [] c = (Inr objs, c')"
    and xs: "xs = List.map_filter as_item objs"
    using assms by (auto simp: list_items_def split: prod.splits sum.splits)
  show "view c' = view c" by (rule List_frame[OF l])
  have "matches [] obj" for obj by (simp add: matches_def)
  then show "x \<in> set xs \<longleftrightarrow> (\<exists>n obj. view c (k, n) = Some obj \<and> as_item obj = Some x)"
    using List_items[OF l] by (auto simp: xs set_map_filter)
qed

lemma list_items_fails: "list_items r k as_item msg c = (Inl e, c') \<Longrightarrow> view c' = view c"
  by (auto simp: list_items_def dest: List_frame split: prod.splits sum.splits)

text \<open>
  All four collectors loop over the managed objects of one kind: \<open>wrap\<close> is the object of an item,
  \<open>keep\<close> says which items are expected.
\<close>

lemma gc_safe:
  assumes loop: "for_each (\<lambda>x c. if keep x then (None, c) else deleteObject r (msg x) (wrap x) c) xs c = (es, c')"
    and items: "\<And>x. x \<in> set xs \<longleftrightarrow> view c (obj_id (wrap x)) = Some (wrap x) \<and> managed (wrap x)"
    and changed: "view c' i \<noteq> view c i"
  shows "\<exists>x. view c i = Some (wrap x) \<and> managed (wrap x) \<and> \<not> keep x"
proof -
  obtain x where "x \<in> set xs" "\<not> keep x" "obj_id (wrap x) = i"
    using changed gc_loop_frame[OF loop, of i] by metis
  with items show ?thesis by blast
qed

lemma gc_complete:
  assumes loop: "for_each (\<lambda>x c. if keep x then (None, c) else deleteObject r (msg x) (wrap x) c) xs c = ([], c')"
    and items: "\<And>x. x \<in> set xs \<longleftrightarrow> view c (obj_id (wrap x)) = Some (wrap x) \<and> managed (wrap x)"
    and final: "view c' i = Some (wrap x)" "managed (wrap x)" "\<not> terminating (wrap x)"
  shows "keep x"
proof (rule ccontr)
  assume nk: "\<not> keep x"
  have i: "i = obj_id (wrap x)" using view_id[OF final(1)] by simp
  have "view c' i = view c i"
  proof (rule gc_loop_frame[OF loop])
    fix y
    assume y: "y \<in> set xs" "\<not> keep y"
    with gc_loop_gone[OF loop y] final(1,3) show "obj_id (wrap y) \<noteq> i" by metis
  qed
  with final(1,2) i have "x \<in> set xs" by (simp add: items)
  with gc_loop_gone[OF loop _ nk] final(1,3) i show False by metis
qed

lemma managed_items:
  assumes "only_managed meta (list_items r k as_item msg c) = (Inr xs, c')"
    and wrap: "\<And>x obj. as_item obj = Some x \<longleftrightarrow> obj = wrap x" "\<And>x. obj_meta (wrap x) = meta x"
      "\<And>x. obj_kind (wrap x) = k"
  shows "x \<in> set xs \<longleftrightarrow> view c' (obj_id (wrap x)) = Some (wrap x) \<and> managed (wrap x)"
proof -
  obtain ys where ys: "list_items r k as_item msg c = (Inr ys, c')"
    and xs: "xs = filter (\<lambda>v. IsOctopusManaged (om_Labels (meta v))) ys"
    using assms(1) by (auto simp: only_managed_def split: prod.splits sum.splits)
  have "x \<in> set ys \<longleftrightarrow> (\<exists>n. view c' (k, n) = Some (wrap x))"
    using list_items_current[OF ys] by (simp add: wrap)
  also have "\<dots> \<longleftrightarrow> view c' (obj_id (wrap x)) = Some (wrap x)"
    using view_id wrap(3) by (metis fst_conv)
  finally show ?thesis by (auto simp: xs managed_def wrap)
qed

lemma selected_accounts:
  assumes "client_List (rms_client r) KServiceAccount [(ManagedByLabel, ManagedByValue)] c = (Inr xs, c')"
  shows "sa \<in> set (List.map_filter as_ServiceAccount xs) \<longleftrightarrow>
    view c' (obj_id (OServiceAccount sa)) = Some (OServiceAccount sa) \<and> managed (OServiceAccount sa)"
proof -
  have "view c' = view c" by (rule List_frame[OF assms])
  then show ?thesis
    using List_stored[OF assms, of "OServiceAccount sa"]
      List_complete[OF assms, of "om_key (sa_Meta sa)" "OServiceAccount sa"]
    by (auto simp: set_map_filter matches_managed)
qed

lemma managed_fails: "only_managed meta (list_items r k as_item msg c) = (Inl e, c') \<Longrightarrow> view c' = view c"
  by (auto simp: only_managed_def dest: list_items_fails split: prod.splits sum.splits)

lemma managed_view: "only_managed meta (list_items r k as_item msg c) = (Inr xs, c') \<Longrightarrow> view c' = view c"
  by (auto simp: only_managed_def dest: list_items_current(1) split: prod.splits sum.splits)

text \<open>
  Garbage collection deletes nothing but objects that carry the managed-by label and are not
  expected, whatever requests fail on the way; and if nothing fails, what is left of the managed
  objects of the kind is expected or on its way out.
\<close>

lemma GarbageCollectServiceAccounts_safe:
  assumes "GarbageCollectServiceAccounts r exp nss c = (e, c')" and "view c' i \<noteq> view c i"
  shows "\<exists>sa. view c i = Some (OServiceAccount sa) \<and> managed (OServiceAccount sa) \<and>
    shouldDeleteServiceAccount sa exp nss"
proof -
  obtain items c1 where l: "client_List (rms_client r) KServiceAccount [(ManagedByLabel, ManagedByValue)] c = (items, c1)"
    by fastforce
  have v: "view c1 = view c" by (rule List_frame[OF l])
  with assms l obtain xs where xs: "items = Inr xs"
    by (cases items) (auto simp: GarbageCollectServiceAccounts_def)
  from assms v show ?thesis
    by (auto simp: GarbageCollectServiceAccounts_def l xs split: prod.splits
        dest: gc_safe[OF _ selected_accounts[OF l[unfolded xs]]])
qed

lemma GarbageCollectServiceAccounts_complete:
  assumes "GarbageCollectServiceAccounts r exp nss c = (None, c')"
    and "view c' i = Some (OServiceAccount sa)" "managed (OServiceAccount sa)"
      "\<not> terminating (OServiceAccount sa)"
  shows "om_Namespace (sa_Meta sa) \<in> set nss \<and> om_Name (sa_Meta sa) \<in> set exp"
proof -
  obtain xs c1 where l: "client_List (rms_client r) KServiceAccount [(ManagedByLabel, ManagedByValue)] c = (Inr xs, c1)"
    using assms(1) by (auto simp: GarbageCollectServiceAccounts_def split: prod.splits sum.splits)
  have "\<not> shouldDeleteServiceAccount sa exp nss"
    using assms(1) gc_complete[OF _ selected_accounts[OF l] assms(2-4),
        where keep = "\<lambda>sa. \<not> shouldDeleteServiceAccount sa exp nss"]
    by (auto simp: GarbageCollectServiceAccounts_def l split: prod.splits)
  then show ?thesis by (simp add: shouldDeleteServiceAccount_def)
qed

lemma GarbageCollectRoles_safe:
  assumes "GarbageCollectRoles r resources c = (e, c')" and "view c' i \<noteq> view c i"
  shows "\<exists>ro. view c i = Some (ORole ro) \<and> managed (ORole ro) \<and>
    om_Name (ro_Meta ro) \<notin> set (expectedRoles resources)"
proof -
  obtain items c1 where l: "GetRoles_api r c = (items, c1)" by fastforce
  have v: "view c1 = view c"
    using l managed_fails managed_view by (cases items) (auto simp: GetRoles_api_def)
  with assms l obtain xs where xs: "items = Inr xs"
    by (cases items) (auto simp: GarbageCollectRoles_def)
  have "x \<in> set xs \<longleftrightarrow> view c1 (obj_id (ORole x)) = Some (ORole x) \<and> managed (ORole x)" for x
    by (rule managed_items[OF l[unfolded xs GetRoles_api_def]]) simp_all
  with assms v show ?thesis
    by (auto simp: GarbageCollectRoles_def l xs split: prod.splits dest: gc_safe)
qed

lemma GarbageCollectRoles_complete:
  assumes "GarbageCollectRoles r resources c = (None, c')"
    and "view c' i = Some (ORole ro)" "managed (ORole ro)" "\<not> terminating (ORole ro)"
  shows "om_Name (ro_Meta ro) \<in> set (expectedRoles resources)"
proof -
  obtain xs c1 where l: "GetRoles_api r c = (Inr xs, c1)"
    using assms(1) by (auto simp: GarbageCollectRoles_def split: prod.splits sum.splits)
  have items: "x \<in> set xs \<longleftrightarrow> view c1 (obj_id (ORole x)) = Some (ORole x) \<and> managed (ORole x)" for x
    by (rule managed_items[OF l[unfolded GetRoles_api_def]]) simp_all
  show ?thesis
    using assms(1) gc_complete[OF _ items assms(2-4)]
    by (auto simp: GarbageCollectRoles_def l split: prod.splits)
qed

lemma GarbageCollectRoleBindings_safe:
  assumes "GarbageCollectRoleBindings r resources nss c = (e, c')" and "view c' i \<noteq> view c i"
  shows "\<exists>rb. view c i = Some (ORoleBinding rb) \<and> managed (ORoleBinding rb) \<and>
    om_key (rb_Meta rb) \<notin> set (expectedBindings resources)"
proof -
  obtain items c1 where l: "GetRoleBindings r c = (items, c1)" by fastforce
  have v: "view c1 = view c"
    using l managed_fails managed_view by (cases items) (auto simp: GetRoleBindings_def)
  with assms l obtain xs where xs: "items = Inr xs"
    by (cases items) (auto simp: GarbageCollectRoleBindings_def)
  have "x \<in> set xs \<longleftrightarrow> view c1 (obj_id (ORoleBinding x)) = Some (ORoleBinding x) \<and> managed (ORoleBinding x)" for x
    by (rule managed_items[OF l[unfolded xs GetRoleBindings_def]]) simp_all
  with assms v show ?thesis
    by (auto simp: GarbageCollectRoleBindings_def l xs split: prod.splits dest: gc_safe)
qed

lemma GarbageCollectRoleBindings_complete:
  assumes "GarbageCollectRoleBindings r resources nss c = (None, c')"
    and "view c' i = Some (ORoleBinding rb)" "managed (ORoleBinding rb)" "\<not> terminating (ORoleBinding rb)"
  shows "om_key (rb_Meta rb) \<in> set (expectedBindings resources)"
proof -
  obtain xs c1 where l: "GetRoleBindings r c = (Inr xs, c1)"
    using assms(1) by (auto simp: GarbageCollectRoleBindings_def split: prod.splits sum.splits)
  have items: "x \<in> set xs \<longleftrightarrow> view c1 (obj_id (ORoleBinding x)) = Some (ORoleBinding x) \<and> managed (ORoleBinding x)" for x
    by (rule managed_items[OF l[unfolded GetRoleBindings_def]]) simp_all
  show ?thesis
    using assms(1) gc_complete[OF _ items assms(2-4)]
    by (auto simp: GarbageCollectRoleBindings_def l split: prod.splits)
qed

lemma GarbageCollectClusterRoleBindings_safe:
  assumes "GarbageCollectClusterRoleBindings r resources c = (e, c')" and "view c' i \<noteq> view c i"
  shows "\<exists>rb. view c i = Some (OClusterRoleBinding rb) \<and> managed (OClusterRoleBinding rb) \<and>
    om_Name (rb_Meta rb) \<notin> set (expectedClusterBindings resources)"
proof -
  obtain items c1 where l: "GetClusterRoleBindings r c = (items, c1)" by fastforce
  have v: "view c1 = view c"
    using l managed_fails managed_view by (cases items) (auto simp: GetClusterRoleBindings_def)
  with assms l obtain xs where xs: "items = Inr xs"
    by (cases items) (auto simp: GarbageCollectClusterRoleBindings_def)
  have "x \<in> set xs \<longleftrightarrow> view c1 (obj_id (OClusterRoleBinding x)) = Some (OClusterRoleBinding x) \<and>
      managed (OClusterRoleBinding x)" for x
    by (rule managed_items[OF l[unfolded xs GetClusterRoleBindings_def]]) simp_all
  with assms v show ?thesis
    by (auto simp: GarbageCollectClusterRoleBindings_def l xs split: prod.splits dest: gc_safe)
qed

lemma GarbageCollectClusterRoleBindings_complete:
  assumes "GarbageCollectClusterRoleBindings r resources c = (None, c')"
    and "view c' i = Some (OClusterRoleBinding rb)" "managed (OClusterRoleBinding rb)"
      "\<not> terminating (OClusterRoleBinding rb)"
  shows "om_Name (rb_Meta rb) \<in> set (expectedClusterBindings resources)"
proof -
  obtain xs c1 where l: "GetClusterRoleBindings r c = (Inr xs, c1)"
    using assms(1) by (auto simp: GarbageCollectClusterRoleBindings_def split: prod.splits sum.splits)
  have items: "x \<in> set xs \<longleftrightarrow> view c1 (obj_id (OClusterRoleBinding x)) = Some (OClusterRoleBinding x) \<and>
      managed (OClusterRoleBinding x)" for x
    by (rule managed_items[OF l[unfolded GetClusterRoleBindings_def]]) simp_all
  show ?thesis
    using assms(1) gc_complete[OF _ items assms(2-4)]
    by (auto simp: GarbageCollectClusterRoleBindings_def l split: prod.splits)
qed

end

text \<open>The service on the in-memory server, without a tracker and with one that records UIDs.\<close>

interpretation srv_rm: resource_management "NewResourceManagementServiceWithScheme server_client sch" server_view for sch
proof -
  have "rms_client (NewResourceManagementServiceWithScheme server_client sch) = server_client"
    by (simp add: NewResourceManagementServiceWithScheme_def)
  then show "resource_management (NewResourceManagementServiceWithScheme server_client sch) server_view"
    using srv.api_client_current_axioms
    by (auto simp: resource_management_def resource_management_axioms_def
        NewResourceManagementServiceWithScheme_def)
qed

definition recording_tracker :: "string \<Rightarrow> server \<Rightarrow> server" where
  "recording_tracker uid s = s\<lparr>srv_marked := uid # srv_marked s\<rparr>"

definition tracked_service :: "server ResourceManagementService" where
  "tracked_service = SetGCTracker recording_tracker (NewResourceManagementService server_client)"

interpretation srv_tracked: resource_management tracked_service server_view
proof -
  have "rms_client tracked_service = server_client"
    by (simp add: tracked_service_def SetGCTracker_def NewResourceManagementService_def)
  then show "resource_management tracked_service server_view"
    using srv.api_client_current_axioms
    by (auto simp: resource_management_def resource_management_axioms_def tracked_service_def
        SetGCTracker_def NewResourceManagementService_def recording_tracker_def)
qed

end
