(* ===== verification/Isolation.thy ===== *)
theory Isolation
  imports Mappings
begin

text \<open>
  What the service-account mappings promise to deployments. The maps depend only on the set of
  resources (not on list or iteration order), the account found for a deployment carries the
  bindings of every resource the deployment matches, and it carries no other resource's bindings
  as long as no resource constrains two dimensions. With two constrained dimensions the last
  statement fails: an example gives a deployment the permissions of a resource it does not match.
\<close>

section \<open>Groups as sets of resources\<close>

lemma wsaSetKey_eq:
  assumes "order_ok \<omega>"
  shows "wsaSetKey \<omega> m = strings_Join (sort (map nn_String (map fst m))) '',''"
proof -
  have "mset (map nn_String (o_key \<omega> (map fst m))) = mset (map nn_String (map fst m))"
    by (simp only: mset_map permuting_mset[OF order_okD(4)[OF assms]])
  from sort_cong_mset[OF this] show ?thesis
    by (simp only: wsaSetKey_def Let_def map_sort_key)
qed

lemma wsaSetKey_cong:
  assumes "order_ok \<omega>" "order_ok \<omega>'" "map_wf m" "map_wf m'" "dom (map_of m) = dom (map_of m')"
  shows "wsaSetKey \<omega> m = wsaSetKey \<omega>' m'"
proof -
  have "mset (map fst m) = mset (map fst m')"
    using assms(3-5) by (metis map_wf_def set_map_fst_dom set_eq_iff_mset_eq_distinct)
  then have "mset (map nn_String (map fst m)) = mset (map nn_String (map fst m'))"
    by (simp only: mset_map)
  from sort_cong_mset[OF this] show ?thesis
    by (simp only: wsaSetKey_eq[OF assms(1)] wsaSetKey_eq[OF assms(2)])
qed

lemma wsaSetKey_inject:
  assumes "order_ok \<omega>" and "\<forall>k \<in> dom (map_of m) \<union> dom (map_of m'). valid_key k"
    and "wsaSetKey \<omega> m = wsaSetKey \<omega> m'"
  shows "dom (map_of m) = dom (map_of m')"
proof -
  let ?s = "\<lambda>m. sort (map nn_String (map fst m))"
  have no: "x \<noteq> [] \<and> CHR '','' \<notin> set x" if "x \<in> set (?s m) \<union> set (?s m')" for x
  proof -
    from that obtain k where "k \<in> dom (map_of m) \<union> dom (map_of m')" "x = nn_String k"
      by (auto simp: dom_map_of_conv_image_fst)
    with assms(2) show ?thesis by (auto simp: nn_String_def valid_key_def)
  qed
  have "?s m = ?s m'"
    using assms(3) no by (intro strings_Join_inject[of _ _ "CHR '',''"]) (auto simp: wsaSetKey_eq[OF assms(1)])
  then have "set (?s m) = set (?s m')" by simp
  then have "nn_String ` dom (map_of m) = nn_String ` dom (map_of m')"
    by (simp add: dom_map_of_conv_image_fst image_image)
  moreover have "inj_on nn_String (dom (map_of m) \<union> dom (map_of m'))"
    using assms(2) nn_String_inject by (auto simp: inj_on_def)
  ultimately show ?thesis
    by (meson Un_upper1 Un_upper2 inj_on_image_eq_iff)
qed

section \<open>The computed maps for a list of resources\<close>

abbreviation scopeMap_of :: "go_order \<Rightarrow> WSAResource list \<Rightarrow> ScopeMap" where
  "scopeMap_of \<omega> rs \<equiv> fst (ComputeScopesForWSAs \<omega> rs)"

abbreviation vocab_of :: "WSAResource list \<Rightarrow> GlobalVocabulary" where
  "vocab_of rs \<equiv> buildGlobalVocabulary rs"

lemma ComputeScopes_fst:
  "scopeMap_of \<omega> rs = computeMinimalServiceAccountScopes \<omega> rs (vocab_of rs)"
  and ComputeScopes_snd: "snd (ComputeScopesForWSAs \<omega> rs) = vocab_of rs"
  by (simp_all add: ComputeScopesForWSAs_def Let_def)

definition covering :: "WSAResource list \<Rightarrow> Scope \<Rightarrow> WSAResource set" where
  "covering rs s = {r \<in> set rs. covers (vocab_of rs) r s}"

definition names_valid :: "WSAResource list \<Rightarrow> bool" where
  "names_valid rs \<longleftrightarrow> keys_distinct rs \<and> (\<forall>r \<in> set rs. valid_key (GetNamespacedName r))"

lemma names_validD: "names_valid rs \<Longrightarrow> keys_distinct rs"
  by (simp add: names_valid_def)

lemma scopeMap_dom: "order_ok \<omega> \<Longrightarrow> s \<in> dom (map_of (scopeMap_of \<omega> rs)) \<longleftrightarrow> covering rs s \<noteq> {}"
  by (auto simp: ComputeScopes_fst computeMinimal_dom covering_def)

lemma scopeMap_keys:
  assumes "order_ok \<omega>" "keys_distinct rs" "map_of (scopeMap_of \<omega> rs) s = Some m"
  shows "map_wf m" and "dom (map_of m) = GetNamespacedName ` covering rs s"
proof -
  note e = computeMinimal_wsas[OF assms(1,2) assms(3)[unfolded ComputeScopes_fst]]
  show "map_wf m" by (rule e(1))
  show "dom (map_of m) = GetNamespacedName ` covering rs s"
    using e(2) by (auto simp: covering_def image_iff dom_def)
qed

lemma covering_key_iff:
  assumes "keys_distinct rs" "r \<in> set rs"
  shows "GetNamespacedName r \<in> GetNamespacedName ` covering rs s \<longleftrightarrow> r \<in> covering rs s"
  using assms keys_distinct_eq by (auto simp: covering_def)

lemma covering_key_image:
  assumes "keys_distinct rs"
  shows "GetNamespacedName ` covering rs s = GetNamespacedName ` covering rs t \<longleftrightarrow>
    covering rs s = covering rs t"
proof -
  have "inj_on GetNamespacedName (set rs)"
    using assms by (simp add: keys_distinct_def distinct_map)
  then show ?thesis
    by (rule inj_on_image_eq_iff) (auto simp: covering_def)
qed

text \<open>Two scopes are in one group exactly when the same resources cover them.\<close>

lemma set_group_of:
  assumes "order_ok \<omega>" "names_valid rs" "covering rs s \<noteq> {}"
  shows "set (group_of \<omega> (scopeMap_of \<omega> rs) s) = {t. covering rs t = covering rs s}"
proof -
  let ?sm = "scopeMap_of \<omega> rs"
  note kd = names_validD[OF assms(2)]
  obtain m where m: "map_of ?sm s = Some m"
    using assms(3) scopeMap_dom[OF assms(1)] by blast
  have same: "wsaSetKey \<omega> m' = wsaSetKey \<omega> m \<longleftrightarrow> covering rs t = covering rs s"
    if t: "map_of ?sm t = Some m'" for t m'
  proof
    note k = scopeMap_keys[OF assms(1) kd m] scopeMap_keys[OF assms(1) kd t]
    assume "wsaSetKey \<omega> m' = wsaSetKey \<omega> m"
    moreover have "\<forall>k \<in> dom (map_of m') \<union> dom (map_of m). valid_key k"
      using assms(2) by (auto simp: k names_valid_def covering_def)
    ultimately have "dom (map_of m') = dom (map_of m)"
      by (intro wsaSetKey_inject[OF assms(1)])
    then show "covering rs t = covering rs s"
      by (simp add: k covering_key_image[OF kd])
  next
    note k = scopeMap_keys[OF assms(1) kd m] scopeMap_keys[OF assms(1) kd t]
    assume "covering rs t = covering rs s"
    then show "wsaSetKey \<omega> m' = wsaSetKey \<omega> m"
      by (intro wsaSetKey_cong[OF assms(1,1)]) (simp_all add: k)
  qed
  have "set (group_of \<omega> ?sm s) = {t. \<exists>m'. map_of ?sm t = Some m' \<and> wsaSetKey \<omega> m' = wsaSetKey \<omega> m}"
    by (simp only: group_of_def m option.simps set_group_at_group[OF assms(1)])
  also have "\<dots> = {t. covering rs t = covering rs s}"
    using same scopeMap_dom[OF assms(1)] assms(3) by (metis (no_types, lifting) domD domI)
  finally show ?thesis .
qed

text \<open>The service account of a scope, and which resources bind it.\<close>

definition account_of :: "go_order \<Rightarrow> WSAResource list \<Rightarrow> Scope \<Rightarrow> ServiceAccountName" where
  "account_of \<omega> rs s = groupName \<omega> (group_of \<omega> (scopeMap_of \<omega> rs) s)"

lemma scopeToSA_account:
  "order_ok \<omega> \<Longrightarrow> map_of (scopeToSA_of \<omega> (scopeMap_of \<omega> rs)) s =
     (if covering rs s \<noteq> {} then Some (account_of \<omega> rs s) else None)"
  by (simp only: scopeToSA_of_eq scopeMap_dom account_of_def)

lemma groupWSAs_keys:
  assumes "order_ok \<omega>" "names_valid rs" "covering rs s \<noteq> {}"
  shows "dom (map_of (groupWSAs (scopeMap_of \<omega> rs) (group_of \<omega> (scopeMap_of \<omega> rs) s))) =
    GetNamespacedName ` covering rs s"
proof -
  let ?sm = "scopeMap_of \<omega> rs"
  let ?g = "group_of \<omega> ?sm s"
  have "s \<in> set ?g" by (simp only: set_group_of[OF assms] mem_Collect_eq)
  then have "?g ! 0 \<in> set ?g" by (metis length_greater_0_conv list.set_cases nth_mem neq_Nil_conv)
  then have cov: "covering rs (?g ! 0) = covering rs s" by (simp only: set_group_of[OF assms] mem_Collect_eq)
  then obtain m where m: "map_of ?sm (?g ! 0) = Some m"
    using assms(3) scopeMap_dom[OF assms(1)] by (metis domD)
  then show ?thesis
    using scopeMap_keys(2)[OF assms(1) names_validD[OF assms(2)] m] cov
    by (simp only: groupWSAs_def option.simps)
qed

lemma accounts_bound_covering:
  assumes "order_ok \<omega>" "names_valid rs" "r \<in> set rs"
  shows "accounts_bound (wsaToSANames_of \<omega> (scopeMap_of \<omega> rs)) (GetNamespacedName r) =
    account_of \<omega> rs ` {s. r \<in> covering rs s}"
proof -
  let ?sm = "scopeMap_of \<omega> rs"
  have dom: "dom (map_of ?sm) = {s. covering rs s \<noteq> {}}"
    using scopeMap_dom[OF assms(1)] by blast
  have "accounts_bound (wsaToSANames_of \<omega> ?sm) (GetNamespacedName r) =
      {groupName \<omega> (group_of \<omega> ?sm s) | s. covering rs s \<noteq> {} \<and>
        GetNamespacedName r \<in> dom (map_of (groupWSAs ?sm (group_of \<omega> ?sm s)))}"
    unfolding accounts_bound_eq[OF assms(1)] groupList_group_of[OF assms(1)] dom by blast
  also have "\<dots> = {account_of \<omega> rs s | s. covering rs s \<noteq> {} \<and> r \<in> covering rs s}"
    using groupWSAs_keys[OF assms(1,2)] covering_key_iff[OF names_validD[OF assms(2)] assms(3)]
    unfolding account_of_def by blast
  also have "\<dots> = account_of \<omega> rs ` {s. r \<in> covering rs s}" by blast
  finally show ?thesis .
qed

lemma GetServiceAccountForScope_eq:
  assumes "order_ok \<omega>"
  shows "GetServiceAccountForScope
      (NewScopeComputationService (vocab_of rs) (scopeToSA_of \<omega> (scopeMap_of \<omega> rs))) p =
    (let s = GetKnownScopeCombination (vocab_of rs) p
     in if covering rs s \<noteq> {} then (account_of \<omega> rs s, None) else ([], None))"
  by (simp only: GetServiceAccountForScope_def NewScopeComputationService_def
      ScopeComputationService.simps Let_def scopeToSA_account[OF assms] split: if_split) simp

lemma covering_known:
  "no_wildcard rs \<Longrightarrow> covering rs (GetKnownScopeCombination (vocab_of rs) p) = {r \<in> set rs. wsa_matches r p}"
  using covers_known_iff by (auto simp: covering_def)

section \<open>Determinism\<close>

lemma collectDimension_eq:
  assumes "order_ok \<omega>"
  shows "collectDimension \<omega> f ss = sorted_list_of_set (f ` set ss - {[], WildcardValue})"
proof -
  let ?fold = "fold (\<lambda>s acc. if f s \<noteq> [] \<and> f s \<noteq> WildcardValue then List.insert (f s) acc else acc) ss []"
  have "?fold = fold (\<lambda>s. List.insert (f s)) (filter (\<lambda>s. f s \<noteq> [] \<and> f s \<noteq> WildcardValue) ss) []"
    by (rule fold_if_filter)
  also have "\<dots> = set_From (map f (filter (\<lambda>s. f s \<noteq> [] \<and> f s \<noteq> WildcardValue) ss))"
    by (simp add: set_From_def fold_map comp_def)
  finally have fold: "?fold = set_From (map f (filter (\<lambda>s. f s \<noteq> [] \<and> f s \<noteq> WildcardValue) ss))" .
  have "set ?fold = f ` set ss - {[], WildcardValue}" unfolding fold by auto
  moreover have "distinct ?fold" unfolding fold by simp
  ultimately show ?thesis
    by (simp only: collectDimension_def sort_distinct_set permuting_distinct[OF order_okD(1)[OF assms]]
        permuting_set[OF order_okD(1)[OF assms]])
qed

lemma groupName_cong:
  "order_ok \<omega> \<Longrightarrow> order_ok \<omega>' \<Longrightarrow> set ss = set ss' \<Longrightarrow> groupName \<omega> ss = groupName \<omega>' ss'"
  by (simp add: groupName_def collectDimensionValues_def collectDimension_eq)

lemma covers_cong:
  assumes "set rs = set rs'"
  shows "covers (vocab_of rs) r s = covers (vocab_of rs') r s"
proof -
  have "set (vocab_of rs ! d) = set (vocab_of rs' ! d)" if "d < MaxDimensionIndex" for d
    using that assms by (simp add: vocabulary_nth)
  then show ?thesis by (simp add: covers_def)
qed

lemma covering_cong:
  assumes "set rs = set rs'"
  shows "covering rs s = covering rs' s"
  using assms by (simp add: covering_def covers_cong[OF assms])

lemma account_of_cong:
  assumes "order_ok \<omega>" "order_ok \<omega>'" "names_valid rs" "names_valid rs'" "set rs = set rs'"
    and "covering rs s \<noteq> {}"
  shows "account_of \<omega> rs s = account_of \<omega>' rs' s"
proof -
  note cov = covering_cong[OF assms(5)]
  have "set (group_of \<omega> (scopeMap_of \<omega> rs) s) = set (group_of \<omega>' (scopeMap_of \<omega>' rs') s)"
    by (simp only: set_group_of[OF assms(1,3,6)] set_group_of[OF assms(2,4) assms(6)[unfolded cov]] cov)
  then show ?thesis
    unfolding account_of_def by (rule groupName_cong[OF assms(1,2)])
qed

lemma scopeToSA_cong:
  assumes "order_ok \<omega>" and "order_ok \<omega>'"
    and "names_valid rs" and "names_valid rs'" and "set rs = set rs'"
  shows "map_of (scopeToSA_of \<omega> (scopeMap_of \<omega> rs)) = map_of (scopeToSA_of \<omega>' (scopeMap_of \<omega>' rs'))"
proof
  fix s
  show "map_of (scopeToSA_of \<omega> (scopeMap_of \<omega> rs)) s = map_of (scopeToSA_of \<omega>' (scopeMap_of \<omega>' rs')) s"
    unfolding scopeToSA_account[OF assms(1)] scopeToSA_account[OF assms(2)]
    using covering_cong[OF assms(5)] account_of_cong[OF assms] by simp
qed

lemma known_cong:
  assumes "set rs = set rs'"
  shows "GetKnownScopeCombination (vocab_of rs) p = GetKnownScopeCombination (vocab_of rs') p"
proof -
  have "set (vocab_of rs ! d) = set (vocab_of rs' ! d)" if "d < MaxDimensionIndex" for d
    using that assms by (simp add: vocabulary_nth)
  then show ?thesis by (simp add: GetKnownScopeCombination_def)
qed

text \<open>The answers of the resolver depend on the set of resources only.\<close>

lemma resolver_cong:
  assumes "order_ok \<omega>" "order_ok \<omega>'" "names_valid rs" "names_valid rs'" "set rs = set rs'"
  shows "GetServiceAccountForScope
      (NewScopeComputationService (vocab_of rs) (scopeToSA_of \<omega> (scopeMap_of \<omega> rs))) p =
    GetServiceAccountForScope
      (NewScopeComputationService (vocab_of rs') (scopeToSA_of \<omega>' (scopeMap_of \<omega>' rs'))) p"
  unfolding GetServiceAccountForScope_eq[OF assms(1)] GetServiceAccountForScope_eq[OF assms(2)]
    known_cong[OF assms(5)] Let_def
  using covering_cong[OF assms(5)] account_of_cong[OF assms] by simp

text \<open>
  C11. Replicas agree: which account a deployment resolves to, and the map from scopes to accounts behind it,
  depend only on the set of resources in the cluster. Neither the order in which the API server lists them nor
  any iteration order of Go's maps and sets changes them, so replicas need no coordination.
\<close>

theorem replicas_agree:
  assumes "order_ok \<omega>" and "order_ok \<omega>'"
    and "names_valid rs" and "names_valid rs'" and "set rs = set rs'"
  shows "(let (scopeMap, vocabulary) = ComputeScopesForWSAs \<omega> rs; (scopeMap', vocabulary') = ComputeScopesForWSAs \<omega>' rs';
      scopeToSA = fst (GenerateServiceAccountMappings \<omega> scopeMap); scopeToSA' = fst (GenerateServiceAccountMappings \<omega>' scopeMap')
    in map_of scopeToSA = map_of scopeToSA' \<and>
       (\<forall>p. GetServiceAccountForScope (NewScopeComputationService vocabulary scopeToSA) p =
            GetServiceAccountForScope (NewScopeComputationService vocabulary' scopeToSA') p))"
  using scopeToSA_cong[OF assms] resolver_cong[OF assms] by (simp add: ComputeScopesForWSAs_def Let_def)

text \<open>The map from accounts to resources mentions the given resources only.\<close>

lemma saToWSAs_keys:
  assumes "order_ok \<omega>" "names_valid rs" "(sa, m) \<in> set (saToWSAs_of \<omega> (scopeMap_of \<omega> rs))"
  shows "dom (map_of m) \<subseteq> GetNamespacedName ` set rs"
proof -
  let ?sm = "scopeMap_of \<omega> rs"
  let ?puts = "fold (\<lambda>g. map_put (groupName \<omega> g) (groupWSAs ?sm g)) (groupList \<omega> ?sm) []"
  have eq: "saToWSAs_of \<omega> ?sm = ?puts"
    by (simp add: GenerateServiceAccountMappings_def Let_def serviceAccountToWSAs_all)
  have "map_wf ?puts" by (intro map_wf_fold_put) simp
  then have "map_of ?puts sa = Some m" using assms(3) map_wf_in_set eq by metis
  from fold_put_origin[OF this] obtain g where g: "g \<in> set (groupList \<omega> ?sm)" "m = groupWSAs ?sm g"
    by auto
  then obtain s where s: "s \<in> dom (map_of ?sm)" "g = group_of \<omega> ?sm s"
    using groupList_group_of[OF assms(1)] by blast
  then have "covering rs s \<noteq> {}" using scopeMap_dom[OF assms(1)] by blast
  with g s groupWSAs_keys[OF assms(1,2) this] show ?thesis by (auto simp: covering_def)
qed

text \<open>No resource is without a scope.\<close>

lemma covers_some: "r \<in> set rs \<Longrightarrow> \<exists>s. r \<in> covering rs s"
proof -
  assume r: "r \<in> set rs"
  let ?v = "\<lambda>d. if scopeSlices r ! d = [] then WildcardValue else hd (scopeSlices r ! d)"
  let ?s = "\<lparr>Project = ?v 0, ProjectGroup = ?v 1, Environment = ?v 2, Tenant = ?v 3, Step = ?v 4, Space = ?v 5\<rparr>"
  have "covers (vocab_of rs) r ?s"
    by (simp add: covers_def all_dims scope_dims_def)
  with r show ?thesis by (auto simp: covering_def)
qed

section \<open>Names determine the collected values\<close>

text \<open>
  The values that the schema's pattern admits: non-empty and free of the characters that the
  canonical name string uses as separators, and of the wildcard.
\<close>

definition slug :: "string \<Rightarrow> bool" where
  "slug x \<longleftrightarrow> x \<noteq> [] \<and> CHR ''*'' \<notin> set x \<and> CHR ''+'' \<notin> set x \<and> CHR ''|'' \<notin> set x"

definition slugs :: "WSAResource list \<Rightarrow> bool" where
  "slugs rs \<longleftrightarrow> (\<forall>r \<in> set rs. \<forall>d < MaxDimensionIndex. \<forall>x \<in> set (scopeSlices r ! d). slug x)"

lemma slug_not_special: "slug x \<Longrightarrow> x \<noteq> [] \<and> x \<noteq> WildcardValue"
  by (auto simp: slug_def WildcardValue_def)

lemma slugs_no_wildcard: "slugs rs \<Longrightarrow> no_wildcard rs"
  using slug_not_special by (auto simp: slugs_def no_wildcard_def)

definition grouped_slugs :: "GroupedDimensions \<Rightarrow> bool" where
  "grouped_slugs g \<longleftrightarrow> (\<forall>x \<in> set (gProjects g) \<union> set (gProjectGroups g) \<union> set (gEnvironments g) \<union>
     set (gTenants g) \<union> set (gSteps g) \<union> set (gSpaces g). slug x)"

definition part :: "string \<Rightarrow> string list \<Rightarrow> string list" where
  "part p vs = (if vs = [] then [] else [p @ strings_Join vs ''+''])"

definition pick :: "string \<Rightarrow> string list \<Rightarrow> string list" where
  "pick p xs = filter (\<lambda>x. take (length p) x = p) xs"

lemma part_inject:
  assumes "part p vs = part p vs'" and "\<forall>x \<in> set vs \<union> set vs'. slug x"
  shows "vs = vs'"
proof (cases "vs = [] \<or> vs' = []")
  case True
  with assms(1) show ?thesis by (auto simp: part_def split: if_splits)
next
  case False
  with assms(1) have "strings_Join vs ''+'' = strings_Join vs' ''+''"
    by (simp add: part_def)
  then show ?thesis
    by (rule strings_Join_inject[rotated]) (use assms(2) in \<open>auto simp: slug_def\<close>)
qed

lemma groupedParts_eq:
  "groupedParts g =
     (let parts = part ''spaces:'' (gSpaces g) @ part ''projects:'' (gProjects g) @
        part ''projectgroups:'' (gProjectGroups g) @ part ''environments:'' (gEnvironments g) @
        part ''tenants:'' (gTenants g) @ part ''steps:'' (gSteps g)
      in if parts = [] then [''wildcard''] else parts)"
  by (simp add: groupedParts_def part_def Let_def)

lemma pick_groupedParts:
  "pick ''spaces:'' (groupedParts g) = part ''spaces:'' (gSpaces g)"
  "pick ''projects:'' (groupedParts g) = part ''projects:'' (gProjects g)"
  "pick ''projectgroups:'' (groupedParts g) = part ''projectgroups:'' (gProjectGroups g)"
  "pick ''environments:'' (groupedParts g) = part ''environments:'' (gEnvironments g)"
  "pick ''tenants:'' (groupedParts g) = part ''tenants:'' (gTenants g)"
  "pick ''steps:'' (groupedParts g) = part ''steps:'' (gSteps g)"
  by (simp_all add: groupedParts_eq pick_def part_def Let_def)

lemma set_strings_Join: "set (strings_Join xs sep) \<subseteq> \<Union> (set ` set xs) \<union> set sep"
  by (induction xs sep rule: strings_Join.induct) auto

lemma part_no_bar:
  assumes "x \<in> set (part p vs)" "p \<noteq> []" "CHR ''|'' \<notin> set p" "\<forall>x \<in> set vs. slug x"
  shows "x \<noteq> [] \<and> CHR ''|'' \<notin> set x"
proof -
  have x: "x = p @ strings_Join vs ''+''" using assms(1) by (auto simp: part_def split: if_splits)
  have "CHR ''|'' \<notin> set (strings_Join vs ''+'')"
    using set_strings_Join[of vs "''+''"] assms(4) by (auto simp: slug_def)
  with x assms(2,3) show ?thesis by simp
qed

lemma in_set_default: "x \<in> set (if ps = [] then [w] else ps) \<Longrightarrow> x = w \<or> x \<in> set ps"
  by (simp split: if_splits)

lemma groupedParts_no_bar:
  assumes "grouped_slugs g" "x \<in> set (groupedParts g)"
  shows "x \<noteq> [] \<and> CHR ''|'' \<notin> set x"
proof -
  consider "x = ''wildcard''" | "x \<in> set (part ''spaces:'' (gSpaces g))"
    | "x \<in> set (part ''projects:'' (gProjects g))"
    | "x \<in> set (part ''projectgroups:'' (gProjectGroups g))"
    | "x \<in> set (part ''environments:'' (gEnvironments g))"
    | "x \<in> set (part ''tenants:'' (gTenants g))" | "x \<in> set (part ''steps:'' (gSteps g))"
    using in_set_default[OF assms(2)[unfolded groupedParts_eq Let_def]]
    unfolding set_append Un_iff by blast
  then show ?thesis
    by cases (simp, (erule part_no_bar; use assms(1) in \<open>simp add: grouped_slugs_def\<close>)+)
qed

lemma scopeString_inject:
  assumes "grouped_slugs g" "grouped_slugs g'" "scopeString g = scopeString g'"
  shows "g = g'"
proof -
  have "groupedParts g = groupedParts g'"
    using assms(3) groupedParts_no_bar[OF assms(1)] groupedParts_no_bar[OF assms(2)]
    unfolding scopeString_def by (intro strings_Join_inject[of _ _ "CHR ''|''"]) auto
  then have "part ''spaces:'' (gSpaces g) = part ''spaces:'' (gSpaces g')"
    "part ''projects:'' (gProjects g) = part ''projects:'' (gProjects g')"
    "part ''projectgroups:'' (gProjectGroups g) = part ''projectgroups:'' (gProjectGroups g')"
    "part ''environments:'' (gEnvironments g) = part ''environments:'' (gEnvironments g')"
    "part ''tenants:'' (gTenants g) = part ''tenants:'' (gTenants g')"
    "part ''steps:'' (gSteps g) = part ''steps:'' (gSteps g')"
    by (metis pick_groupedParts(1), metis pick_groupedParts(2), metis pick_groupedParts(3),
        metis pick_groupedParts(4), metis pick_groupedParts(5), metis pick_groupedParts(6))
  then have "gSpaces g = gSpaces g'" "gProjects g = gProjects g'" "gProjectGroups g = gProjectGroups g'"
    "gEnvironments g = gEnvironments g'" "gTenants g = gTenants g'" "gSteps g = gSteps g'"
    using assms(1,2) by (auto simp: grouped_slugs_def elim!: part_inject)
  then show ?thesis by (simp add: GroupedDimensions.equality)
qed

section \<open>When groups share a name\<close>

definition dim_vals :: "Scope set \<Rightarrow> DimensionIndex \<Rightarrow> string set" where
  "dim_vals S d = (\<lambda>s. scope_dims s ! d) ` S - {[], WildcardValue}"

lemma set_collectDimension:
  "order_ok \<omega> \<Longrightarrow> set (collectDimension \<omega> f ss) = f ` set ss - {[], WildcardValue}"
  by (simp add: collectDimension_eq)

lemma collect_dim_vals:
  assumes "order_ok \<omega>" "collectDimensionValues \<omega> g = collectDimensionValues \<omega> g'" "d < MaxDimensionIndex"
  shows "dim_vals (set g) d = dim_vals (set g') d"
proof -
  have "set (collectDimension \<omega> f g) = set (collectDimension \<omega> f g')"
    if "f \<in> {Project, ProjectGroup, Environment, Tenant, Step, Space}" for f
    using that assms(2) by (auto simp: collectDimensionValues_def)
  then have "f ` set g - {[], WildcardValue} = f ` set g' - {[], WildcardValue}"
    if "f \<in> {Project, ProjectGroup, Environment, Tenant, Step, Space}" for f
    using that by (simp only: set_collectDimension[OF assms(1)])
  with less_Max_cases[OF assms(3)] show ?thesis
    by (elim disjE) (simp_all add: dim_vals_def scope_dims_def)
qed

lemma covers_dim:
  assumes "covers (vocab_of rs) r s" "r \<in> set rs" "d < MaxDimensionIndex"
  shows "scope_dims s ! d \<in> insert WildcardValue (set (vocab_of rs ! d))"
    and "scopeSlices r ! d \<noteq> [] \<Longrightarrow> scope_dims s ! d \<in> set (scopeSlices r ! d)"
proof -
  have *: "if scopeSlices r ! d = [] then scope_dims s ! d \<in> insert WildcardValue (set (vocab_of rs ! d))
    else scope_dims s ! d \<in> set (scopeSlices r ! d)"
    using assms(1,3) unfolding covers_def by blast
  then show "scope_dims s ! d \<in> insert WildcardValue (set (vocab_of rs ! d))"
    using assms(2,3) by (auto simp: vocabulary_nth split: if_splits)
  show "scopeSlices r ! d \<noteq> [] \<Longrightarrow> scope_dims s ! d \<in> set (scopeSlices r ! d)"
    using * by simp
qed

text \<open>Every value of a covered scope is the wildcard or a slug.\<close>

lemma covering_values:
  assumes "slugs rs" "covering rs s \<noteq> {}" "d < MaxDimensionIndex"
  shows "scope_dims s ! d = WildcardValue \<or> slug (scope_dims s ! d)"
proof -
  obtain r where r: "r \<in> set rs" "covers (vocab_of rs) r s"
    using assms(2) by (auto simp: covering_def)
  with covers_dim(1)[OF r(2,1) assms(3)] assms(1,3) show ?thesis
    by (auto simp: vocabulary_nth slugs_def)
qed

definition restricts :: "WSAResource \<Rightarrow> DimensionIndex \<Rightarrow> bool" where
  "restricts r d \<longleftrightarrow> d < MaxDimensionIndex \<and> scopeSlices r ! d \<noteq> []"

lemma not_covering_dim:
  assumes "slugs rs" "r \<in> set rs" "covering rs s \<noteq> {}" "r \<notin> covering rs s"
  shows "\<exists>d. restricts r d \<and> scope_dims s ! d \<notin> set (scopeSlices r ! d)"
proof -
  obtain d where d: "d < MaxDimensionIndex" and no: "\<not> (if scopeSlices r ! d = []
      then scope_dims s ! d \<in> insert WildcardValue (set (vocab_of rs ! d))
      else scope_dims s ! d \<in> set (scopeSlices r ! d))"
    using assms(2,4) by (auto simp: covering_def covers_def)
  obtain r' where r': "r' \<in> set rs" "covers (vocab_of rs) r' s"
    using assms(3) by (auto simp: covering_def)
  from covers_dim(1)[OF r'(2,1) d] d no show ?thesis by (auto simp: restricts_def split: if_splits)
qed

text \<open>
  Two groups with the same collected values can only differ in resources that constrain two
  dimensions: such a resource covers one group and none of the other, because the wildcard in one
  dimension hides that the value of the other is missing.
\<close>

lemma clash_needs_two_dimensions:
  assumes "slugs rs" "r \<in> covering rs t" "covering rs s \<noteq> {}" "r \<notin> covering rs s"
    and same: "\<And>d. d < MaxDimensionIndex \<Longrightarrow> dim_vals {u. covering rs u = covering rs s} d =
           dim_vals {u. covering rs u = covering rs t} d"
  shows "\<exists>d d'. d \<noteq> d' \<and> restricts r d \<and> restricts r d'"
proof -
  let ?S = "{u. covering rs u = covering rs s}" and ?T = "{u. covering rs u = covering rs t}"
  have r: "r \<in> set rs" using assms(2) by (simp add: covering_def)
  have T: "dim_vals ?T d \<subseteq> set (scopeSlices r ! d)" if "restricts r d" for d
  proof -
    have "scope_dims u ! d \<in> set (scopeSlices r ! d)" if "covering rs u = covering rs t" for u
      using that assms(2) \<open>restricts r d\<close> covers_dim(2)[of rs r u d]
      by (auto simp: covering_def restricts_def)
    then show ?thesis by (auto simp: dim_vals_def)
  qed
  from not_covering_dim[OF assms(1) r assms(3,4)]
  obtain d where d: "restricts r d" "scope_dims s ! d \<notin> set (scopeSlices r ! d)" by blast
  then have dM: "d < MaxDimensionIndex" by (simp add: restricts_def)
  have "scope_dims t ! d \<in> set (scopeSlices r ! d)"
    using assms(2) d(1) covers_dim(2)[of rs r t d] by (auto simp: covering_def restricts_def)
  then have "scope_dims t ! d \<in> dim_vals ?T d"
    using assms(1) r dM slug_not_special by (auto simp: dim_vals_def slugs_def)
  then have "scope_dims t ! d \<in> dim_vals ?S d" using same[OF dM] by simp
  then obtain u where u: "covering rs u = covering rs s" "scope_dims u ! d = scope_dims t ! d"
    by (auto simp: dim_vals_def)
  then obtain d' where d': "restricts r d'" "scope_dims u ! d' \<notin> set (scopeSlices r ! d')"
    using not_covering_dim[OF assms(1) r, of u] assms(3,4) by auto
  with \<open>scope_dims t ! d \<in> set (scopeSlices r ! d)\<close> u(2) have "d \<noteq> d'" by auto
  with d(1) d'(1) show ?thesis by blast
qed

definition single_dimension :: "WSAResource \<Rightarrow> bool" where
  "single_dimension r \<longleftrightarrow> (\<forall>d d'. restricts r d \<longrightarrow> restricts r d' \<longrightarrow> d = d')"

text \<open>The strings hashed into the names of the accounts of a list of resources.\<close>

definition name_strings :: "go_order \<Rightarrow> WSAResource list \<Rightarrow> string set" where
  "name_strings \<omega> rs = (\<lambda>g. scopeString (collectDimensionValues \<omega> g)) ` set (groupList \<omega> (scopeMap_of \<omega> rs))"

text \<open>
  A set of strings that contains them for every listing and every iteration order: those made of
  values that the resources use.
\<close>

definition values_of :: "WSAResource set \<Rightarrow> DimensionIndex \<Rightarrow> string set" where
  "values_of R d = (\<Union>r \<in> R. set (scopeSlices r ! d))"

definition ordered_subset :: "string list \<Rightarrow> string set \<Rightarrow> bool" where
  "ordered_subset xs A \<longleftrightarrow> sorted xs \<and> distinct xs \<and> set xs \<subseteq> A"

definition possible_names :: "WSAResource set \<Rightarrow> string set" where
  "possible_names R = scopeString ` {g.
     ordered_subset (gProjects g) (values_of R ProjectIndex) \<and>
     ordered_subset (gProjectGroups g) (values_of R ProjectGroupIndex) \<and>
     ordered_subset (gEnvironments g) (values_of R EnvironmentIndex) \<and>
     ordered_subset (gTenants g) (values_of R TenantIndex) \<and>
     ordered_subset (gSteps g) (values_of R StepIndex) \<and>
     ordered_subset (gSpaces g) (values_of R SpaceIndex)}"

lemma name_strings_possible:
  assumes "order_ok \<omega>" "names_valid rs"
  shows "name_strings \<omega> rs \<subseteq> possible_names (set rs)"
proof -
  have vals: "ordered_subset (collectDimension \<omega> f g) (values_of (set rs) d)"
    if g: "g \<in> set (groupList \<omega> (scopeMap_of \<omega> rs))" and d: "d < MaxDimensionIndex" "f = (\<lambda>s. scope_dims s ! d)" for g f d
  proof -
    obtain s where s: "g = group_of \<omega> (scopeMap_of \<omega> rs) s" "covering rs s \<noteq> {}"
      using g groupList_group_of[OF assms(1)] scopeMap_dom[OF assms(1)] by (metis imageE)
    have "scope_dims u ! d \<in> insert WildcardValue (values_of (set rs) d)" if "u \<in> set g" for u
    proof -
      have "covering rs u \<noteq> {}" using that s set_group_of[OF assms s(2)] by auto
      then obtain r where "r \<in> set rs" "covers (vocab_of rs) r u" by (auto simp: covering_def)
      from covers_dim(1)[OF this(2,1) d(1)] show ?thesis
        using d(1) by (auto simp: vocabulary_nth values_of_def)
    qed
    then have "f ` set g - {[], WildcardValue} \<subseteq> values_of (set rs) d" unfolding d(2) by blast
    then show ?thesis by (simp add: ordered_subset_def collectDimension_eq[OF assms(1)])
  qed
  show ?thesis
  proof
    fix x assume "x \<in> name_strings \<omega> rs"
    then obtain g where g: "g \<in> set (groupList \<omega> (scopeMap_of \<omega> rs))" "x = scopeString (collectDimensionValues \<omega> g)"
      by (auto simp: name_strings_def)
    from vals[OF g(1), of ProjectIndex] vals[OF g(1), of ProjectGroupIndex] vals[OF g(1), of EnvironmentIndex]
      vals[OF g(1), of TenantIndex] vals[OF g(1), of StepIndex] vals[OF g(1), of SpaceIndex]
    show "x \<in> possible_names (set rs)"
      unfolding possible_names_def g(2)
      by (intro imageI) (simp add: collectDimensionValues_def scope_dims_def)
  qed
qed

lemma grouped_slugs_group:
  assumes "order_ok \<omega>" "names_valid rs" "slugs rs" "covering rs s \<noteq> {}"
  shows "grouped_slugs (collectDimensionValues \<omega> (group_of \<omega> (scopeMap_of \<omega> rs) s))"
proof -
  let ?g = "group_of \<omega> (scopeMap_of \<omega> rs) s"
  have "slug x" if "d < MaxDimensionIndex" "x \<in> (\<lambda>u. scope_dims u ! d) ` set ?g - {[], WildcardValue}" for x d
  proof -
    from that(2) obtain u where u: "u \<in> set ?g" "x = scope_dims u ! d" "x \<noteq> WildcardValue" by auto
    then have "covering rs u \<noteq> {}"
      using assms(4) by (simp only: set_group_of[OF assms(1,2,4)] mem_Collect_eq) simp
    with covering_values[OF assms(3) _ that(1)] u show ?thesis by auto
  qed
  from this[of ProjectIndex] this[of ProjectGroupIndex] this[of EnvironmentIndex]
    this[of TenantIndex] this[of StepIndex] this[of SpaceIndex]
  show ?thesis
    by (simp add: grouped_slugs_def collectDimensionValues_def set_collectDimension[OF assms(1)]
        scope_dims_def ball_Un)
qed

lemma account_of_inject:
  assumes "order_ok \<omega>" "names_valid rs" "slugs rs" "inj_on shortHash (name_strings \<omega> rs)"
    and "covering rs s \<noteq> {}" "covering rs t \<noteq> {}" "account_of \<omega> rs s = account_of \<omega> rs t"
    and "d < MaxDimensionIndex"
  shows "dim_vals {u. covering rs u = covering rs s} d = dim_vals {u. covering rs u = covering rs t} d"
proof -
  let ?sm = "scopeMap_of \<omega> rs"
  let ?c = "\<lambda>s. collectDimensionValues \<omega> (group_of \<omega> ?sm s)"
  have "group_of \<omega> ?sm u \<in> set (groupList \<omega> ?sm)" if "covering rs u \<noteq> {}" for u
    unfolding groupList_group_of[OF assms(1)] using that scopeMap_dom[OF assms(1)] by blast
  then have "scopeString (?c s) \<in> name_strings \<omega> rs" "scopeString (?c t) \<in> name_strings \<omega> rs"
    using assms(5,6) by (auto simp: name_strings_def)
  moreover have "shortHash (scopeString (?c s)) = shortHash (scopeString (?c t))"
    using assms(7) by (simp add: account_of_def groupName_def generateGroupedServiceAccountName_def)
  ultimately have "scopeString (?c s) = scopeString (?c t)"
    using assms(4) by (meson inj_onD)
  then have "?c s = ?c t"
    using grouped_slugs_group[OF assms(1,2,3)] assms(5,6) by (intro scopeString_inject)
  from collect_dim_vals[OF assms(1) this assms(8)] show ?thesis
    by (simp only: set_group_of[OF assms(1,2,5)] set_group_of[OF assms(1,2,6)])
qed

lemma account_of_covering:
  assumes "order_ok \<omega>" "names_valid rs" "slugs rs" "inj_on shortHash (name_strings \<omega> rs)"
    and "\<forall>r \<in> set rs. single_dimension r"
    and "covering rs s \<noteq> {}" "r \<in> covering rs t" "account_of \<omega> rs s = account_of \<omega> rs t"
  shows "r \<in> covering rs s"
proof (rule ccontr)
  assume "r \<notin> covering rs s"
  have "covering rs t \<noteq> {}" using assms(7) by blast
  from clash_needs_two_dimensions[OF assms(3,7,6) \<open>r \<notin> covering rs s\<close>
      account_of_inject[OF assms(1-4,6) this assms(8)]]
  obtain d d' where "d \<noteq> d'" "restricts r d" "restricts r d'" by blast
  moreover have "r \<in> set rs" using assms(7) by (simp add: covering_def)
  ultimately show False using assms(5) by (auto simp: single_dimension_def)
qed

section \<open>What a deployment gets\<close>

text \<open>The resolver that a replica holds after computing the mappings of \<open>rs\<close>.\<close>

abbreviation resolver :: "go_order \<Rightarrow> WSAResource list \<Rightarrow> ScopeComputationService" where
  "resolver \<omega> rs \<equiv> NewScopeComputationService (snd (ComputeScopesForWSAs \<omega> rs))
     (fst (GenerateServiceAccountMappings \<omega> (fst (ComputeScopesForWSAs \<omega> rs))))"

abbreviation bound_names :: "go_order \<Rightarrow> WSAResource list \<Rightarrow> (NamespacedName, string list) gomap" where
  "bound_names \<omega> rs \<equiv> fst (snd (snd (GenerateServiceAccountMappings \<omega> (fst (ComputeScopesForWSAs \<omega> rs)))))"

lemma resolver_eq:
  assumes "order_ok \<omega>" "no_wildcard rs"
  shows "GetServiceAccountForScope (resolver \<omega> rs) p =
    (if \<exists>r \<in> set rs. wsa_matches r p
     then (account_of \<omega> rs (GetKnownScopeCombination (vocab_of rs) p), None) else ([], None))"
  unfolding ComputeScopes_snd GetServiceAccountForScope_eq[OF assms(1)] Let_def
    covering_known[OF assms(2)] by auto

lemma account_of_not_Nil [simp]: "account_of \<omega> rs s \<noteq> []"
  by (simp add: account_of_def groupName_def generateGroupedServiceAccountName_def)

lemma deployment_bound:
  assumes "order_ok \<omega>" "names_valid rs" "no_wildcard rs" "r \<in> set rs" "wsa_matches r p"
  shows "fst (GetServiceAccountForScope (resolver \<omega> rs) p)
           \<in> accounts_bound (bound_names \<omega> rs) (GetNamespacedName r)"
proof -
  have "fst (GetServiceAccountForScope (resolver \<omega> rs) p) =
      account_of \<omega> rs (GetKnownScopeCombination (vocab_of rs) p)"
    using assms(4,5) by (auto simp: resolver_eq[OF assms(1,3)])
  moreover have "r \<in> covering rs (GetKnownScopeCombination (vocab_of rs) p)"
    using assms(4,5) by (simp add: covering_known[OF assms(3)])
  ultimately show ?thesis
    unfolding accounts_bound_covering[OF assms(1,2,4)] by blast
qed

lemma account_separates:
  assumes "order_ok \<omega>" "names_valid rs" "slugs rs" "\<forall>r \<in> set rs. single_dimension r"
    and "inj_on shortHash (name_strings \<omega> rs)" "fst (GetServiceAccountForScope (resolver \<omega> rs) p) = n"
    and "n \<noteq> []" "r \<in> set rs" "n \<in> accounts_bound (bound_names \<omega> rs) (GetNamespacedName r)"
  shows "wsa_matches r p"
proof -
  let ?s = "GetKnownScopeCombination (vocab_of rs) p"
  note cov = covering_known[OF slugs_no_wildcard[OF assms(3)], of p]
  have n: "n = account_of \<omega> rs ?s" and s: "covering rs ?s \<noteq> {}"
    using assms(6,7) by (auto simp: resolver_eq[OF assms(1) slugs_no_wildcard[OF assms(3)]] cov
        split: if_splits)
  obtain t where "r \<in> covering rs t" "account_of \<omega> rs ?s = account_of \<omega> rs t"
    using assms(9) unfolding accounts_bound_covering[OF assms(1,2,8)] n by blast
  then have "r \<in> covering rs ?s"
    using account_of_covering[OF assms(1-3,5,4) s] by blast
  then show "wsa_matches r p" by (simp add: cov)
qed

text \<open>
  Completeness: the service account found for a deployment is one of the accounts that are
  bound to the roles of every resource whose constraints the deployment satisfies.
\<close>

theorem deployment_gets_all_matching:
  assumes "order_ok \<omega>" and "names_valid rs" and "no_wildcard rs"
    and "r \<in> set rs" and "wsa_matches r p"
  shows "fst (GetServiceAccountForScope (resolver \<omega> rs) p)
           \<in> accounts_bound (bound_names \<omega> rs) (GetNamespacedName r)"
  by (rule deployment_bound[OF assms])

text \<open>
  A deployment gets no service account exactly when it matches no resource (the pod then
  keeps its own account); looking up never fails.
\<close>

theorem deployment_unmatched_iff:
  assumes "order_ok \<omega>" and "no_wildcard rs"
  shows "GetServiceAccountForScope (resolver \<omega> rs) p = ([], None) \<longleftrightarrow>
           (\<forall>r \<in> set rs. \<not> wsa_matches r p)"
  unfolding resolver_eq[OF assms] by (auto split: if_splits)

text \<open>
  Least privilege: when every resource constrains at most one dimension and SHA-256 does not
  collide on the canonical name strings at hand, the account of a deployment is bound to the roles
  of exactly the resources that the deployment matches.
\<close>

theorem least_privilege:
  assumes "order_ok \<omega>" and "names_valid rs" and "slugs rs"
    and "\<forall>r \<in> set rs. single_dimension r" and "inj_on shortHash (name_strings \<omega> rs)"
    and "fst (GetServiceAccountForScope (resolver \<omega> rs) p) = n" and "n \<noteq> []" and "r \<in> set rs"
  shows "n \<in> accounts_bound (bound_names \<omega> rs) (GetNamespacedName r) \<longleftrightarrow> wsa_matches r p"
proof
  assume "wsa_matches r p"
  then show "n \<in> accounts_bound (bound_names \<omega> rs) (GetNamespacedName r)"
    using deployment_bound[OF assms(1,2) slugs_no_wildcard[OF assms(3)] assms(8)] assms(6) by blast
next
  assume "n \<in> accounts_bound (bound_names \<omega> rs) (GetNamespacedName r)"
  then show "wsa_matches r p" using assms(7,8) by (intro account_separates[OF assms(1-6)])
qed

section \<open>Examples\<close>

text \<open>Two resources for two projects, and the accounts they get.\<close>

definition two_projects :: "WSAResource list" where
  "two_projects =
     [NewWSAResource (example_wsa ''team'' ''a'' (scope_of [''p1''] []) no_permissions),
      NewWSAResource (example_wsa ''team'' ''b'' (scope_of [''p2''] []) no_permissions)]"

lemmas example_defs = two_projects_def NewWSAResource_def example_wsa_def scope_of_def
  no_permissions_def ObjectMeta_zero_def deployment_def Scope_zero_def

lemma two_projects_valid: "names_valid two_projects"
  by (simp add: names_valid_def keys_distinct_def valid_key_def example_defs)

lemma two_projects_rev_valid: "names_valid (rev two_projects)"
  by (simp add: names_valid_def keys_distinct_def valid_key_def example_defs)

lemma two_projects_slugs: "slugs two_projects"
  by (simp add: slugs_def all_dims slug_def scopeSlices_def example_defs)

lemma two_projects_single: "\<forall>r \<in> set two_projects. single_dimension r"
proof -
  have "restricts r d \<Longrightarrow> d = ProjectIndex" if "r \<in> set two_projects" for r d
    using that less_Max_cases[of d]
    by (auto simp: restricts_def scopeSlices_def example_defs)
  then show ?thesis by (auto simp: single_dimension_def)
qed

lemma two_projects_names: "name_strings order_id two_projects = {''projects:p1'', ''projects:p2''}"
  by code_simp

lemma two_projects_inj: "inj_on shortHash (name_strings order_id two_projects)"
  by (simp add: two_projects_names inj_on_def shortHash_p1 shortHash_p2)

theorem replicas_agree_witness:
  "GetServiceAccountForScope (NewScopeComputationService (snd (ComputeScopesForWSAs order_id two_projects))
      (fst (GenerateServiceAccountMappings order_id (fst (ComputeScopesForWSAs order_id two_projects))))) (deployment ''p1'' ''prod'') =
   GetServiceAccountForScope (NewScopeComputationService (snd (ComputeScopesForWSAs order_rev (rev two_projects)))
      (fst (GenerateServiceAccountMappings order_rev (fst (ComputeScopesForWSAs order_rev (rev two_projects)))))) (deployment ''p1'' ''prod'')"
  using replicas_agree[OF order_ok_id order_ok_rev two_projects_valid two_projects_rev_valid]
  by (simp add: case_prod_beta Let_def)

theorem deployment_gets_all_matching_witness:
  "fst (GetServiceAccountForScope (resolver order_rev two_projects) (deployment ''p1'' ''prod''))
     \<in> accounts_bound (bound_names order_rev two_projects) (GetNamespacedName (hd two_projects))"
proof (rule deployment_gets_all_matching)
  show "hd two_projects \<in> set two_projects" by (simp add: two_projects_def)
  show "wsa_matches (hd two_projects) (deployment ''p1'' ''prod'')"
    by (simp add: wsa_matches_def all_dims scopeSlices_def scope_dims_def example_defs)
qed (simp_all add: two_projects_valid slugs_no_wildcard two_projects_slugs)

theorem deployment_unmatched_iff_witness:
  "GetServiceAccountForScope (resolver order_id two_projects) (deployment ''p3'' ''prod'') = ([], None)"
  using deployment_unmatched_iff[OF order_ok_id slugs_no_wildcard[OF two_projects_slugs],
      of "deployment ''p3'' ''prod''"]
  by (simp add: wsa_matches_def all_dims scopeSlices_def scope_dims_def example_defs)

text \<open>The deployment of project \<open>p1\<close> gets an account that is bound for the first resource only.\<close>

theorem least_privilege_witness:
  "\<exists>n. fst (GetServiceAccountForScope (resolver order_id two_projects) (deployment ''p1'' ''prod'')) = n \<and>
     n \<in> accounts_bound (bound_names order_id two_projects) (GetNamespacedName (two_projects ! 0)) \<and>
     n \<notin> accounts_bound (bound_names order_id two_projects) (GetNamespacedName (two_projects ! 1))"
proof -
  let ?p = "deployment ''p1'' ''prod''"
  let ?n = "fst (GetServiceAccountForScope (resolver order_id two_projects) ?p)"
  have m: "wsa_matches (two_projects ! 0) ?p" "\<not> wsa_matches (two_projects ! 1) ?p"
    by (simp_all add: wsa_matches_def all_dims scopeSlices_def scope_dims_def example_defs)
  have mem: "two_projects ! 0 \<in> set two_projects" "two_projects ! 1 \<in> set two_projects"
    by (simp_all add: two_projects_def)
  then have "?n \<noteq> []"
    using m(1) by (auto simp: resolver_eq[OF order_ok_id slugs_no_wildcard[OF two_projects_slugs]])
  note * = least_privilege[OF order_ok_id two_projects_valid two_projects_slugs two_projects_single
      two_projects_inj refl this]
  show ?thesis using *[OF mem(1)] *[OF mem(2)] m by blast
qed

section \<open>A shared account\<close>

text \<open>
  A resource for a whole space, and one for a single project and environment of that space. The
  deployments of the space that match only the first resource form one group, those that match
  both form another; the values collected from the two groups are the same, so both get the same
  service account, and that account is bound to the roles of both resources.
\<close>

definition clash_broad :: WSAResource where
  "clash_broad = NewWSAResource (example_wsa ''team'' ''broad'' ((scope_of [] [])\<lparr>Spaces := [''s1'']\<rparr>)
     no_permissions)"

definition clash_narrow :: WSAResource where
  "clash_narrow = NewWSAResource (example_wsa ''team'' ''narrow''
     ((scope_of [''p1''] [''e1''])\<lparr>Spaces := [''s1'']\<rparr>) no_permissions)"

definition clash_resources :: "WSAResource list" where
  "clash_resources = [clash_broad, clash_narrow]"

definition clash_pod :: Scope where
  "clash_pod = (deployment ''p1'' ''dev'')\<lparr>Space := ''s1''\<rparr>"

definition clash_target :: Scope where
  "clash_target = \<lparr>Project = ''p1'', ProjectGroup = WildcardValue, Environment = ''e1'',
     Tenant = WildcardValue, Step = WildcardValue, Space = ''s1''\<rparr>"

lemmas clash_defs = clash_broad_def clash_narrow_def clash_resources_def clash_pod_def clash_target_def

lemma clash_valid: "names_valid clash_resources"
  by (simp add: names_valid_def keys_distinct_def valid_key_def clash_defs example_defs)

lemma clash_slugs: "slugs clash_resources"
  by (simp add: slugs_def all_dims slug_def scopeSlices_def clash_defs example_defs)

lemma clash_same_values:
  "collectDimensionValues order_id (group_of order_id (scopeMap_of order_id clash_resources)
      (GetKnownScopeCombination (vocab_of clash_resources) clash_pod)) =
   collectDimensionValues order_id (group_of order_id (scopeMap_of order_id clash_resources) clash_target)"
  by code_simp

lemma clash_covers: "covers (vocab_of clash_resources) clash_narrow clash_target"
  by code_simp

lemma clash_pod_broad: "wsa_matches clash_broad clash_pod"
  by (simp add: wsa_matches_def all_dims scopeSlices_def scope_dims_def clash_defs example_defs)

text \<open>
  C40. Accounts are not always separated: with one resource for a space and another for one project
  and environment in it, a deployment to a different environment does not match the second resource,
  yet for every iteration order it runs as a service account that is bound to that resource's roles.
\<close>

theorem account_shared_across_resources:
  assumes "order_ok \<omega>"
  shows "\<not> wsa_matches clash_narrow clash_pod \<and>
    fst (GetServiceAccountForScope (resolver \<omega> clash_resources) clash_pod)
      \<in> accounts_bound (bound_names \<omega> clash_resources) (GetNamespacedName clash_narrow)"
proof
  show "\<not> wsa_matches clash_narrow clash_pod"
    by (simp add: wsa_matches_def all_dims scopeSlices_def scope_dims_def clash_defs example_defs)
  let ?rs = clash_resources
  let ?s = "GetKnownScopeCombination (vocab_of ?rs) clash_pod"
  note nw = slugs_no_wildcard[OF clash_slugs]
  have mem: "clash_broad \<in> set ?rs" "clash_narrow \<in> set ?rs" by (simp_all add: clash_resources_def)
  have s: "covering ?rs ?s \<noteq> {}"
    using mem(1) clash_pod_broad by (auto simp: covering_known[OF nw])
  have t: "clash_narrow \<in> covering ?rs clash_target"
    using mem(2) clash_covers by (simp add: covering_def)
  then have t': "covering ?rs clash_target \<noteq> {}" by blast
  have "account_of order_id ?rs ?s = account_of order_id ?rs clash_target"
    using clash_same_values by (simp add: account_of_def groupName_def)
  then have eq: "account_of \<omega> ?rs ?s = account_of \<omega> ?rs clash_target"
    using account_of_cong[OF assms order_ok_id clash_valid clash_valid refl s]
      account_of_cong[OF assms order_ok_id clash_valid clash_valid refl t'] by simp
  have "fst (GetServiceAccountForScope (resolver \<omega> ?rs) clash_pod) = account_of \<omega> ?rs ?s"
    using mem(1) clash_pod_broad by (auto simp: resolver_eq[OF assms nw])
  then show "fst (GetServiceAccountForScope (resolver \<omega> ?rs) clash_pod)
      \<in> accounts_bound (bound_names \<omega> ?rs) (GetNamespacedName clash_narrow)"
    unfolding accounts_bound_covering[OF assms clash_valid mem(2)] using eq t by auto
qed

theorem account_shared_across_resources_witness:
  "\<not> wsa_matches clash_narrow clash_pod \<and>
    fst (GetServiceAccountForScope (resolver order_rev clash_resources) clash_pod)
      \<in> accounts_bound (bound_names order_rev clash_resources) (GetNamespacedName clash_narrow)"
  by (rule account_shared_across_resources[OF order_ok_rev])

end
