(* ===== verification/Engine.thy ===== *)
theory Engine
  imports ResourceManagement Isolation
begin

text \<open>
  \<^verbatim>\<open>internal/rules/engine.go\<close> and \<^verbatim>\<open>internal/rules/namespace_discovery.go\<close>: the in-memory state from
  which the webhook answers and against which deletions wait, and its three writers (a batch
  plan, a rebuild from the cluster, a refresh of the scope mappings alone). Each critical section
  under the engine's mutex is one step of the model. Shown: the resolver always answers from the
  published maps; a rebuild publishes the state computed from the live resources; a refresh
  leaves the map that deletions wait on alone; a failed rebuild or refresh changes nothing.
\<close>

section \<open>Namespace discovery\<close>

text \<open>
  The regular expression and the expiring cache are library code: a predicate on strings, and
  two operations on the world.
\<close>

type_synonym regexp = "string \<Rightarrow> bool"

record 'c expirable_LRU =
  lru_Get :: "string \<Rightarrow> 'c \<Rightarrow> string list option \<times> 'c"
  lru_Add :: "string \<Rightarrow> string list \<Rightarrow> 'c \<Rightarrow> 'c"

record NamespaceDiscoveryService =
  TargetNamespaceRegex :: "regexp option"

text \<open>
  A failed listing is logged and treated as an empty one. Calling \<^verbatim>\<open>MatchString\<close> on a nil regular
  expression panics; the panic is written as an error here, and \<open>discovery_no_panic\<close> below shows
  that no engine reaches it.
\<close>

definition nil_dereference :: error where
  "nil_dereference = Errorf ''invalid memory address or nil pointer dereference'' None"

definition DiscoverTargetNamespaces ::
  "go_order \<Rightarrow> NamespaceDiscoveryService \<Rightarrow> 'c client \<Rightarrow> 'c \<Rightarrow> (error + string list) \<times> 'c" where
  "DiscoverTargetNamespaces \<omega> nds k8sClient c =
     (let (res, c') = client_List k8sClient KDeployment [(''app.kubernetes.io/name'', ''octopus-agent'')] c;
          items = (case res of Inl err \<Rightarrow> [] | Inr xs \<Rightarrow> List.map_filter as_Deployment xs);
          namespaceSet = fold (\<lambda>deployment. map_put (om_Namespace deployment) ()) items [];
          order = map fst (go_range (o_string \<omega>) namespaceSet)
      in case TargetNamespaceRegex nds of
           None \<Rightarrow> (if order = [] then Inr [] else Inl nil_dereference, c')
         | Some MatchString \<Rightarrow> (Inr (filter MatchString order), c'))"

section \<open>The engine\<close>

text \<open>
  The embedded interface \<^verbatim>\<open>ResourceManagement\<close> holds either a \<^verbatim>\<open>ResourceManagementService\<close> or a
  pointer to one. The method set of the value does not contain \<^verbatim>\<open>SetGCTracker\<close>, which has a pointer
  receiver.
\<close>

datatype 'c ResourceManagementValue =
    RM_value "'c ResourceManagementService"
  | RM_pointer "'c ResourceManagementService"

fun rm_service :: "'c ResourceManagementValue \<Rightarrow> 'c ResourceManagementService" where
  "rm_service (RM_value r) = r"
| "rm_service (RM_pointer r) = r"

record 'c InMemoryEngine =
  e_scopeToSA :: "(Scope, ServiceAccountName) gomap"
  e_vocabulary :: GlobalVocabulary
  e_saToWsaMap :: "(ServiceAccountName, WSAMap) gomap"
  e_targetNamespaces :: "string list"
  e_namespaceCache :: "'c expirable_LRU option"
  e_client :: "'c client"
  e_ScopeComputation :: ScopeComputationService
  e_ResourceManagement :: "'c ResourceManagementValue"
  e_NamespaceDiscovery :: NamespaceDiscoveryService

abbreviation e_service :: "'c InMemoryEngine \<Rightarrow> 'c ResourceManagementService" where
  "e_service e \<equiv> rm_service (e_ResourceManagement e)"

definition NewInMemoryEngine ::
  "'c client \<Rightarrow> scheme \<Rightarrow> regexp \<Rightarrow> 'c expirable_LRU \<Rightarrow> 'c InMemoryEngine" where
  "NewInMemoryEngine controllerClient sch targetNamespaceRegex cache =
     \<lparr>e_scopeToSA = [], e_vocabulary = NewGlobalVocabulary, e_saToWsaMap = [], e_targetNamespaces = [],
      e_namespaceCache = Some cache, e_client = controllerClient,
      e_ScopeComputation = NewScopeComputationService NewGlobalVocabulary [],
      e_ResourceManagement = RM_value (NewResourceManagementServiceWithScheme controllerClient sch),
      e_NamespaceDiscovery = \<lparr>TargetNamespaceRegex = Some targetNamespaceRegex\<rparr>\<rparr>"

definition NewInMemoryEngineWithNamespaces ::
  "'c client \<Rightarrow> scheme \<Rightarrow> string list \<Rightarrow> 'c InMemoryEngine" where
  "NewInMemoryEngineWithNamespaces controllerClient sch targetNamespaces =
     \<lparr>e_scopeToSA = [], e_vocabulary = NewGlobalVocabulary, e_saToWsaMap = [],
      e_targetNamespaces = targetNamespaces, e_namespaceCache = None, e_client = controllerClient,
      e_ScopeComputation = NewScopeComputationService NewGlobalVocabulary [],
      e_ResourceManagement = RM_value (NewResourceManagementServiceWithScheme controllerClient sch),
      e_NamespaceDiscovery = \<lparr>TargetNamespaceRegex = None\<rparr>\<rparr>"

definition GetTargetNamespaces :: "'c InMemoryEngine \<Rightarrow> string list" where
  "GetTargetNamespaces e = e_targetNamespaces e"

text \<open>The type assertion succeeds for a pointer only.\<close>

definition engine_SetGCTracker :: "(string \<Rightarrow> 'c \<Rightarrow> 'c) \<Rightarrow> 'c InMemoryEngine \<Rightarrow> 'c InMemoryEngine" where
  "engine_SetGCTracker tracker e =
     (case e_ResourceManagement e of
        RM_pointer r \<Rightarrow> e\<lparr>e_ResourceManagement := RM_pointer (SetGCTracker tracker r)\<rparr>
      | RM_value r \<Rightarrow> e)"

definition namespaceCacheKey :: string where
  "namespaceCacheKey = ''namespaces''"

definition GetOrDiscoverTargetNamespaces ::
  "go_order \<Rightarrow> 'c InMemoryEngine \<Rightarrow> 'c \<Rightarrow> (error + string list) \<times> 'c" where
  "GetOrDiscoverTargetNamespaces \<omega> e c =
     (case e_namespaceCache e of
        None \<Rightarrow> (Inr (e_targetNamespaces e), c)
      | Some cache \<Rightarrow>
          (case lru_Get cache namespaceCacheKey c of
             (Some namespaces, c1) \<Rightarrow> (Inr namespaces, c1)
           | (None, c1) \<Rightarrow>
               (case DiscoverTargetNamespaces \<omega> (e_NamespaceDiscovery e) (e_client e) c1 of
                  (Inl err, c2) \<Rightarrow> (Inl (Errorf ''failed to discover target namespaces'' (Some err)), c2)
                | (Inr namespaces, c2) \<Rightarrow> (Inr namespaces, lru_Add cache namespaceCacheKey namespaces c2))))"

record BatchPlan =
  bp_ScopeToSA :: "(Scope, ServiceAccountName) gomap"
  bp_SAToWSAMap :: "(ServiceAccountName, WSAMap) gomap"
  bp_Vocabulary :: "GlobalVocabulary option"

definition ApplyBatchPlan :: "BatchPlan \<Rightarrow> 'c InMemoryEngine \<Rightarrow> error option \<times> 'c InMemoryEngine" where
  "ApplyBatchPlan plan e =
     (let vocabulary = (case bp_Vocabulary plan of Some planVocab \<Rightarrow> planVocab | None \<Rightarrow> e_vocabulary e)
      in (None, e\<lparr>e_scopeToSA := bp_ScopeToSA plan, e_saToWsaMap := bp_SAToWSAMap plan,
             e_vocabulary := vocabulary,
             e_ScopeComputation := NewScopeComputationService vocabulary (bp_ScopeToSA plan)\<rparr>))"

record clusterState =
  cs_scopeToSA :: "(Scope, ServiceAccountName) gomap"
  cs_saToWSAMap :: "(ServiceAccountName, WSAMap) gomap"
  cs_vocabulary :: GlobalVocabulary
  cs_resourceCount :: nat

text \<open>The resources that are not being deleted: \<^verbatim>\<open>DeletionTimestamp.IsZero()\<close>.\<close>

definition live_resources ::
  "WorkloadServiceAccount list \<Rightarrow> ClusterWorkloadServiceAccount list \<Rightarrow> WSAResource list" where
  "live_resources wsas cwsas =
     map NewWSAResource (filter (\<lambda>wsa. om_DeletionTimestamp (wsaMeta wsa) = None) wsas) @
     map NewClusterWSAResource (filter (\<lambda>cwsa. om_DeletionTimestamp (cwsaMeta cwsa) = None) cwsas)"

text \<open>Both listings of live resources, with the error wrapped by the caller's messages.\<close>

definition listResources :: "'c InMemoryEngine \<Rightarrow> 'c \<Rightarrow> (error + WSAResource list) \<times> 'c" where
  "listResources e c =
     (case GetWorkloadServiceAccounts (e_service e) c of
        (Inl err, c1) \<Rightarrow> (Inl (Errorf ''failed to list WorkloadServiceAccounts'' (Some err)), c1)
      | (Inr wsas, c1) \<Rightarrow>
          (case GetClusterWorkloadServiceAccounts (e_service e) c1 of
             (Inl err, c2) \<Rightarrow> (Inl (Errorf ''failed to list ClusterWorkloadServiceAccounts'' (Some err)), c2)
           | (Inr cwsas, c2) \<Rightarrow> (Inr (live_resources wsas cwsas), c2)))"

definition computeStateFromCluster ::
  "go_order \<Rightarrow> 'c InMemoryEngine \<Rightarrow> 'c \<Rightarrow> (error + clusterState) \<times> 'c" where
  "computeStateFromCluster \<omega> e c =
     (case listResources e c of
        (Inl err, c') \<Rightarrow> (Inl err, c')
      | (Inr allResources, c') \<Rightarrow>
          (let (scopeMap, vocabulary) = ComputeScopesForWSAs \<omega> allResources;
               (scopeToSA, saToWSAMap, _, _) = GenerateServiceAccountMappings \<omega> scopeMap
           in (Inr \<lparr>cs_scopeToSA = scopeToSA, cs_saToWSAMap = saToWSAMap, cs_vocabulary = vocabulary,
                    cs_resourceCount = length allResources\<rparr>, c')))"

definition RebuildStateFromCluster ::
  "go_order \<Rightarrow> 'c InMemoryEngine \<Rightarrow> 'c \<Rightarrow> error option \<times> 'c InMemoryEngine \<times> 'c" where
  "RebuildStateFromCluster \<omega> e c =
     (case computeStateFromCluster \<omega> e c of
        (Inl err, c') \<Rightarrow> (Some err, e, c')
      | (Inr state, c') \<Rightarrow>
          (None, e\<lparr>e_scopeToSA := cs_scopeToSA state, e_saToWsaMap := cs_saToWSAMap state,
             e_vocabulary := cs_vocabulary state,
             e_ScopeComputation := NewScopeComputationService (cs_vocabulary state) (cs_scopeToSA state)\<rparr>, c'))"

definition RefreshScopeMappings ::
  "go_order \<Rightarrow> 'c InMemoryEngine \<Rightarrow> 'c \<Rightarrow> error option \<times> 'c InMemoryEngine \<times> 'c" where
  "RefreshScopeMappings \<omega> e c =
     (case computeStateFromCluster \<omega> e c of
        (Inl err, c') \<Rightarrow> (Some err, e, c')
      | (Inr state, c') \<Rightarrow>
          (None, e\<lparr>e_scopeToSA := cs_scopeToSA state, e_vocabulary := cs_vocabulary state,
             e_ScopeComputation := NewScopeComputationService (cs_vocabulary state) (cs_scopeToSA state)\<rparr>, c'))"

definition engine_GetServiceAccountForScope ::
  "'c InMemoryEngine \<Rightarrow> Scope \<Rightarrow> ServiceAccountName \<times> error option" where
  "engine_GetServiceAccountForScope e scope = GetServiceAccountForScope (e_ScopeComputation e) scope"

definition IsWSAInMaps :: "'c InMemoryEngine \<Rightarrow> NamespacedName \<Rightarrow> bool" where
  "IsWSAInMaps e wsaKey \<longleftrightarrow> (\<exists>(sa, wsaMap) \<in> set (e_saToWsaMap e). map_of wsaMap wsaKey \<noteq> None)"

text \<open>Only logs; the \<^verbatim>\<open>ctrl.Result\<close> is the zero value.\<close>

definition CleanupServiceAccounts :: "'c InMemoryEngine \<Rightarrow> WSAResource \<Rightarrow> error option \<times> 'c InMemoryEngine" where
  "CleanupServiceAccounts e deletingResource = (None, e)"

section \<open>Reachable engines\<close>

text \<open>The operations that write to the engine, in any order and number.\<close>

inductive engine_step :: "'c InMemoryEngine \<Rightarrow> 'c InMemoryEngine \<Rightarrow> bool" where
  plan: "ApplyBatchPlan plan e = (err, e') \<Longrightarrow> engine_step e e'"
| rebuild: "RebuildStateFromCluster \<omega> e c = (err, e', c') \<Longrightarrow> engine_step e e'"
| refresh: "RefreshScopeMappings \<omega> e c = (err, e', c') \<Longrightarrow> engine_step e e'"
| tracker: "engine_SetGCTracker t e = e' \<Longrightarrow> engine_step e e'"
| cleanup: "CleanupServiceAccounts e res = (err, e') \<Longrightarrow> engine_step e e'"

inductive engine_reachable :: "'c InMemoryEngine \<Rightarrow> bool" where
  discovering: "engine_reachable (NewInMemoryEngine cl sch re cache)"
| explicit: "engine_reachable (NewInMemoryEngineWithNamespaces cl sch nss)"
| step: "engine_reachable e \<Longrightarrow> engine_step e e' \<Longrightarrow> engine_reachable e'"

inductive_cases engine_stepE: "engine_step e e'"

text \<open>
  What holds of every engine: the embedded resolver is the one made from the published
  vocabulary and map, the service is held by value and has no tracker, and a discovery without
  a regular expression comes with no cache.
\<close>

definition engine_ok :: "'c InMemoryEngine \<Rightarrow> bool" where
  "engine_ok e \<longleftrightarrow>
     e_ScopeComputation e = NewScopeComputationService (e_vocabulary e) (e_scopeToSA e) \<and>
     (\<exists>r. e_ResourceManagement e = RM_value r \<and> rms_gcTracker r = None \<and> rms_client r = e_client e) \<and>
     (TargetNamespaceRegex (e_NamespaceDiscovery e) = None \<longrightarrow> e_namespaceCache e = None)"

lemma RebuildStateFromCluster_cases:
  assumes "RebuildStateFromCluster \<omega> e c = (err, e', c')"
  obtains er where "err = Some er" "e' = e"
  | st where "err = None" "computeStateFromCluster \<omega> e c = (Inr st, c')"
      "e' = e\<lparr>e_scopeToSA := cs_scopeToSA st, e_saToWsaMap := cs_saToWSAMap st,
         e_vocabulary := cs_vocabulary st,
         e_ScopeComputation := NewScopeComputationService (cs_vocabulary st) (cs_scopeToSA st)\<rparr>"
  using assms by (auto simp: RebuildStateFromCluster_def split: prod.splits sum.splits)

lemma RefreshScopeMappings_cases:
  assumes "RefreshScopeMappings \<omega> e c = (err, e', c')"
  obtains er where "err = Some er" "e' = e"
  | st where "err = None" "computeStateFromCluster \<omega> e c = (Inr st, c')"
      "e' = e\<lparr>e_scopeToSA := cs_scopeToSA st, e_vocabulary := cs_vocabulary st,
         e_ScopeComputation := NewScopeComputationService (cs_vocabulary st) (cs_scopeToSA st)\<rparr>"
  using assms by (auto simp: RefreshScopeMappings_def split: prod.splits sum.splits)

lemma engine_step_ok: "engine_step e e' \<Longrightarrow> engine_ok e \<Longrightarrow> engine_ok e'"
proof (induction rule: engine_step.induct)
  case (plan plan e err e')
  then show ?case by (auto simp: ApplyBatchPlan_def engine_ok_def Let_def)
next
  case (rebuild \<omega> e c err e' c')
  then show ?case by (auto elim!: RebuildStateFromCluster_cases simp: engine_ok_def)
next
  case (refresh \<omega> e c err e' c')
  then show ?case by (auto elim!: RefreshScopeMappings_cases simp: engine_ok_def)
next
  case (tracker t e e')
  then show ?case by (auto simp: engine_SetGCTracker_def engine_ok_def)
next
  case (cleanup e res err e')
  then show ?case by (simp add: CleanupServiceAccounts_def)
qed

lemma engine_reachable_ok: "engine_reachable e \<Longrightarrow> engine_ok e"
proof (induction rule: engine_reachable.induct)
  case (discovering cl sch re cache)
  then show ?case
    by (simp add: engine_ok_def NewInMemoryEngine_def NewResourceManagementServiceWithScheme_def)
next
  case (explicit cl sch nss)
  then show ?case
    by (simp add: engine_ok_def NewInMemoryEngineWithNamespaces_def NewResourceManagementServiceWithScheme_def)
next
  case (step e e')
  then show ?case by (simp add: engine_step_ok)
qed

lemma discovery_no_panic:
  assumes "engine_reachable e" and "GetOrDiscoverTargetNamespaces \<omega> e c = (Inl err, c')"
  shows False
  using assms(2) engine_reachable_ok[OF assms(1)]
  by (auto simp: GetOrDiscoverTargetNamespaces_def DiscoverTargetNamespaces_def engine_ok_def Let_def
      split: option.splits prod.splits sum.splits if_splits)

section \<open>The live resources of the cluster\<close>

definition cluster_resources :: "cluster \<Rightarrow> WSAResource set" where
  "cluster_resources m =
     {wsaAdapter w | w. \<exists>n. m (KWorkloadServiceAccount, n) = Some (OWorkloadServiceAccount w) \<and>
        om_DeletionTimestamp (wsaMeta w) = None} \<union>
     {clusterWSAAdapter w | w. \<exists>n. m (KClusterWorkloadServiceAccount, n) = Some (OClusterWorkloadServiceAccount w) \<and>
        om_DeletionTimestamp (cwsaMeta w) = None}"

context api_client_current
begin

lemma list_distinct:
  assumes "client_List cl k sel c = (Inr xs, c')"
    and "\<And>x y. as_item x = Some y \<Longrightarrow> om_key (obj_meta x) = key y"
  shows "distinct (map key (List.map_filter as_item xs))"
proof -
  have "\<forall>x \<in> set xs. obj_kind x = k" using List_kind[OF assms(1)] by blast
  moreover have "distinct (map obj_id xs)" using List_items[OF assms(1)] by blast
  ultimately show ?thesis
  proof (induction xs)
    case (Cons x xs)
    have "om_key (obj_meta x) \<notin> (\<lambda>x. om_key (obj_meta x)) ` set xs"
      using Cons.prems by (auto simp: image_iff)
    then have "as_item x = Some y \<Longrightarrow> key y \<notin> key ` set (List.map_filter as_item xs)" for y
      using assms(2) by (auto simp: set_map_filter image_iff)
    with Cons show ?case by (auto split: option.splits)
  qed simp
qed

lemma listResources_current:
  assumes "rms_client (e_service e) = cl" and "listResources e c = (Inr rs, c')"
  shows "set rs = cluster_resources (view c)" and "names_valid rs" and "view c' = view c"
proof -
  obtain xs ys c1 where xs: "client_List cl KWorkloadServiceAccount [] c = (Inr xs, c1)"
    and ys: "client_List cl KClusterWorkloadServiceAccount [] c1 = (Inr ys, c')"
    and rs: "rs = live_resources (List.map_filter as_WSA xs) (List.map_filter as_CWSA ys)"
    using assms
    by (auto simp: listResources_def GetWorkloadServiceAccounts_def GetClusterWorkloadServiceAccounts_def
        list_items_def split: prod.splits sum.splits)
  have v: "view c1 = view c" "view c' = view c"
    using List_frame[OF xs] List_frame[OF ys] by simp_all
  then show "view c' = view c" by simp
  show set_rs: "set rs = cluster_resources (view c)"
    using List_items[OF xs] List_items[OF ys] v
    by (auto simp: rs live_resources_def NewWSAResource_def NewClusterWSAResource_def
        cluster_resources_def set_map_filter matches_def)
  have wsa: "GetNamespacedName (NewWSAResource w) = om_key (wsaMeta w)" for w
    by (simp add: NewWSAResource_def om_key_def)
  have stored: "view c (KWorkloadServiceAccount, om_key (wsaMeta w)) = Some (OWorkloadServiceAccount w)"
    if "w \<in> set (List.map_filter as_WSA xs)" for w
    using that List_stored(1)[OF xs, of "OWorkloadServiceAccount w"] by (auto simp: set_map_filter)
  have cstored: "view c (KClusterWorkloadServiceAccount, om_key (cwsaMeta w)) = Some (OClusterWorkloadServiceAccount w)"
    if "w \<in> set (List.map_filter as_CWSA ys)" for w
    using that v List_stored(1)[OF ys, of "OClusterWorkloadServiceAccount w"] by (auto simp: set_map_filter)
  have cwsa: "GetNamespacedName (NewClusterWSAResource w) = om_key (cwsaMeta w)"
    if "w \<in> set (List.map_filter as_CWSA ys)" for w
    using view_valid[OF cstored[OF that]]
    by (simp add: NewClusterWSAResource_def om_key_def valid_id_def)
  have d1: "distinct (map (\<lambda>w. om_key (wsaMeta w)) (List.map_filter as_WSA xs))"
    by (rule list_distinct[OF xs]) auto
  have d2: "distinct (map (\<lambda>w. om_key (cwsaMeta w)) (List.map_filter as_CWSA ys))"
    by (rule list_distinct[OF ys]) auto
  have ns: "nn_Namespace (om_key (wsaMeta w)) \<noteq> []" if "w \<in> set (List.map_filter as_WSA xs)" for w
    using view_valid[OF stored[OF that]] by (simp add: valid_id_def)
  have cns: "nn_Namespace (om_key (cwsaMeta w)) = []" if "w \<in> set (List.map_filter as_CWSA ys)" for w
    using view_valid[OF cstored[OF that]] by (simp add: valid_id_def)
  have "map GetNamespacedName rs =
      map (\<lambda>w. om_key (wsaMeta w)) (filter (\<lambda>w. om_DeletionTimestamp (wsaMeta w) = None) (List.map_filter as_WSA xs)) @
      map (\<lambda>w. om_key (cwsaMeta w)) (filter (\<lambda>w. om_DeletionTimestamp (cwsaMeta w) = None) (List.map_filter as_CWSA ys))"
    using cwsa by (simp add: rs live_resources_def wsa)
  moreover have "distinct \<dots>"
    unfolding distinct_append
  proof (intro conjI distinct_map_filter[OF d1] distinct_map_filter[OF d2])
    have "om_key (wsaMeta w) \<noteq> om_key (cwsaMeta w')"
      if "w \<in> set (List.map_filter as_WSA xs)" "w' \<in> set (List.map_filter as_CWSA ys)" for w w'
      using ns[OF that(1)] cns[OF that(2)] by metis
    then show "set (map (\<lambda>w. om_key (wsaMeta w)) (filter (\<lambda>w. om_DeletionTimestamp (wsaMeta w) = None) (List.map_filter as_WSA xs))) \<inter>
        set (map (\<lambda>w. om_key (cwsaMeta w)) (filter (\<lambda>w. om_DeletionTimestamp (cwsaMeta w) = None) (List.map_filter as_CWSA ys))) = {}"
      by fastforce
  qed
  ultimately have "keys_distinct rs" by (simp add: keys_distinct_def)
  moreover have "valid_key (GetNamespacedName r)" if r: "r \<in> set rs" for r
    using that view_valid[OF stored] view_valid[OF cstored] wsa cwsa
    by (auto simp: rs live_resources_def valid_id_def)
  ultimately show "names_valid rs" by (simp add: names_valid_def)
qed

end

section \<open>What rebuilding and refreshing publish\<close>

lemma computeStateFromCluster_ok:
  assumes "computeStateFromCluster \<omega> e c = (Inr st, c')"
  obtains rs where "listResources e c = (Inr rs, c')"
    and "NewScopeComputationService (cs_vocabulary st) (cs_scopeToSA st) =
      NewScopeComputationService (vocab_of rs) (scopeToSA_of \<omega> (scopeMap_of \<omega> rs))"
    and "cs_saToWSAMap st = saToWSAs_of \<omega> (scopeMap_of \<omega> rs)"
proof -
  obtain rs where rs: "listResources e c = (Inr rs, c')"
    using assms by (auto simp: computeStateFromCluster_def split: prod.splits sum.splits)
  have "st = \<lparr>cs_scopeToSA = scopeToSA_of \<omega> (scopeMap_of \<omega> rs),
      cs_saToWSAMap = saToWSAs_of \<omega> (scopeMap_of \<omega> rs), cs_vocabulary = vocab_of rs,
      cs_resourceCount = length rs\<rparr>"
    using assms by (simp add: computeStateFromCluster_def rs case_prod_beta Let_def ComputeScopes_snd)
  with rs that show ?thesis by simp
qed

lemma engine_ok_client: "engine_ok e \<Longrightarrow> rms_client (e_service e) = e_client e"
  by (auto simp: engine_ok_def)

text \<open>The account that the live resources of a cluster give a deployment, for some list of them.\<close>

lemma published_resolver:
  assumes "api_client_current (e_client e) view" "engine_ok e"
    and "RebuildStateFromCluster \<omega> e c = (None, e', c') \<or> RefreshScopeMappings \<omega> e c = (None, e', c')"
  obtains rs where "set rs = cluster_resources (view c)" "names_valid rs"
    and "e_ScopeComputation e' = NewScopeComputationService (vocab_of rs) (scopeToSA_of \<omega> (scopeMap_of \<omega> rs))"
proof -
  obtain st where st: "computeStateFromCluster \<omega> e c = (Inr st, c')"
    and e': "e_ScopeComputation e' = NewScopeComputationService (cs_vocabulary st) (cs_scopeToSA st)"
    using assms(3) by (auto elim!: RebuildStateFromCluster_cases RefreshScopeMappings_cases)
  from st show ?thesis
  proof (rule computeStateFromCluster_ok)
    fix rs
    assume rs: "listResources e c = (Inr rs, c')"
      and "NewScopeComputationService (cs_vocabulary st) (cs_scopeToSA st) =
        NewScopeComputationService (vocab_of rs) (scopeToSA_of \<omega> (scopeMap_of \<omega> rs))"
    with e' that api_client_current.listResources_current(1,2)[OF assms(1) engine_ok_client[OF assms(2)] rs]
    show ?thesis by simp
  qed
qed

text \<open>
  Every replica answers like the leader: an engine that has refreshed its scope mappings and
  one that has rebuilt its state, on clusters with the same live resources, give every deployment
  the same service account, whatever listing and iteration orders the two met.
\<close>

theorem refreshed_replica_agrees:
  assumes "api_client_current (e_client e1) view1" and "api_client_current (e_client e2) view2"
    and "engine_reachable e1" and "engine_reachable e2" and "order_ok \<omega>1" and "order_ok \<omega>2"
    and "RefreshScopeMappings \<omega>1 e1 c1 = (None, e1', c1')"
    and "RebuildStateFromCluster \<omega>2 e2 c2 = (None, e2', c2')"
    and "cluster_resources (view1 c1) = cluster_resources (view2 c2)"
  shows "engine_GetServiceAccountForScope e1' p = engine_GetServiceAccountForScope e2' p"
proof -
  obtain rs1 where 1: "set rs1 = cluster_resources (view1 c1)" "names_valid rs1"
    "e_ScopeComputation e1' = NewScopeComputationService (vocab_of rs1) (scopeToSA_of \<omega>1 (scopeMap_of \<omega>1 rs1))"
    using published_resolver[OF assms(1) engine_reachable_ok[OF assms(3)]] assms(7) by blast
  obtain rs2 where 2: "set rs2 = cluster_resources (view2 c2)" "names_valid rs2"
    "e_ScopeComputation e2' = NewScopeComputationService (vocab_of rs2) (scopeToSA_of \<omega>2 (scopeMap_of \<omega>2 rs2))"
    using published_resolver[OF assms(2) engine_reachable_ok[OF assms(4)]] assms(8) by blast
  show ?thesis
    using resolver_cong[OF assms(5,6) 1(2) 2(2)] 1 2 assms(9)
    by (simp add: engine_GetServiceAccountForScope_def)
qed

text \<open>
  C29. A refresh publishes the live resources of the cluster to the resolver and leaves the guard of
  pending deletions alone: afterwards a deployment gets an account exactly if it matches a live
  resource, no resource has entered or left the map that deletions wait on, and the cluster is
  unchanged.
\<close>

theorem refresh_publishes_live_resources:
  assumes "api_client_current (e_client e) view" and "engine_reachable e" and "order_ok \<omega>"
    and "RefreshScopeMappings \<omega> e c = (None, e', c')"
    and "\<forall>r \<in> cluster_resources (view c). no_wildcard [r]"
  shows "(fst (engine_GetServiceAccountForScope e' p) \<noteq> [] \<longleftrightarrow>
           (\<exists>r \<in> cluster_resources (view c). wsa_matches r p)) \<and>
         IsWSAInMaps e' = IsWSAInMaps e \<and> view c' = view c"
proof (intro conjI)
  obtain rs where rs: "set rs = cluster_resources (view c)"
    "e_ScopeComputation e' = NewScopeComputationService (vocab_of rs) (scopeToSA_of \<omega> (scopeMap_of \<omega> rs))"
    using published_resolver[OF assms(1) engine_reachable_ok[OF assms(2)]] assms(4) by metis
  have "no_wildcard rs" using assms(5) rs(1) by (auto simp: no_wildcard_def)
  then have "engine_GetServiceAccountForScope e' p =
      (if \<exists>r \<in> set rs. wsa_matches r p
       then (account_of \<omega> rs (GetKnownScopeCombination (vocab_of rs) p), None) else ([], None))"
    unfolding engine_GetServiceAccountForScope_def rs(2) GetServiceAccountForScope_eq[OF assms(3)] Let_def
    by (auto simp: covering_known)
  then show "fst (engine_GetServiceAccountForScope e' p) \<noteq> [] \<longleftrightarrow>
      (\<exists>r \<in> cluster_resources (view c). wsa_matches r p)"
    by (simp add: rs(1))
  have "e_saToWsaMap e' = e_saToWsaMap e"
    using assms(4) by (auto elim!: RefreshScopeMappings_cases)
  then show "IsWSAInMaps e' = IsWSAInMaps e" by (simp add: IsWSAInMaps_def fun_eq_iff)
  obtain st where "computeStateFromCluster \<omega> e c = (Inr st, c')"
    using assms(4) by (auto elim!: RefreshScopeMappings_cases)
  then show "view c' = view c"
    using api_client_current.listResources_current(3)[OF assms(1) engine_ok_client[OF engine_reachable_ok[OF assms(2)]]]
    by (auto elim!: computeStateFromCluster_ok)
qed

text \<open>
  A rebuild forgets what is not live: after it, every resource in the map that deletions wait
  on is a live resource of the cluster, so a resource with a deletion timestamp no longer waits;
  a rebuild that fails leaves the engine as it was.
\<close>

theorem rebuild_forgets_deleted:
  assumes "api_client_current (e_client e) view" and "engine_reachable e" and "order_ok \<omega>"
    and "RebuildStateFromCluster \<omega> e c = (err, e', c')"
  shows "if err = None then IsWSAInMaps e' k \<longrightarrow> k \<in> GetNamespacedName ` cluster_resources (view c)
         else e' = e"
  using assms(4)
proof (cases rule: RebuildStateFromCluster_cases)
  case (1 er)
  then show ?thesis by simp
next
  case (2 st)
  from 2(2) show ?thesis
  proof (rule computeStateFromCluster_ok)
    fix rs
    assume rs: "listResources e c = (Inr rs, c')"
      and sa: "cs_saToWSAMap st = saToWSAs_of \<omega> (scopeMap_of \<omega> rs)"
    note cur = api_client_current.listResources_current[OF assms(1)
        engine_ok_client[OF engine_reachable_ok[OF assms(2)]] rs]
    have "k \<in> GetNamespacedName ` set rs" if "IsWSAInMaps e' k"
    proof -
      from that obtain n m where "(n, m) \<in> set (saToWSAs_of \<omega> (scopeMap_of \<omega> rs))" "k \<in> dom (map_of m)"
        using 2(3) sa by (auto simp: IsWSAInMaps_def)
      with saToWSAs_keys[OF assms(3) cur(2)] show ?thesis by blast
    qed
    then show ?thesis using 2(1) cur(1) by simp
  qed
qed

text \<open>
  The deletion tracker is never wired: \<^verbatim>\<open>SetGCTracker\<close> has no effect on any engine that the
  program can construct and reach, so its service marks nothing before it deletes.
\<close>

theorem tracker_never_set:
  assumes "engine_reachable e"
  shows "engine_SetGCTracker t e = e \<and> rms_gcTracker (e_service e) = None \<and>
         markForDeletion (e_service e) x c = c"
  using engine_reachable_ok[OF assms]
  by (auto simp: engine_ok_def engine_SetGCTracker_def markForDeletion_def)

section \<open>Examples\<close>

definition example_scheme :: scheme where
  "example_scheme k = (case k of
     KWorkloadServiceAccount \<Rightarrow> Some (''agent.octopus.com/v1beta1'', ''WorkloadServiceAccount'')
   | KClusterWorkloadServiceAccount \<Rightarrow> Some (''agent.octopus.com/v1beta1'', ''ClusterWorkloadServiceAccount'')
   | _ \<Rightarrow> None)"

definition server_with :: "object list \<Rightarrow> server" where
  "server_with xs = \<lparr>srv_objects = xs, srv_faults = [], srv_created = 0, srv_marked = [], srv_cache = []\<rparr>"

definition two_projects_server :: server where
  "two_projects_server = server_with
     [OWorkloadServiceAccount (example_wsa ''team'' ''a'' (scope_of [''p1''] []) no_permissions),
      OWorkloadServiceAccount (example_wsa ''team'' ''b'' (scope_of [''p2''] []) no_permissions)]"

definition example_engine :: "server InMemoryEngine" where
  "example_engine = NewInMemoryEngineWithNamespaces server_client example_scheme [''default'']"

lemma example_engine_reachable: "engine_reachable example_engine"
  unfolding example_engine_def by (rule engine_reachable.explicit)

lemma example_engine_client [simp]: "e_client example_engine = server_client"
  by (simp add: example_engine_def NewInMemoryEngineWithNamespaces_def)

lemma example_list:
  "listResources example_engine two_projects_server = (Inr two_projects, two_projects_server)"
  by code_simp

lemma example_resources: "cluster_resources (server_view two_projects_server) = set two_projects"
  using api_client_current.listResources_current(1)[OF srv.api_client_current_axioms _ example_list]
  by (simp add: example_engine_def NewInMemoryEngineWithNamespaces_def
      NewResourceManagementServiceWithScheme_def)

lemma example_refresh:
  obtains e' where "RefreshScopeMappings \<omega> example_engine two_projects_server = (None, e', two_projects_server)"
  by (simp add: RefreshScopeMappings_def computeStateFromCluster_def example_list case_prod_beta Let_def)

lemma example_rebuild:
  obtains e' where "RebuildStateFromCluster \<omega> example_engine two_projects_server = (None, e', two_projects_server)"
  by (simp add: RebuildStateFromCluster_def computeStateFromCluster_def example_list case_prod_beta Let_def)

theorem refreshed_replica_agrees_witness:
  "\<exists>e1 e2. RefreshScopeMappings order_id example_engine two_projects_server = (None, e1, two_projects_server) \<and>
     RebuildStateFromCluster order_rev example_engine two_projects_server = (None, e2, two_projects_server) \<and>
     engine_GetServiceAccountForScope e1 (deployment ''p1'' ''prod'') =
     engine_GetServiceAccountForScope e2 (deployment ''p1'' ''prod'')"
proof -
  obtain e1 where 1: "RefreshScopeMappings order_id example_engine two_projects_server = (None, e1, two_projects_server)"
    by (rule example_refresh)
  obtain e2 where 2: "RebuildStateFromCluster order_rev example_engine two_projects_server = (None, e2, two_projects_server)"
    by (rule example_rebuild)
  have "engine_GetServiceAccountForScope e1 (deployment ''p1'' ''prod'') =
      engine_GetServiceAccountForScope e2 (deployment ''p1'' ''prod'')"
    by (rule refreshed_replica_agrees[OF _ _ example_engine_reachable example_engine_reachable
          order_ok_id order_ok_rev 1 2, where ?view1.0 = server_view and ?view2.0 = server_view])
      (simp_all add: srv.api_client_current_axioms)
  with 1 2 show ?thesis by blast
qed

theorem refresh_publishes_live_resources_witness:
  "\<exists>e'. RefreshScopeMappings order_rev example_engine two_projects_server = (None, e', two_projects_server) \<and>
     fst (engine_GetServiceAccountForScope e' (deployment ''p1'' ''prod'')) \<noteq> [] \<and>
     fst (engine_GetServiceAccountForScope e' (deployment ''p3'' ''prod'')) = []"
proof -
  obtain e' where e': "RefreshScopeMappings order_rev example_engine two_projects_server = (None, e', two_projects_server)"
    by (rule example_refresh)
  have "\<forall>r \<in> set two_projects. no_wildcard [r]"
    using slugs_no_wildcard[OF two_projects_slugs] by (simp add: no_wildcard_def)
  then have *: "fst (engine_GetServiceAccountForScope e' p) \<noteq> [] \<longleftrightarrow> (\<exists>r \<in> set two_projects. wsa_matches r p)" for p
    using refresh_publishes_live_resources[OF _ example_engine_reachable order_ok_rev e', of server_view p]
    by (simp add: srv.api_client_current_axioms example_resources)
  show ?thesis
    using e' *[of "deployment ''p1'' ''prod''"] *[of "deployment ''p3'' ''prod''"]
    by (auto simp: wsa_matches_def all_dims scopeSlices_def scope_dims_def example_defs)
qed

theorem rebuild_forgets_deleted_witness:
  "\<exists>e'. RebuildStateFromCluster order_rev example_engine two_projects_server = (None, e', two_projects_server) \<and>
     \<not> IsWSAInMaps e' \<lparr>nn_Namespace = ''team'', nn_Name = ''c''\<rparr>"
proof -
  obtain e' where e': "RebuildStateFromCluster order_rev example_engine two_projects_server = (None, e', two_projects_server)"
    by (rule example_rebuild)
  have "IsWSAInMaps e' k \<longrightarrow> k \<in> GetNamespacedName ` set two_projects" for k
    using rebuild_forgets_deleted[OF _ example_engine_reachable order_ok_rev e', of server_view k]
    by (simp add: srv.api_client_current_axioms example_resources)
  from this[of "\<lparr>nn_Namespace = ''team'', nn_Name = ''c''\<rparr>"] e' show ?thesis
    by (auto simp: example_defs)
qed

theorem tracker_never_set_witness:
  "engine_SetGCTracker recording_tracker example_engine = example_engine \<and>
   rms_gcTracker (e_service example_engine) = None"
  using tracker_never_set[OF example_engine_reachable] by blast

end
