(* ===== verification/BatchTypes.thy ===== *)
theory BatchTypes
  imports Engine
begin

text \<open>
  \<^verbatim>\<open>internal/reconciliation/types.go\<close>: events, batches, plans and validation results. Batch ids and
  the clock are inputs (\<^verbatim>\<open>uuid.New()\<close>, \<^verbatim>\<open>time.Now()\<close>).
\<close>

type_synonym BatchID = string

datatype EventType = EventTypeCreate | EventTypeUpdate | EventTypeDelete

record EventInfo =
  ev_Resource :: WSAResource
  ev_EventType :: EventType
  ev_Generation :: int
  ev_ResourceVersion :: string
  ev_Timestamp :: nat

definition NewEventInfo :: "nat \<Rightarrow> WSAResource \<Rightarrow> EventType \<Rightarrow> EventInfo" where
  "NewEventInfo now resource eventType =
     \<lparr>ev_Resource = resource, ev_EventType = eventType, ev_Generation = GetGeneration resource,
      ev_ResourceVersion = GetResourceVersion resource, ev_Timestamp = now\<rparr>"

definition NewCreateOrUpdateEventInfo :: "nat \<Rightarrow> WSAResource \<Rightarrow> EventInfo" where
  "NewCreateOrUpdateEventInfo now resource =
     (let eventType = (if GetGeneration resource = 1 then EventTypeCreate else EventTypeUpdate)
      in NewEventInfo now resource eventType)"

record Plan =
  pl_ScopeToSA :: "(Scope, ServiceAccountName) gomap"
  pl_SAToWSAMap :: "(ServiceAccountName, WSAMap) gomap"
  pl_WSAToSANames :: "(NamespacedName, ServiceAccountName list) gomap"
  pl_Vocabulary :: "GlobalVocabulary option"
  pl_UniqueAccounts :: "ServiceAccount list"
  pl_AllResources :: "WSAResource list"
  pl_TargetNamespaces :: "string list"

text \<open>The three getters through which the engine sees a plan.\<close>

definition plan_as_BatchPlan :: "Plan \<Rightarrow> BatchPlan" where
  "plan_as_BatchPlan rp =
     \<lparr>bp_ScopeToSA = pl_ScopeToSA rp, bp_SAToWSAMap = pl_SAToWSAMap rp, bp_Vocabulary = pl_Vocabulary rp\<rparr>"

record ValidationError =
  ve_Type :: string
  ve_Resource :: string
  ve_Message :: string

type_synonym ValidationWarning = ValidationError

record ValidationResult =
  vr_Valid :: bool
  vr_Errors :: "ValidationError list"
  vr_Warnings :: "ValidationWarning list"

definition NewValidationResult :: ValidationResult where
  "NewValidationResult = \<lparr>vr_Valid = True, vr_Errors = [], vr_Warnings = []\<rparr>"

definition AddError :: "string \<Rightarrow> string \<Rightarrow> string \<Rightarrow> ValidationResult \<Rightarrow> ValidationResult" where
  "AddError errorType resource message vr =
     vr\<lparr>vr_Valid := False,
        vr_Errors := vr_Errors vr @ [\<lparr>ve_Type = errorType, ve_Resource = resource, ve_Message = message\<rparr>]\<rparr>"

definition AddWarning :: "string \<Rightarrow> string \<Rightarrow> string \<Rightarrow> ValidationResult \<Rightarrow> ValidationResult" where
  "AddWarning warningType resource message vr =
     vr\<lparr>vr_Warnings := vr_Warnings vr @
        [\<lparr>ve_Type = warningType, ve_Resource = resource, ve_Message = message\<rparr>]\<rparr>"

text \<open>A result is valid exactly as long as it has no error.\<close>

definition vr_ok :: "ValidationResult \<Rightarrow> bool" where
  "vr_ok vr \<longleftrightarrow> (vr_Valid vr \<longleftrightarrow> vr_Errors vr = [])"

lemma vr_ok_simps [simp]:
  "vr_ok NewValidationResult" "vr_ok vr \<Longrightarrow> vr_ok (AddError t r m vr)" "vr_ok vr \<Longrightarrow> vr_ok (AddWarning t r m vr)"
  by (auto simp: vr_ok_def NewValidationResult_def AddError_def AddWarning_def)

record Batch =
  ba_ID :: BatchID
  ba_Resources :: "WSAResource list"
  ba_StartTime :: nat
  ba_Plan :: "Plan option"
  ba_ValidationResult :: "ValidationResult option"
  ba_LastError :: "error option"
  ba_RequeueAfter :: int

definition NewBatch :: "BatchID \<Rightarrow> nat \<Rightarrow> EventInfo list \<Rightarrow> Batch" where
  "NewBatch newID now events =
     \<lparr>ba_ID = newID, ba_Resources = map ev_Resource events, ba_StartTime = now, ba_Plan = None,
      ba_ValidationResult = None, ba_LastError = None, ba_RequeueAfter = 0\<rparr>"

end
