(* ===== verification/Stages.thy ===== *)
theory Stages
  imports BatchTypes
begin

text \<open>
  \<^verbatim>\<open>internal/reconciliation/stages\<close>: planning computes the desired mappings from the live resources of
  the cluster, validation compares the plan with what the cluster already contains, execution
  applies roles, accounts and bindings, collects garbage and publishes the plan to the engine. A
  stage takes and returns the batch, the engine and the world. Shown: what each stage leaves
  alone, that a plan is consistent, what execution may touch, and what holds in the cluster and in
  the engine after it has succeeded.
\<close>

section \<open>Planning\<close>

definition getAllResources :: "'c InMemoryEngine \<Rightarrow> 'c \<Rightarrow> (error + WSAResource list) \<times> 'c" where
  "getAllResources e c = listResources e c"

text \<open>\<^verbatim>\<open>string\<close> and \<^verbatim>\<open>ServiceAccountName\<close> have the same values; the map is rebuilt entry by entry.\<close>

definition convertWSAToSANames ::
  "go_order \<Rightarrow> (NamespacedName, string list) gomap \<Rightarrow> (NamespacedName, ServiceAccountName list) gomap" where
  "convertWSAToSANames \<omega> wsaToSANames =
     fold (\<lambda>(wsa, saNames). map_put wsa (map (\<lambda>name. name) saNames))
       (go_range (o_key \<omega>) wsaToSANames) []"

definition updateBatchResourceVersions :: "WSAResource list \<Rightarrow> WSAResource list \<Rightarrow> WSAResource list" where
  "updateBatchResourceVersions batchResources freshResources =
     (let freshByKey = fold (\<lambda>r. map_put (GetNamespacedName r) r) freshResources []
      in map (\<lambda>r. case map_of freshByKey (GetNamespacedName r) of Some fresh \<Rightarrow> fresh | None \<Rightarrow> r)
           batchResources)"

definition planFor :: "go_order \<Rightarrow> WSAResource list \<Rightarrow> string list \<Rightarrow> Plan" where
  "planFor \<omega> allResources targetNamespaces =
     (let (scopeMap, vocabulary) = ComputeScopesForWSAs \<omega> allResources;
          (scopeToSA, saToWSAMap, wsaToSANames, uniqueAccounts) = GenerateServiceAccountMappings \<omega> scopeMap
      in \<lparr>pl_ScopeToSA = scopeToSA, pl_SAToWSAMap = saToWSAMap,
          pl_WSAToSANames = convertWSAToSANames \<omega> wsaToSANames, pl_Vocabulary = Some vocabulary,
          pl_UniqueAccounts = uniqueAccounts, pl_AllResources = allResources,
          pl_TargetNamespaces = targetNamespaces\<rparr>)"

definition PlanningStage_Execute ::
  "go_order \<Rightarrow> 'c InMemoryEngine \<Rightarrow> Batch \<Rightarrow> 'c \<Rightarrow> error option \<times> Batch \<times> 'c" where
  "PlanningStage_Execute \<omega> e batch c =
     (case getAllResources e c of
        (Inl err, c1) \<Rightarrow> (Some (Errorf ''failed to get all resources'' (Some err)), batch, c1)
      | (Inr allResources, c1) \<Rightarrow>
          (case GetOrDiscoverTargetNamespaces \<omega> e c1 of
             (Inl err, c2) \<Rightarrow> (Some (Errorf ''failed to get target namespaces'' (Some err)), batch, c2)
           | (Inr targetNamespaces, c2) \<Rightarrow>
               (None, batch\<lparr>ba_Plan := Some (planFor \<omega> allResources targetNamespaces),
                  ba_Resources := updateBatchResourceVersions (ba_Resources batch) allResources\<rparr>, c2)))"

section \<open>Validation\<close>

definition key :: "string \<Rightarrow> string \<Rightarrow> NamespacedName" where
  "key namespace name = \<lparr>nn_Namespace = namespace, nn_Name = name\<rparr>"

definition checkAccount ::
  "'c client \<Rightarrow> ServiceAccount \<times> string \<Rightarrow> ValidationResult \<times> 'c \<Rightarrow>
   error option \<times> ValidationResult \<times> 'c" where
  "checkAccount cl p st =
     (let (sa, namespace) = p; (result, c) = st; name = om_Name (sa_Meta sa)
      in case client_Get cl KServiceAccount (key namespace name) c of
           (Inl NotFound, c') \<Rightarrow> (None, result, c')
         | (Inl err, c') \<Rightarrow>
             (Some (Errorf (''failed to get service account '' @ namespace @ ''/'' @ name) (Some (Api err))), result, c')
         | (Inr existing, c') \<Rightarrow>
             (None,
              if \<not> IsOctopusManaged (labels_of existing)
              then AddError ''OwnerConflict'' (''ServiceAccount/'' @ namespace @ ''/'' @ name)
                     ''Service account exists but is not managed by octopus-permissions-controller'' result
              else result, c'))"

definition checkRole ::
  "'c client \<Rightarrow> WSAResource \<Rightarrow> ValidationResult \<times> 'c \<Rightarrow> error option \<times> ValidationResult \<times> 'c" where
  "checkRole cl resource st =
     (let (result, c) = st; rname = ''octopus-'' @ GetName resource; namespace = GetNamespace resource
      in if namespace = [] then (None, result, c)
         else
           (case client_Get cl KRole (key namespace rname) c of
              (Inl NotFound, c') \<Rightarrow> (None, result, c')
            | (Inl err, c') \<Rightarrow>
                (Some (Errorf (''failed to get role '' @ namespace @ ''/'' @ rname) (Some (Api err))), result, c')
            | (Inr existing, c') \<Rightarrow>
                (None,
                 if \<not> IsOctopusManaged (labels_of existing)
                 then AddWarning ''OwnerConflict'' (''Role/'' @ namespace @ ''/'' @ rname)
                        ''Role exists but is not managed by octopus-permissions-controller'' result
                 else result, c')))"

definition checkOwnerReferences ::
  "'c client \<Rightarrow> Batch \<Rightarrow> ValidationResult \<times> 'c \<Rightarrow> error option \<times> ValidationResult \<times> 'c" where
  "checkOwnerReferences cl batch st =
     (case ba_Plan batch of
        None \<Rightarrow> (Some (Errorf ''batch plan is nil'' None), st)
      | Some plan \<Rightarrow>
          (case for_until (checkAccount cl)
                  (List.product (pl_UniqueAccounts plan) (pl_TargetNamespaces plan)) st of
             (Some err, st') \<Rightarrow> (Some err, st')
           | (None, st') \<Rightarrow> for_until (checkRole cl) (ba_Resources batch) st'))"

definition checkNamespace ::
  "'c client \<Rightarrow> string \<Rightarrow> ValidationResult \<times> 'c \<Rightarrow> error option \<times> ValidationResult \<times> 'c" where
  "checkNamespace cl namespace st =
     (let (result, c) = st
      in case client_Get cl KNamespace (key [] namespace) c of
           (Inl NotFound, c') \<Rightarrow>
             (None, AddError ''NamespaceNotFound'' (''Namespace/'' @ namespace)
                (''Target namespace '' @ [CHR 0x27] @ namespace @ [CHR 0x27] @ '' does not exist'') result, c')
         | (Inl err, c') \<Rightarrow> (Some (Errorf (''failed to get namespace '' @ namespace) (Some (Api err))), result, c')
         | (Inr ns, c') \<Rightarrow> (None, result, c'))"

definition checkNamespaceExistence ::
  "'c client \<Rightarrow> Batch \<Rightarrow> ValidationResult \<times> 'c \<Rightarrow> error option \<times> ValidationResult \<times> 'c" where
  "checkNamespaceExistence cl batch st =
     (case ba_Plan batch of
        None \<Rightarrow> (Some (Errorf ''batch plan is nil'' None), st)
      | Some plan \<Rightarrow> for_until (checkNamespace cl) (pl_TargetNamespaces plan) st)"

definition ValidationStage_Execute ::
  "'c client \<Rightarrow> Batch \<Rightarrow> 'c \<Rightarrow> error option \<times> Batch \<times> 'c" where
  "ValidationStage_Execute cl batch c =
     (case checkOwnerReferences cl batch (NewValidationResult, c) of
        (Some err, result, c1) \<Rightarrow> (Some (Errorf ''failed to check owner references'' (Some err)), batch, c1)
      | (None, st1) \<Rightarrow>
          (case checkNamespaceExistence cl batch st1 of
             (Some err, result, c2) \<Rightarrow>
               (Some (Errorf ''failed to check namespace existence'' (Some err)), batch, c2)
           | (None, result, c2) \<Rightarrow>
               (let batch' = batch\<lparr>ba_ValidationResult := Some result\<rparr>
                in if \<not> vr_Valid result
                   then (Some (Errorf (''validation failed with '' @ fmt_d (length (vr_Errors result)) @ '' errors'') None),
                         batch', c2)
                   else (None, batch', c2))))"

section \<open>Execution\<close>

definition stage_ensureRoleBindings ::
  "go_order \<Rightarrow> 'c InMemoryEngine \<Rightarrow> Plan \<Rightarrow> WSAResource list \<Rightarrow> RoleMap \<Rightarrow> string list \<Rightarrow> 'c \<Rightarrow>
   error option \<times> 'c" where
  "stage_ensureRoleBindings \<omega> e plan allResources createdRoles targetNamespaces c =
     (let wsaToServiceAccountNames =
        fold (\<lambda>(wsa, saNames). map_put wsa (map (\<lambda>name. name) saNames))
          (go_range (o_key \<omega>) (pl_WSAToSANames plan)) []
      in EnsureRoleBindings (e_service e) allResources createdRoles wsaToServiceAccountNames targetNamespaces c)"

definition garbageCollect ::
  "'c InMemoryEngine \<Rightarrow> Plan \<Rightarrow> WSAResource list \<Rightarrow> string list \<Rightarrow> 'c \<Rightarrow> error option \<times> 'c" where
  "garbageCollect e plan allResources targetNamespaces c =
     (let expectedSAs = fold (\<lambda>sa. List.insert (om_Name (sa_Meta sa))) (pl_UniqueAccounts plan) [];
          targetNSSet = fold List.insert targetNamespaces []
      in case GarbageCollectServiceAccounts (e_service e) expectedSAs targetNSSet c of
           (Some err, c1) \<Rightarrow> (Some (Errorf ''failed to garbage collect service accounts'' (Some err)), c1)
         | (None, c1) \<Rightarrow>
             (case GarbageCollectRoles (e_service e) allResources c1 of
                (Some err, c2) \<Rightarrow> (Some (Errorf ''failed to garbage collect roles'' (Some err)), c2)
              | (None, c2) \<Rightarrow>
                  (case GarbageCollectRoleBindings (e_service e) allResources targetNamespaces c2 of
                     (Some err, c3) \<Rightarrow> (Some (Errorf ''failed to garbage collect role bindings'' (Some err)), c3)
                   | (None, c3) \<Rightarrow>
                       (case GarbageCollectClusterRoleBindings (e_service e) allResources c3 of
                          (Some err, c4) \<Rightarrow>
                            (Some (Errorf ''failed to garbage collect cluster role bindings'' (Some err)), c4)
                        | (None, c4) \<Rightarrow> (None, c4)))))"

text \<open>The three creation passes, skipped when there is no resource.\<close>

definition ensureAll ::
  "go_order \<Rightarrow> 'c InMemoryEngine \<Rightarrow> Plan \<Rightarrow> 'c \<Rightarrow> error option \<times> 'c" where
  "ensureAll \<omega> e plan c =
     (if length (pl_AllResources plan) > 0 then
        (case EnsureRoles (e_service e) (pl_AllResources plan) c of
           ((_, Some err), c1) \<Rightarrow> (Some (Errorf ''failed to ensure roles'' (Some err)), c1)
         | ((createdRoles, None), c1) \<Rightarrow>
             (case EnsureServiceAccounts (e_service e) (pl_UniqueAccounts plan) (pl_TargetNamespaces plan) c1 of
                (Some err, c2) \<Rightarrow> (Some (Errorf ''failed to ensure service accounts'' (Some err)), c2)
              | (None, c2) \<Rightarrow>
                  (case stage_ensureRoleBindings \<omega> e plan (pl_AllResources plan) createdRoles
                          (pl_TargetNamespaces plan) c2 of
                     (Some err, c3) \<Rightarrow> (Some (Errorf ''failed to ensure role bindings'' (Some err)), c3)
                   | (None, c3) \<Rightarrow> (None, c3))))
      else (None, c))"

definition ExecutionStage_Execute ::
  "go_order \<Rightarrow> 'c InMemoryEngine \<Rightarrow> Batch \<Rightarrow> 'c \<Rightarrow> error option \<times> 'c InMemoryEngine \<times> 'c" where
  "ExecutionStage_Execute \<omega> e batch c =
     (case ba_Plan batch of
        None \<Rightarrow> (Some (Errorf ''batch plan is nil'' None), e, c)
      | Some plan \<Rightarrow>
          if length (pl_TargetNamespaces plan) = 0
          then (Some (Errorf ''no target namespaces in plan'' None), e, c)
          else
            (case ensureAll \<omega> e plan c of
               (Some err, c1) \<Rightarrow> (Some err, e, c1)
             | (None, c1) \<Rightarrow>
                 (case garbageCollect e plan (pl_AllResources plan) (pl_TargetNamespaces plan) c1 of
                    (Some err, c2) \<Rightarrow> (Some (Errorf ''failed to garbage collect'' (Some err)), e, c2)
                  | (None, c2) \<Rightarrow>
                      (case ApplyBatchPlan (plan_as_BatchPlan plan) e of
                         (Some err, e') \<Rightarrow> (Some (Errorf ''failed to update in-memory state'' (Some err)), e', c2)
                       | (None, e') \<Rightarrow> (None, e', c2)))))"

section \<open>Roles and bindings of a resource\<close>

text \<open>The role references that are bound for a resource, and where the bindings and the role live.\<close>

definition inline_ref :: "WSAResource \<Rightarrow> RoleRef" where
  "inline_ref res =
     \<lparr>rr_APIGroup = ''rbac.authorization.k8s.io'',
      rr_Kind = (if IsClusterScoped res then ''ClusterRole'' else ''Role''), rr_Name = role_name res\<rparr>"

definition bound_refs :: "WSAResource \<Rightarrow> RoleRef list" where
  "bound_refs res =
     GetRoles res @ (if GetPermissionRules res = [] then [] else [inline_ref res]) @ GetClusterRoles res"

definition binding_id :: "WSAResource \<Rightarrow> RoleRef \<Rightarrow> object_id" where
  "binding_id res ref =
     (if IsClusterScoped res then (KClusterRoleBinding, key [] (clusterRoleBindingName (GetName res) (rr_Name ref)))
      else (KRoleBinding, bindingKey res (rr_Name ref)))"

definition role_id :: "WSAResource \<Rightarrow> object_id" where
  "role_id res =
     (if IsClusterScoped res then (KClusterRole, key [] (role_name res))
      else (KRole, key (GetNamespace res) (role_name res)))"

definition binding_at :: "cluster \<Rightarrow> object_id \<Rightarrow> RoleBinding option" where
  "binding_at m i = (case m i of Some (ORoleBinding rb) \<Rightarrow> Some rb | Some (OClusterRoleBinding rb) \<Rightarrow> Some rb
     | _ \<Rightarrow> None)"

definition role_at :: "cluster \<Rightarrow> object_id \<Rightarrow> Role option" where
  "role_at m i = (case m i of Some (ORole ro) \<Rightarrow> Some ro | Some (OClusterRole ro) \<Rightarrow> Some ro | _ \<Rightarrow> None)"

text \<open>
  The names of roles and bindings are hashes of ambiguous strings. This is what they have to
  separate for a given set of resources: no two different bindings share an object, and roles
  that share one have the same rules.
\<close>

definition no_clash :: "WSAResource set \<Rightarrow> bool" where
  "no_clash rs \<longleftrightarrow> (\<forall>res \<in> rs. \<forall>res' \<in> rs.
     (\<forall>ref \<in> set (bound_refs res). \<forall>ref' \<in> set (bound_refs res').
        binding_id res ref = binding_id res' ref' \<longrightarrow> res = res' \<and> ref = ref') \<and>
     (GetPermissionRules res \<noteq> [] \<and> GetPermissionRules res' \<noteq> [] \<and> role_id res = role_id res' \<longrightarrow>
        GetPermissionRules res = GetPermissionRules res'))"

lemma no_clash_binding:
  "no_clash rs \<Longrightarrow> res \<in> rs \<Longrightarrow> res' \<in> rs \<Longrightarrow> ref \<in> set (bound_refs res) \<Longrightarrow>
   ref' \<in> set (bound_refs res') \<Longrightarrow> binding_id res ref = binding_id res' ref' \<Longrightarrow> res = res' \<and> ref = ref'"
  unfolding no_clash_def by blast

lemma no_clash_role:
  "no_clash rs \<Longrightarrow> res \<in> rs \<Longrightarrow> res' \<in> rs \<Longrightarrow> GetPermissionRules res \<noteq> [] \<Longrightarrow>
   GetPermissionRules res' \<noteq> [] \<Longrightarrow> role_id res = role_id res' \<Longrightarrow>
   GetPermissionRules res = GetPermissionRules res'"
  unfolding no_clash_def by blast

section \<open>The requests of a plan\<close>

definition binding_request :: "'c ResourceManagementService \<Rightarrow> Subject list \<Rightarrow> WSAResource \<Rightarrow> RoleRef \<Rightarrow> request" where
  "binding_request r subjects res = (if IsClusterScoped res then crb_request else rb_request) r res subjects"

lemma obj_id_binding_request: "obj_id (snd (binding_request r subjects res ref)) = binding_id res ref"
  by (simp add: binding_request_def binding_id_def rb_request_def crb_request_def roleBindingAC_def
      clusterRoleBindingAC_def metaAC_def om_key_def key_def bindingKey_def)

lemma binding_requests_eq:
  assumes "if GetPermissionRules res = [] then map_of roles (GetNamespacedName res) = None
    else \<exists>role. map_of roles (GetNamespacedName res) = Some role \<and> om_Name (ro_Meta role) = role_name res"
  shows "binding_requests r roles subjects res = map (binding_request r subjects res) (bound_refs res)"
proof -
  have "map_of roles (GetNamespacedName res) = Some role \<Longrightarrow> om_Name (ro_Meta role) = role_name res \<Longrightarrow>
      inlineRoleRef res role = inline_ref res" for role
    by (simp add: inlineRoleRef_def inline_ref_def)
  moreover have "GetRoles res = []" if "IsClusterScoped res"
    using that by (rule wsa.cluster_roles)
  ultimately show ?thesis
    using assms by (auto simp: binding_requests_def bound_refs_def binding_request_def Let_def split: if_splits)
qed

lemma obj_id_role_request:
  "(msg, ac) \<in> set (role_requests r res) \<Longrightarrow> obj_id ac = role_id res"
  by (auto simp: role_requests_def role_id_def roleAC_def clusterRoleAC_def metaAC_def om_key_def key_def
      role_name_def split: if_splits)

lemma binding_conforms:
  "conforms (snd (binding_request r subjects res ref)) x \<Longrightarrow>
     \<exists>rb. (x = ORoleBinding rb \<or> x = OClusterRoleBinding rb) \<and> rb_RoleRef rb = ref \<and> rb_Subjects rb = subjects"
  by (cases x) (auto simp: binding_request_def rb_request_def crb_request_def conforms_def
      roleBindingAC_def clusterRoleBindingAC_def split: if_splits)

lemma role_conforms:
  "(msg, ac) \<in> set (role_requests r res) \<Longrightarrow> conforms ac x \<Longrightarrow>
     \<exists>ro. (x = ORole ro \<or> x = OClusterRole ro) \<and> ro_Rules ro = GetPermissionRules res"
  by (cases x) (auto simp: role_requests_def conforms_def roleAC_def clusterRoleAC_def split: if_splits)

text \<open>Two role requests for one object with the same rules ask for the same.\<close>

lemma role_requests_agree:
  assumes "(msg, ac) \<in> set (role_requests r res)" "(msg', ac') \<in> set (role_requests r res')"
    and "GetPermissionRules res = GetPermissionRules res'" "obj_id ac' = obj_id ac" "conforms ac' x"
  shows "conforms ac x"
  using assms
  by (cases x) (auto simp: role_requests_def conforms_def roleAC_def clusterRoleAC_def metaAC_def
      ObjectMeta_zero_def split: if_splits)

definition plan_accounts :: "go_order \<Rightarrow> Plan \<Rightarrow> (NamespacedName, string list) gomap" where
  "plan_accounts \<omega> plan = fold (\<lambda>(k, v). map_put k v) (go_range (o_key \<omega>) (pl_WSAToSANames plan)) []"

lemma stage_ensureRoleBindings_eq:
  "stage_ensureRoleBindings \<omega> e plan rs roles nss =
     EnsureRoleBindings (e_service e) rs roles (plan_accounts \<omega> plan) nss"
  by (simp add: stage_ensureRoleBindings_def plan_accounts_def fun_eq_iff)

lemma map_of_plan_accounts: "order_ok \<omega> \<Longrightarrow> map_of (plan_accounts \<omega> plan) = map_of (pl_WSAToSANames plan)"
  unfolding plan_accounts_def by (rule map_of_copy[OF order_okD(4)])

definition is_binding_kind :: "kind \<Rightarrow> bool" where
  "is_binding_kind k \<longleftrightarrow> k = KRoleBinding \<or> k = KClusterRoleBinding"

definition is_role_kind :: "kind \<Rightarrow> bool" where
  "is_role_kind k \<longleftrightarrow> k = KRole \<or> k = KClusterRole"

lemma request_kinds:
  "(msg, ac) \<in> set (all_role_requests r rs) \<Longrightarrow> is_role_kind (obj_kind ac)"
  "(msg, ac) \<in> set (account_requests accounts nss) \<Longrightarrow> obj_kind ac = KServiceAccount"
  "(msg, ac) \<in> set (all_binding_requests r roles accs nss rs) \<Longrightarrow> is_binding_kind (obj_kind ac)"
  by (auto simp: all_role_requests_def role_requests_def set_account_requests account_request_def all_binding_requests_def
      requests_for_def binding_requests_def rb_request_def crb_request_def is_role_kind_def
      is_binding_kind_def Let_def split: if_splits option.splits)

section \<open>Execution against the API contract\<close>

context resource_management
begin

lemma apply_all_kind_frame:
  assumes "apply_all r reqs c = (es, c')" and "\<And>msg ac. (msg, ac) \<in> set reqs \<Longrightarrow> obj_kind ac \<noteq> fst i"
  shows "view c' i = view c i"
proof -
  have "\<forall>(msg, ac) \<in> set reqs. obj_id ac \<noteq> i" using assms(2) by fastforce
  from apply_all_frame[OF this] show ?thesis using assms(1) by (metis snd_conv)
qed

text \<open>The three passes of a creation that reports no error.\<close>

lemma ensureAll_passes:
  assumes "ensureAll \<omega> e plan c = (None, c')" "e_service e = r" "pl_AllResources plan \<noteq> []"
  obtains roles c1 c2 where
    "EnsureRoles r (pl_AllResources plan) c = ((roles, None), c1)"
    "apply_all r (all_role_requests r (pl_AllResources plan)) c = ([], c1)"
    "apply_all r (account_requests (pl_UniqueAccounts plan) (pl_TargetNamespaces plan)) c1 = ([], c2)"
    "apply_all r (all_binding_requests r roles (plan_accounts \<omega> plan) (pl_TargetNamespaces plan)
       (pl_AllResources plan)) c2 = ([], c')"
proof -
  obtain roles c1 where 1: "EnsureRoles r (pl_AllResources plan) c = ((roles, None), c1)"
    using assms by (auto simp: ensureAll_def split: prod.splits option.splits)
  obtain c2 where 2: "EnsureServiceAccounts r (pl_UniqueAccounts plan) (pl_TargetNamespaces plan) c1 = (None, c2)"
    using assms 1 by (auto simp: ensureAll_def split: prod.splits option.splits)
  have 3: "EnsureRoleBindings r (pl_AllResources plan) roles (plan_accounts \<omega> plan) (pl_TargetNamespaces plan) c2 = (None, c')"
    using assms 1 2 by (auto simp: ensureAll_def stage_ensureRoleBindings_eq split: prod.splits option.splits)
  have "apply_all r (account_requests (pl_UniqueAccounts plan) (pl_TargetNamespaces plan)) c1 = ([], c2)"
    using 2 by (auto simp: EnsureServiceAccounts_eq split: prod.splits)
  with 1 EnsureRoles_ok(1)[OF 1] EnsureRoleBindings_ok[OF 3] that show ?thesis by blast
qed

lemma ensured_roles:
  assumes "apply_all r (all_role_requests r rs) c = ([], c')" and "no_clash (set rs)"
    and "res \<in> set rs" and "GetPermissionRules res \<noteq> []"
  shows "\<exists>ro. role_at (view c') (role_id res) = Some ro \<and> ro_Rules ro = GetPermissionRules res"
proof -
  obtain msg ac where ac: "(msg, ac) \<in> set (role_requests r res)"
    using assms(4) by (cases "IsClusterScoped res") (auto simp: role_requests_def)
  have "\<exists>x. view c' (obj_id ac) = Some x \<and> conforms ac x"
  proof (rule apply_all_ok[OF assms(1)])
    show "(msg, ac) \<in> set (all_role_requests r rs)" using ac assms(3) by (auto simp: all_role_requests_def)
    fix msg' ac' x
    assume "(msg', ac') \<in> set (all_role_requests r rs)" and id: "obj_id ac' = obj_id ac" and "conforms ac' x"
    then obtain res' where res': "res' \<in> set rs" "(msg', ac') \<in> set (role_requests r res')"
      by (auto simp: all_role_requests_def)
    then have "GetPermissionRules res' \<noteq> []" by (auto simp: role_requests_def split: if_splits)
    moreover have "role_id res = role_id res'"
      using id obj_id_role_request[OF ac] obj_id_role_request[OF res'(2)] by simp
    ultimately have "GetPermissionRules res = GetPermissionRules res'"
      using no_clash_role[OF assms(2,3) res'(1) assms(4)] by blast
    then show "conforms ac x" using role_requests_agree[OF ac res'(2)] id \<open>conforms ac' x\<close> by blast
  qed
  with obj_id_role_request[OF ac] role_conforms[OF ac] show ?thesis
    by (force simp: role_at_def)
qed

lemma ensured_accounts:
  assumes "apply_all r (account_requests accounts nss) c = ([], c')"
    and "distinct (map (om_Name \<circ> sa_Meta) accounts)" and "sa \<in> set accounts" and "ns \<in> set nss"
  shows "\<exists>x. view c' (KServiceAccount, key ns (om_Name (sa_Meta sa))) = Some x \<and>
    conforms (OServiceAccount (serviceAccountAC ns sa)) x"
proof -
  let ?ac = "OServiceAccount (serviceAccountAC ns sa)"
  have id: "obj_id (OServiceAccount (serviceAccountAC ns sa)) = (KServiceAccount, key ns (om_Name (sa_Meta sa)))" for ns sa
    by (simp add: serviceAccountAC_def om_key_def key_def Let_def)
  have "account_request sa ns \<in> set (account_requests accounts nss)"
    using assms(3,4) by (auto simp: set_account_requests)
  then have m: "(fst (account_request sa ns), ?ac) \<in> set (account_requests accounts nss)"
    by (simp add: account_request_def)
  have "\<exists>x. view c' (obj_id ?ac) = Some x \<and> conforms ?ac x"
  proof (rule apply_all_ok[OF assms(1) m])
    fix msg' ac' x
    assume a: "(msg', ac') \<in> set (account_requests accounts nss)" "obj_id ac' = obj_id ?ac" "conforms ac' x"
    then obtain sa' ns' where sa': "sa' \<in> set accounts" "ac' = OServiceAccount (serviceAccountAC ns' sa')"
      by (auto simp: set_account_requests account_request_def)
    with a(2) have "ns' = ns" "om_Name (sa_Meta sa') = om_Name (sa_Meta sa)"
      unfolding sa'(2) id by (simp_all add: key_def)
    moreover have "sa' = sa"
      using assms(2,3) sa'(1) calculation(2) by (auto simp: distinct_map inj_on_def)
    ultimately show "conforms ?ac x" using a(3) sa'(2) by simp
  qed
  then show ?thesis unfolding id .
qed

lemma ensured_bindings:
  assumes "apply_all r (all_binding_requests r roles accs nss rs) c = ([], c')" and "no_clash (set rs)"
    and roles: "\<And>res. res \<in> set rs \<Longrightarrow>
      if GetPermissionRules res = [] then map_of roles (GetNamespacedName res) = None
      else \<exists>role. map_of roles (GetNamespacedName res) = Some role \<and> om_Name (ro_Meta role) = role_name res"
    and "res \<in> set rs" and "ref \<in> set (bound_refs res)"
    and "map_of accs (GetNamespacedName res) = Some as" and "as \<noteq> []"
  shows "\<exists>rb. binding_at (view c') (binding_id res ref) = Some rb \<and> rb_RoleRef rb = ref \<and>
    rb_Subjects rb = subjects_of as nss"
proof -
  have reqs: "requests_for r roles accs nss res' =
      (case map_of accs (GetNamespacedName res') of None \<Rightarrow> [] | Some as \<Rightarrow>
         if as = [] then [] else map (binding_request r (subjects_of as nss) res') (bound_refs res'))"
    if "res' \<in> set rs" for res'
    by (simp only: requests_for_def binding_requests_eq[OF roles[OF that]])
  let ?q = "binding_request r (subjects_of as nss) res ref"
  have "?q \<in> set (requests_for r roles accs nss res)"
    using assms(5-7) by (simp add: reqs[OF assms(4)])
  then have q: "?q \<in> set (all_binding_requests r roles accs nss rs)"
    using assms(4) unfolding all_binding_requests_def by auto
  have "\<exists>x. view c' (obj_id (snd ?q)) = Some x \<and> conforms (snd ?q) x"
  proof (rule apply_all_ok[OF assms(1)])
    show "(fst ?q, snd ?q) \<in> set (all_binding_requests r roles accs nss rs)" using q by simp
    fix msg' ac' x
    assume a: "(msg', ac') \<in> set (all_binding_requests r roles accs nss rs)"
      "obj_id ac' = obj_id (snd ?q)" "conforms ac' x"
    then obtain res' where res': "res' \<in> set rs" "(msg', ac') \<in> set (requests_for r roles accs nss res')"
      by (auto simp: all_binding_requests_def)
    obtain as' ref' where b: "map_of accs (GetNamespacedName res') = Some as'"
      "ref' \<in> set (bound_refs res')" "(msg', ac') = binding_request r (subjects_of as' nss) res' ref'"
      using res'(2) unfolding reqs[OF res'(1)]
      by (cases "map_of accs (GetNamespacedName res')") (auto split: if_splits)
    have "binding_id res ref = binding_id res' ref'"
      using a(2) b(3) obj_id_binding_request[of r _ res' ref'] obj_id_binding_request[of r _ res ref]
      by (metis snd_conv)
    then have "res' = res" "ref' = ref"
      using no_clash_binding[OF assms(2,4) res'(1) assms(5) b(2)] by simp_all
    with b assms(6) a(3) show "conforms (snd ?q) x" by (metis option.inject snd_conv)
  qed
  then obtain x where x: "view c' (binding_id res ref) = Some x" "conforms (snd ?q) x"
    unfolding obj_id_binding_request by blast
  from binding_conforms[OF x(2)] x(1) show ?thesis by (auto simp: binding_at_def)
qed

text \<open>What garbage collection treats as expected.\<close>

lemma kind_changes:
  "GarbageCollectServiceAccounts r exp nss c = (e, c') \<Longrightarrow> view c' i \<noteq> view c i \<Longrightarrow> fst i = KServiceAccount"
  "GarbageCollectRoles r rs c = (e, c') \<Longrightarrow> view c' i \<noteq> view c i \<Longrightarrow> fst i = KRole"
  "GarbageCollectRoleBindings r rs nss c = (e, c') \<Longrightarrow> view c' i \<noteq> view c i \<Longrightarrow> fst i = KRoleBinding"
  "GarbageCollectClusterRoleBindings r rs c = (e, c') \<Longrightarrow> view c' i \<noteq> view c i \<Longrightarrow> fst i = KClusterRoleBinding"
  using GarbageCollectServiceAccounts_safe GarbageCollectRoles_safe GarbageCollectRoleBindings_safe
    GarbageCollectClusterRoleBindings_safe view_id
  by (metis fst_conv obj_kind.simps)+

end

definition expected :: "Plan \<Rightarrow> object \<Rightarrow> bool" where
  "expected plan x =
     (case x of
        OServiceAccount sa \<Rightarrow> om_Namespace (sa_Meta sa) \<in> set (pl_TargetNamespaces plan) \<and>
          om_Name (sa_Meta sa) \<in> (om_Name \<circ> sa_Meta) ` set (pl_UniqueAccounts plan)
      | ORole ro \<Rightarrow> om_Name (ro_Meta ro) \<in> set (expectedRoles (pl_AllResources plan))
      | ORoleBinding rb \<Rightarrow> om_key (rb_Meta rb) \<in> set (expectedBindings (pl_AllResources plan))
      | OClusterRoleBinding rb \<Rightarrow> om_Name (rb_Meta rb) \<in> set (expectedClusterBindings (pl_AllResources plan))
      | _ \<Rightarrow> True)"

context resource_management
begin

lemma garbageCollect_chain:
  assumes "garbageCollect e plan rs nss c = (err, c')" "e_service e = r"
  obtains e1 e2 e3 e4 c1 c2 c3 c4 where
    "GarbageCollectServiceAccounts r (fold (\<lambda>sa. List.insert (om_Name (sa_Meta sa))) (pl_UniqueAccounts plan) [])
       (fold List.insert nss []) c = (e1, c1)"
    "GarbageCollectRoles r rs c1 = (e2, c2)" "GarbageCollectRoleBindings r rs nss c2 = (e3, c3)"
    "GarbageCollectClusterRoleBindings r rs c3 = (e4, c4)" "c' \<in> {c1, c2, c3, c4}"
    "err = None \<Longrightarrow> e1 = None \<and> e2 = None \<and> e3 = None \<and> e4 = None \<and> c' = c4"
proof -
  obtain e1 c1 where 1: "GarbageCollectServiceAccounts r (fold (\<lambda>sa. List.insert (om_Name (sa_Meta sa))) (pl_UniqueAccounts plan) [])
       (fold List.insert nss []) c = (e1, c1)" by fastforce
  obtain e2 c2 where 2: "GarbageCollectRoles r rs c1 = (e2, c2)" by fastforce
  obtain e3 c3 where 3: "GarbageCollectRoleBindings r rs nss c2 = (e3, c3)" by fastforce
  obtain e4 c4 where 4: "GarbageCollectClusterRoleBindings r rs c3 = (e4, c4)" by fastforce
  have "c' \<in> {c1, c2, c3, c4}" "err = None \<Longrightarrow> e1 = None \<and> e2 = None \<and> e3 = None \<and> e4 = None \<and> c' = c4"
    using assms by (auto simp: garbageCollect_def 1 2 3 4 split: option.splits)
  with 1 2 3 4 that show ?thesis by blast
qed

lemma fold_names: "set (fold (\<lambda>sa. List.insert (om_Name (sa_Meta sa))) xs []) = (om_Name \<circ> sa_Meta) ` set xs"
  by (simp add: set_fold_insert_map)

lemma garbageCollect_safe:
  assumes "garbageCollect e plan (pl_AllResources plan) (pl_TargetNamespaces plan) c = (err, c')" "e_service e = r"
    and changed: "view c' i \<noteq> view c i"
  shows "\<exists>x. view c i = Some x \<and> managed x \<and> \<not> expected plan x"
  using assms(1,2)
proof (rule garbageCollect_chain)
  fix e1 e2 e3 e4 c1 c2 c3 c4
  assume 1: "GarbageCollectServiceAccounts r (fold (\<lambda>sa. List.insert (om_Name (sa_Meta sa))) (pl_UniqueAccounts plan) [])
       (fold List.insert (pl_TargetNamespaces plan) []) c = (e1, c1)"
    and 2: "GarbageCollectRoles r (pl_AllResources plan) c1 = (e2, c2)"
    and 3: "GarbageCollectRoleBindings r (pl_AllResources plan) (pl_TargetNamespaces plan) c2 = (e3, c3)"
    and 4: "GarbageCollectClusterRoleBindings r (pl_AllResources plan) c3 = (e4, c4)"
    and c': "c' \<in> {c1, c2, c3, c4}"
  have s1: "view c1 i \<noteq> view c i \<Longrightarrow> ?thesis"
    using GarbageCollectServiceAccounts_safe[OF 1] fold_names
    by (fastforce simp: expected_def shouldDeleteServiceAccount_def)
  have s2: "view c2 i \<noteq> view c1 i \<Longrightarrow> view c1 i = view c i \<Longrightarrow> ?thesis"
    using GarbageCollectRoles_safe[OF 2, of i] by (auto simp: expected_def)
  have s3: "view c3 i \<noteq> view c2 i \<Longrightarrow> view c2 i = view c i \<Longrightarrow> ?thesis"
    using GarbageCollectRoleBindings_safe[OF 3, of i] by (auto simp: expected_def)
  have s4: "view c4 i \<noteq> view c3 i \<Longrightarrow> view c3 i = view c i \<Longrightarrow> ?thesis"
    using GarbageCollectClusterRoleBindings_safe[OF 4, of i] by (auto simp: expected_def)
  show ?thesis
  proof (rule ccontr)
    assume no: "\<not> ?thesis"
    have v1: "view c1 i = view c i" using no s1 by argo
    have v2: "view c2 i = view c i" using no s2 v1 by argo
    have v3: "view c3 i = view c i" using no s3 v2 by argo
    have v4: "view c4 i = view c i" using no s4 v3 by argo
    show False using changed c' v1 v2 v3 v4 by auto
  qed
qed

lemma garbageCollect_complete:
  assumes "garbageCollect e plan (pl_AllResources plan) (pl_TargetNamespaces plan) c = (None, c')" "e_service e = r"
    and final: "view c' i = Some x" "managed x" "\<not> terminating x"
  shows "expected plan x"
  using assms(1,2)
proof (rule garbageCollect_chain)
  fix e1 e2 e3 e4 c1 c2 c3 c4
  assume 1: "GarbageCollectServiceAccounts r (fold (\<lambda>sa. List.insert (om_Name (sa_Meta sa))) (pl_UniqueAccounts plan) [])
       (fold List.insert (pl_TargetNamespaces plan) []) c = (e1, c1)"
    and 2: "GarbageCollectRoles r (pl_AllResources plan) c1 = (e2, c2)"
    and 3: "GarbageCollectRoleBindings r (pl_AllResources plan) (pl_TargetNamespaces plan) c2 = (e3, c3)"
    and 4: "GarbageCollectClusterRoleBindings r (pl_AllResources plan) c3 = (e4, c4)"
    and "None = None \<Longrightarrow> e1 = None \<and> e2 = None \<and> e3 = None \<and> e4 = None \<and> c' = c4"
  then have ok: "e1 = None" "e2 = None" "e3 = None" "e4 = None" "c4 = c'" by simp_all
  have i: "fst i = obj_kind x" using view_id[OF final(1)] by auto
  have k3: "view c3 i = Some x" if "obj_kind x \<noteq> KClusterRoleBinding"
    using kind_changes(4)[OF 4, of i] that i final(1) ok(5) by metis
  have k2: "view c2 i = Some x" if "obj_kind x \<noteq> KClusterRoleBinding" "obj_kind x \<noteq> KRoleBinding"
    using kind_changes(3)[OF 3, of i] that i k3 by metis
  have k1: "view c1 i = Some x" if "obj_kind x = KServiceAccount"
    using kind_changes(2)[OF 2, of i] that i k2 by (metis kind.distinct)
  show ?thesis
  proof (cases x)
    case (OServiceAccount sa)
    with GarbageCollectServiceAccounts_complete[OF 1[unfolded ok(1)], of i sa] k1 final(2,3) show ?thesis
      by (simp add: expected_def fold_names)
  next
    case (ORole ro)
    with GarbageCollectRoles_complete[OF 2[unfolded ok(2)], of i ro] k2 final(2,3) show ?thesis
      by (simp add: expected_def)
  next
    case (ORoleBinding rb)
    with GarbageCollectRoleBindings_complete[OF 3[unfolded ok(3)], of i rb] k3 final(2,3) show ?thesis
      by (simp add: expected_def)
  next
    case (OClusterRoleBinding rb)
    with GarbageCollectClusterRoleBindings_complete[OF 4[unfolded ok(4)], of i rb] final ok(5) show ?thesis
      by (simp add: expected_def)
  qed (simp_all add: expected_def)
qed

end

end
