(* ===== verification/Access.thy ===== *)
theory Access
  imports Stages
begin

text \<open>
  What a successful pass through the three stages guarantees, from the resources in the cluster to
  the pods: a deployment that matches a resource is given an account that exists in every target
  namespace and is a subject of a binding for every role of that resource; the managed role
  bindings left in the cluster are exactly those of the live resources, with exactly their
  accounts as subjects; and nothing outside the plan that does not carry the controller's label
  is touched, whether the pass succeeds or not.
\<close>

section \<open>Plans\<close>

definition plan_ok :: "Plan \<Rightarrow> bool" where
  "plan_ok plan \<longleftrightarrow>
     keys_distinct (pl_AllResources plan) \<and>
     distinct (map (om_Name \<circ> sa_Meta) (pl_UniqueAccounts plan)) \<and>
     (\<forall>k as. map_of (pl_WSAToSANames plan) k = Some as \<longrightarrow>
        set as \<subseteq> (om_Name \<circ> sa_Meta) ` set (pl_UniqueAccounts plan)) \<and>
     (\<forall>res \<in> set (pl_AllResources plan). \<exists>as.
        map_of (pl_WSAToSANames plan) (GetNamespacedName res) = Some as \<and> as \<noteq> [])"

lemma planFor_simps [simp]:
  "pl_ScopeToSA (planFor \<omega> rs nss) = scopeToSA_of \<omega> (scopeMap_of \<omega> rs)"
  "pl_SAToWSAMap (planFor \<omega> rs nss) = saToWSAs_of \<omega> (scopeMap_of \<omega> rs)"
  "pl_WSAToSANames (planFor \<omega> rs nss) = convertWSAToSANames \<omega> (wsaToSANames_of \<omega> (scopeMap_of \<omega> rs))"
  "pl_Vocabulary (planFor \<omega> rs nss) = Some (vocab_of rs)"
  "pl_UniqueAccounts (planFor \<omega> rs nss) = accounts_of \<omega> (scopeMap_of \<omega> rs)"
  "pl_AllResources (planFor \<omega> rs nss) = rs"
  "pl_TargetNamespaces (planFor \<omega> rs nss) = nss"
  by (simp_all add: planFor_def case_prod_beta Let_def ComputeScopes_snd)

lemma map_of_convert: "order_ok \<omega> \<Longrightarrow> map_of (convertWSAToSANames \<omega> m) = map_of m"
  using map_of_copy[OF order_okD(4)] by (simp add: convertWSAToSANames_def)

lemma planFor_ok:
  assumes "order_ok \<omega>" "names_valid rs"
  shows "plan_ok (planFor \<omega> rs nss)"
proof -
  let ?sm = "scopeMap_of \<omega> rs"
  let ?m = "wsaToSANames_of \<omega> ?sm"
  have "set as \<subseteq> (om_Name \<circ> sa_Meta) ` set (accounts_of \<omega> ?sm)" if "map_of ?m k = Some as" for k as
  proof -
    have "set as = accounts_bound ?m k" using that by (simp add: accounts_bound_def)
    then show ?thesis
      unfolding accounts_bound_eq[OF assms(1)] names_accounts_of(1)[OF assms(1)] by blast
  qed
  moreover have "\<exists>as. map_of ?m (GetNamespacedName res) = Some as \<and> as \<noteq> []" if res: "res \<in> set rs" for res
  proof -
    have "accounts_bound ?m (GetNamespacedName res) \<noteq> {}"
      using covers_some[OF res] accounts_bound_covering[OF assms res] by auto
    then show ?thesis by (auto simp: accounts_bound_def split: option.splits)
  qed
  ultimately show ?thesis
    using names_validD[OF assms(2)] names_accounts_of(2)[OF assms(1)]
    by (simp add: plan_ok_def map_of_convert[OF assms(1)])
qed

section \<open>Granted access\<close>

text \<open>
  The account \<open>n\<close> has, in the cluster \<open>m\<close>, the access that the resource \<open>res\<close> grants: it exists in
  every target namespace, every role of the resource is bound with it as a subject, and the role
  made from inline permissions has exactly those rules.
\<close>

definition granted :: "cluster \<Rightarrow> string list \<Rightarrow> WSAResource \<Rightarrow> ServiceAccountName \<Rightarrow> bool" where
  "granted m nss res n \<longleftrightarrow>
     (\<forall>ns \<in> set nss.
        (\<exists>sa. m (KServiceAccount, key ns n) = Some (OServiceAccount sa) \<and> managed (OServiceAccount sa)) \<and>
        (\<forall>ref \<in> set (bound_refs res). \<exists>rb. binding_at m (binding_id res ref) = Some rb \<and>
           rb_RoleRef rb = ref \<and>
           \<lparr>su_Kind = ''ServiceAccount'', su_Name = n, su_Namespace = ns\<rparr> \<in> set (rb_Subjects rb))) \<and>
     (GetPermissionRules res \<noteq> [] \<longrightarrow>
        (\<exists>ro. role_at m (role_id res) = Some ro \<and> ro_Rules ro = GetPermissionRules res))"

lemma bound_role_names_eq: "bound_role_names res = rr_Name ` set (bound_refs res)"
  by (simp add: bound_refs_def bound_role_names_def inline_ref_def image_Un Un_ac)

lemma bound_refs_names: "ref \<in> set (bound_refs res) \<Longrightarrow> rr_Name ref \<in> bound_role_names res"
  by (simp add: bound_role_names_eq)

lemma expected_binding:
  assumes "res \<in> set (pl_AllResources plan)" "ref \<in> set (bound_refs res)" "obj_id x = binding_id res ref"
  shows "expected plan x"
proof (cases "IsClusterScoped res")
  case True
  with assms(3) obtain rb where x: "x = OClusterRoleBinding rb"
    and n: "om_Name (rb_Meta rb) = clusterRoleBindingName (GetName res) (rr_Name ref)"
    by (cases x) (auto simp: binding_id_def key_def om_key_def)
  have "rr_Name ref \<in> (if GetPermissionRules res = [] then {} else {role_name res}) \<union> rr_Name ` set (GetClusterRoles res)"
    using bound_refs_names[OF assms(2)] wsa.cluster_roles[OF True] by (simp add: bound_role_names_def)
  then have "clusterRoleBindingName (GetName res) (rr_Name ref) \<in> set (expectedClusterBindings (pl_AllResources plan))"
    unfolding set_expectedClusterBindings using assms(1) by blast
  then show ?thesis by (simp add: x n expected_def)
next
  case False
  with assms(3) obtain rb where x: "x = ORoleBinding rb"
    and k: "om_key (rb_Meta rb) = bindingKey res (rr_Name ref)"
    by (cases x) (auto simp: binding_id_def)
  then show ?thesis
    using assms(1) False bound_refs_names[OF assms(2)]
    by (auto simp: expected_def set_expectedBindings)
qed

lemma expected_role:
  assumes "res \<in> set (pl_AllResources plan)" "GetPermissionRules res \<noteq> []" "obj_id x = role_id res"
  shows "expected plan x"
  using assms
  by (cases x) (auto simp: role_id_def expected_def set_expectedRoles om_key_def key_def split: if_splits)

lemma expected_account:
  assumes "n \<in> (om_Name \<circ> sa_Meta) ` set (pl_UniqueAccounts plan)" "ns \<in> set (pl_TargetNamespaces plan)"
    and "obj_id x = (KServiceAccount, key ns n)"
  shows "expected plan x"
  using assms by (cases x) (auto simp: expected_def om_key_def key_def)

lemma ExecutionStage_ok:
  assumes "ExecutionStage_Execute \<omega> e batch c = (None, e', c')"
  obtains plan c1 where "ba_Plan batch = Some plan" "pl_TargetNamespaces plan \<noteq> []"
    "ensureAll \<omega> e plan c = (None, c1)"
    "garbageCollect e plan (pl_AllResources plan) (pl_TargetNamespaces plan) c1 = (None, c')"
    "ApplyBatchPlan (plan_as_BatchPlan plan) e = (None, e')"
  using assms
  by (auto simp: ExecutionStage_Execute_def split: option.splits if_splits prod.splits)

context resource_management
begin

lemma garbageCollect_keeps:
  assumes "garbageCollect e plan (pl_AllResources plan) (pl_TargetNamespaces plan) c = (err, c')" "e_service e = r"
    and "\<And>x. obj_id x = i \<Longrightarrow> expected plan x"
  shows "view c' i = view c i"
  using garbageCollect_safe[OF assms(1,2), of i] assms(3) view_id by blast

lemma execution_grants:
  assumes ex: "ExecutionStage_Execute \<omega> e batch c = (None, e', c')" and plan: "ba_Plan batch = Some plan"
    and e: "e_service e = r" and ok: "order_ok \<omega>" "plan_ok plan" "no_clash (set (pl_AllResources plan))"
    and res: "res \<in> set (pl_AllResources plan)"
    and as: "map_of (pl_WSAToSANames plan) (GetNamespacedName res) = Some as" "n \<in> set as"
  shows "granted (view c') (pl_TargetNamespaces plan) res n"
    and "ref \<in> set (bound_refs res) \<Longrightarrow> \<exists>rb. binding_at (view c') (binding_id res ref) = Some rb \<and>
      rb_RoleRef rb = ref \<and> rb_Subjects rb = subjects_of as (pl_TargetNamespaces plan)"
proof -
  let ?rs = "pl_AllResources plan" and ?nss = "pl_TargetNamespaces plan"
  obtain c1 where en: "ensureAll \<omega> e plan c = (None, c1)" and gc: "garbageCollect e plan ?rs ?nss c1 = (None, c')"
    using ex plan by (elim ExecutionStage_ok) simp
  note keeps = garbageCollect_keeps[OF gc e]
  have "?rs \<noteq> []" using res by auto
  from en e this obtain roles ca cb where
    1: "EnsureRoles r ?rs c = ((roles, None), ca)" "apply_all r (all_role_requests r ?rs) c = ([], ca)"
    and 2: "apply_all r (account_requests (pl_UniqueAccounts plan) ?nss) ca = ([], cb)"
    and 3: "apply_all r (all_binding_requests r roles (plan_accounts \<omega> plan) ?nss ?rs) cb = ([], c1)"
    by (rule ensureAll_passes)
  have roles: "GetPermissionRules res \<noteq> [] \<Longrightarrow>
      \<exists>ro. role_at (view c') (role_id res) = Some ro \<and> ro_Rules ro = GetPermissionRules res"
  proof -
    assume p: "GetPermissionRules res \<noteq> []"
    have k: "is_role_kind (fst (role_id res))" by (simp add: role_id_def is_role_kind_def)
    have "view c1 (role_id res) = view ca (role_id res)"
      using apply_all_kind_frame[OF 2, of "role_id res"] apply_all_kind_frame[OF 3, of "role_id res"]
        request_kinds(2,3) k by (metis is_binding_kind_def is_role_kind_def kind.distinct)
    moreover have "view c' (role_id res) = view c1 (role_id res)"
      by (rule keeps) (rule expected_role[OF res p])
    ultimately show ?thesis
      using ensured_roles[OF 1(2) ok(3) res p] by (simp add: role_at_def)
  qed
  have bindings: "\<exists>rb. binding_at (view c') (binding_id res ref) = Some rb \<and> rb_RoleRef rb = ref \<and>
      rb_Subjects rb = subjects_of as ?nss" if ref: "ref \<in> set (bound_refs res)" for ref
  proof -
    have "map_of (plan_accounts \<omega> plan) (GetNamespacedName res) = Some as" "as \<noteq> []"
      using as by (auto simp: map_of_plan_accounts[OF ok(1)])
    moreover have "keys_distinct ?rs" using ok(2) by (simp add: plan_ok_def)
    ultimately have "\<exists>rb. binding_at (view c1) (binding_id res ref) = Some rb \<and> rb_RoleRef rb = ref \<and>
        rb_Subjects rb = subjects_of as ?nss"
      using ensured_bindings[OF 3 ok(3) EnsureRoles_ok(2)[OF 1(1)] res ref] by blast
    moreover have "view c' (binding_id res ref) = view c1 (binding_id res ref)"
      by (rule keeps) (rule expected_binding[OF res ref])
    ultimately show ?thesis by (simp add: binding_at_def)
  qed
  then show "ref \<in> set (bound_refs res) \<Longrightarrow> \<exists>rb. binding_at (view c') (binding_id res ref) = Some rb \<and>
      rb_RoleRef rb = ref \<and> rb_Subjects rb = subjects_of as ?nss" by blast
  have accounts: "\<exists>sa. view c' (KServiceAccount, key ns n) = Some (OServiceAccount sa) \<and> managed (OServiceAccount sa)"
    if ns: "ns \<in> set ?nss" for ns
  proof -
    have n: "n \<in> (om_Name \<circ> sa_Meta) ` set (pl_UniqueAccounts plan)"
      using ok(2) as by (auto simp: plan_ok_def)
    then obtain sa where sa: "sa \<in> set (pl_UniqueAccounts plan)" "n = om_Name (sa_Meta sa)" by auto
    have "distinct (map (om_Name \<circ> sa_Meta) (pl_UniqueAccounts plan))" using ok(2) by (simp add: plan_ok_def)
    from ensured_accounts[OF 2 this sa(1) ns] obtain x where
      x: "view cb (KServiceAccount, key ns n) = Some x" "conforms (OServiceAccount (serviceAccountAC ns sa)) x"
      using sa(2) by auto
    have "view c1 (KServiceAccount, key ns n) = view cb (KServiceAccount, key ns n)"
      using apply_all_kind_frame[OF 3, of "(KServiceAccount, key ns n)"] request_kinds(3)
      by (metis fst_conv is_binding_kind_def kind.distinct)
    moreover have "view c' (KServiceAccount, key ns n) = view c1 (KServiceAccount, key ns n)"
      by (rule keeps) (rule expected_account[OF n ns])
    moreover obtain sa' where "x = OServiceAccount sa'" "managed x"
      using x(2) by (cases x) (auto simp: conforms_def managed_iff serviceAccountAC_def map_of_put map_le_def Let_def)
    ultimately show ?thesis using x(1) by auto
  qed
  have "\<lparr>su_Kind = ''ServiceAccount'', su_Name = n, su_Namespace = ns\<rparr> \<in> set (subjects_of as ?nss)"
    if "ns \<in> set ?nss" for ns
    using as(2) that by (auto simp: subjects_of_def image_iff)
  with roles bindings accounts show "granted (view c') ?nss res n"
    unfolding granted_def by metis
qed

text \<open>The role bindings that are left are those of the resources of the plan.\<close>

lemma execution_exact:
  assumes ex: "ExecutionStage_Execute \<omega> e batch c = (None, e', c')" and plan: "ba_Plan batch = Some plan"
    and e: "e_service e = r" and ok: "order_ok \<omega>" "plan_ok plan" "no_clash (set (pl_AllResources plan))"
    and rb: "view c' i = Some (ORoleBinding rb)" "managed (ORoleBinding rb)" "\<not> terminating (ORoleBinding rb)"
  shows "\<exists>res \<in> set (pl_AllResources plan). \<exists>ref \<in> set (bound_refs res). \<exists>as.
    map_of (pl_WSAToSANames plan) (GetNamespacedName res) = Some as \<and> rb_RoleRef rb = ref \<and>
    rb_Subjects rb = subjects_of as (pl_TargetNamespaces plan) \<and> i = binding_id res ref"
proof -
  obtain c1 where gc: "garbageCollect e plan (pl_AllResources plan) (pl_TargetNamespaces plan) c1 = (None, c')"
    using ex plan by (elim ExecutionStage_ok) simp
  from garbageCollect_complete[OF gc e rb]
  obtain res nm where res: "res \<in> set (pl_AllResources plan)" "\<not> IsClusterScoped res"
    and nm: "nm \<in> bound_role_names res" "om_key (rb_Meta rb) = bindingKey res nm"
    by (auto simp: expected_def set_expectedBindings)
  from nm(1) obtain ref where ref: "ref \<in> set (bound_refs res)" "rr_Name ref = nm"
    by (auto simp: bound_role_names_eq)
  have i: "i = binding_id res ref"
    using view_id[OF rb(1)] res(2) ref(2) nm(2) by (simp add: binding_id_def)
  from ok(2) res(1) obtain as where as: "map_of (pl_WSAToSANames plan) (GetNamespacedName res) = Some as" "as \<noteq> []"
    by (auto simp: plan_ok_def)
  then obtain n where "n \<in> set as" by (cases as) auto
  from execution_grants(2)[OF ex plan e ok res(1) as(1) this ref(1)] rb(1) i
  have "rb_RoleRef rb = ref" "rb_Subjects rb = subjects_of as (pl_TargetNamespaces plan)"
    by (auto simp: binding_at_def)
  with res(1) ref(1) as(1) i show ?thesis by blast
qed

end

section \<open>What execution may touch\<close>

definition plan_ids :: "Plan \<Rightarrow> object_id set" where
  "plan_ids plan =
     {role_id res | res. res \<in> set (pl_AllResources plan) \<and> GetPermissionRules res \<noteq> []} \<union>
     {(KServiceAccount, key ns (om_Name (sa_Meta sa))) | ns sa.
        ns \<in> set (pl_TargetNamespaces plan) \<and> sa \<in> set (pl_UniqueAccounts plan)} \<union>
     {binding_id res ref | res ref. res \<in> set (pl_AllResources plan) \<and> ref \<in> set (bound_refs res)}"

context resource_management
begin

lemma request_ids:
  "(msg, ac) \<in> set (all_role_requests r (pl_AllResources plan)) \<Longrightarrow> obj_id ac \<in> plan_ids plan"
  "(msg, ac) \<in> set (account_requests (pl_UniqueAccounts plan) (pl_TargetNamespaces plan)) \<Longrightarrow>
     obj_id ac \<in> plan_ids plan"
proof -
  assume "(msg, ac) \<in> set (all_role_requests r (pl_AllResources plan))"
  then obtain res where res: "res \<in> set (pl_AllResources plan)" "(msg, ac) \<in> set (role_requests r res)"
    by (auto simp: all_role_requests_def)
  then have "GetPermissionRules res \<noteq> []" by (auto simp: role_requests_def split: if_splits)
  with res obj_id_role_request[OF res(2)] show "obj_id ac \<in> plan_ids plan" unfolding plan_ids_def by blast
next
  assume "(msg, ac) \<in> set (account_requests (pl_UniqueAccounts plan) (pl_TargetNamespaces plan))"
  then obtain sa ns where "sa \<in> set (pl_UniqueAccounts plan)" "ns \<in> set (pl_TargetNamespaces plan)"
    "ac = OServiceAccount (serviceAccountAC ns sa)"
    by (auto simp: set_account_requests account_request_def)
  moreover have "obj_id (OServiceAccount (serviceAccountAC ns sa)) = (KServiceAccount, key ns (om_Name (sa_Meta sa)))" for sa ns
    by (simp add: serviceAccountAC_def om_key_def key_def Let_def)
  ultimately show "obj_id ac \<in> plan_ids plan" unfolding plan_ids_def by blast
qed

lemma binding_request_ids:
  assumes "EnsureRoles r (pl_AllResources plan) c = ((roles, None), c')" "keys_distinct (pl_AllResources plan)"
    and "(msg, ac) \<in> set (all_binding_requests r roles accs nss (pl_AllResources plan))"
  shows "obj_id ac \<in> plan_ids plan"
proof -
  obtain res where res: "res \<in> set (pl_AllResources plan)" "(msg, ac) \<in> set (requests_for r roles accs nss res)"
    using assms(3) by (auto simp: all_binding_requests_def)
  obtain as ref where "ref \<in> set (bound_refs res)" "(msg, ac) = binding_request r (subjects_of as nss) res ref"
    using res(2)
    unfolding requests_for_def binding_requests_eq[OF EnsureRoles_ok(2)[OF assms(1,2) res(1)]]
    by (cases "map_of accs (GetNamespacedName res)") (auto split: if_splits)
  with res(1) obj_id_binding_request[of r "subjects_of as nss" res ref] show ?thesis
    unfolding plan_ids_def by (metis (mono_tags, lifting) Un_iff mem_Collect_eq snd_conv)
qed

lemma apply_all_outside:
  assumes "apply_all r reqs c = (es, c')" "i \<notin> ids" "\<And>msg ac. (msg, ac) \<in> set reqs \<Longrightarrow> obj_id ac \<in> ids"
  shows "view c' i = view c i"
proof -
  have "\<forall>(msg, ac) \<in> set reqs. obj_id ac \<noteq> i" using assms(2,3) by blast
  from apply_all_frame[OF this] show ?thesis using assms(1) by (metis snd_conv)
qed

lemma ensureAll_frame:
  assumes "ensureAll \<omega> e plan c = (err, c')" "e_service e = r" "keys_distinct (pl_AllResources plan)"
    and "i \<notin> plan_ids plan"
  shows "view c' i = view c i"
proof (cases "pl_AllResources plan = []")
  case True
  with assms show ?thesis by (simp add: ensureAll_def)
next
  case False
  obtain roles e1 c1 where 1: "EnsureRoles r (pl_AllResources plan) c = ((roles, e1), c1)"
    by (metis prod.exhaust)
  then have "c1 = snd (apply_all r (all_role_requests r (pl_AllResources plan)) c)"
    using EnsureRoles_state by (metis snd_conv)
  then have v1: "view c1 i = view c i"
    using apply_all_outside[OF prod.collapse[symmetric] assms(4) request_ids(1)] by simp
  obtain e2 c2 where 2: "EnsureServiceAccounts r (pl_UniqueAccounts plan) (pl_TargetNamespaces plan) c1 = (e2, c2)"
    by fastforce
  then have "c2 = snd (apply_all r (account_requests (pl_UniqueAccounts plan) (pl_TargetNamespaces plan)) c1)"
    by (auto simp: EnsureServiceAccounts_eq split: prod.splits)
  then have v2: "view c2 i = view c i"
    using apply_all_outside[OF prod.collapse[symmetric] assms(4) request_ids(2)] v1 by simp
  obtain e3 c3 where 3: "EnsureRoleBindings r (pl_AllResources plan) roles (plan_accounts \<omega> plan)
      (pl_TargetNamespaces plan) c2 = (e3, c3)"
    by fastforce
  have v3: "view c3 i = view c i" if "e1 = None"
  proof -
    have "c3 = snd (apply_all r (all_binding_requests r roles (plan_accounts \<omega> plan) (pl_TargetNamespaces plan)
        (pl_AllResources plan)) c2)"
      using EnsureRoleBindings_state 3 by (metis snd_conv)
    then show ?thesis
      using apply_all_outside[OF prod.collapse[symmetric] assms(4) binding_request_ids[OF 1[unfolded that] assms(3)]] v2
      by simp
  qed
  show ?thesis
    using assms(1,2) False 1 2 3 v1 v2 v3
    by (auto simp: ensureAll_def stage_ensureRoleBindings_eq split: option.splits)
qed

lemma execution_frame:
  assumes "ExecutionStage_Execute \<omega> e batch c = (err, e', c')" "ba_Plan batch = Some plan" "e_service e = r"
    and "keys_distinct (pl_AllResources plan)" "i \<notin> plan_ids plan" "view c' i \<noteq> view c i"
  shows "\<exists>x. view c i = Some x \<and> managed x \<and> \<not> expected plan x"
proof -
  have "c' \<noteq> c" using assms(6) by auto
  then obtain e1 c1 where 1: "ensureAll \<omega> e plan c = (e1, c1)" by fastforce
  obtain e2 c2 where 2: "garbageCollect e plan (pl_AllResources plan) (pl_TargetNamespaces plan) c1 = (e2, c2)"
    by fastforce
  have v1: "view c1 i = view c i" by (rule ensureAll_frame[OF 1 assms(3-5)])
  have "c' = c2"
    using assms(1,2,6) v1 by (auto simp: ExecutionStage_Execute_def 1 2 ApplyBatchPlan_def Let_def
        split: option.splits if_splits)
  with garbageCollect_safe[OF 2 assms(3), of i] v1 assms(6) show ?thesis by simp
qed

end

end
