(* ===== verification/Passes.thy ===== *)
theory Passes
  imports Access
begin

text \<open>
  The stages on top of the contracts of the API client and the engine: planning and validation
  leave the cluster alone, planning plans for exactly the live resources of the cluster, and a plan
  that passes validation takes over no account of another owner and targets existing namespaces.
\<close>

section \<open>The engine on top of the API contract\<close>

text \<open>
  An engine the program can reach, whose client keeps the contract of the API and whose namespace
  cache is not part of the cluster.
\<close>

locale engine_api = api_client_current "e_client e" view
  for e :: "'c InMemoryEngine" and view +
  assumes reachable: "engine_reachable e"
    and cache_Get: "e_namespaceCache e = Some cache \<Longrightarrow> lru_Get cache k c = (hit, c') \<Longrightarrow> view c' = view c"
    and cache_Add: "e_namespaceCache e = Some cache \<Longrightarrow> view (lru_Add cache k nss c) = view c"

sublocale engine_api \<subseteq> rm: resource_management "e_service e" view
proof -
  have "rms_client (e_service e) = e_client e" "rms_gcTracker (e_service e) = None"
    using engine_reachable_ok[OF reachable] by (auto simp: engine_ok_def)
  then show "resource_management (e_service e) view"
    using api_client_current_axioms by (simp add: resource_management_def resource_management_axioms_def)
qed

context engine_api
begin

lemma same_client: "rms_client (e_service e) = e_client e"
  by (rule engine_ok_client[OF engine_reachable_ok[OF reachable]])

lemma discover_frame:
  assumes "GetOrDiscoverTargetNamespaces \<omega> e c = (nss, c')"
  shows "view c' = view c"
proof (cases "e_namespaceCache e")
  case None
  with assms show ?thesis by (simp add: GetOrDiscoverTargetNamespaces_def)
next
  case (Some cache)
  obtain hit c1 where 1: "lru_Get cache namespaceCacheKey c = (hit, c1)" by fastforce
  obtain found c2 where 2: "DiscoverTargetNamespaces \<omega> (e_NamespaceDiscovery e) (e_client e) c1 = (found, c2)"
    by fastforce
  have "view c2 = view c1"
    using 2 List_frame by (auto simp: DiscoverTargetNamespaces_def Let_def split: prod.splits option.splits)
  with 1 2 assms Some cache_Get[OF Some 1] cache_Add[OF Some] show ?thesis
    by (auto simp: GetOrDiscoverTargetNamespaces_def split: option.splits sum.splits)
qed

lemma planning_ok:
  assumes "PlanningStage_Execute \<omega> e batch c = (None, batch', c')"
  obtains rs nss where "ba_Plan batch' = Some (planFor \<omega> rs nss)" "set rs = cluster_resources (view c)"
    "names_valid rs" "view c' = view c"
    "ba_Resources batch' = updateBatchResourceVersions (ba_Resources batch) rs"
proof -
  obtain rs c1 where rs: "listResources e c = (Inr rs, c1)"
    using assms by (auto simp: PlanningStage_Execute_def getAllResources_def split: sum.splits prod.splits)
  moreover obtain nss where nss: "GetOrDiscoverTargetNamespaces \<omega> e c1 = (Inr nss, c')"
    "batch' = batch\<lparr>ba_Plan := Some (planFor \<omega> rs nss),
       ba_Resources := updateBatchResourceVersions (ba_Resources batch) rs\<rparr>"
    using assms rs by (auto simp: PlanningStage_Execute_def getAllResources_def split: sum.splits prod.splits)
  ultimately show ?thesis
    using that[of rs nss] listResources_current[OF same_client rs] discover_frame[OF nss(1)] by simp
qed

lemma planning_frame:
  assumes "PlanningStage_Execute \<omega> e batch c = (err, batch', c')"
  shows "view c' = view c"
proof -
  obtain res c1 where 1: "listResources e c = (res, c1)" by fastforce
  obtain nss c2 where 2: "GetOrDiscoverTargetNamespaces \<omega> e c1 = (nss, c2)" by fastforce
  have "view c1 = view c"
    using 1 List_frame unfolding same_client[symmetric]
    by (auto simp: listResources_def GetWorkloadServiceAccounts_def GetClusterWorkloadServiceAccounts_def
        list_items_def split: prod.splits sum.splits)
  with discover_frame[OF 2] assms 1 2 show ?thesis
    by (auto simp: PlanningStage_Execute_def getAllResources_def split: sum.splits)
qed

end

section \<open>Validation\<close>

text \<open>A validated plan: planned accounts that exist are managed, and the target namespaces exist.\<close>

definition validated :: "cluster \<Rightarrow> Plan \<Rightarrow> bool" where
  "validated m plan \<longleftrightarrow>
     (\<forall>sa \<in> set (pl_UniqueAccounts plan). \<forall>ns \<in> set (pl_TargetNamespaces plan). \<forall>x.
        m (KServiceAccount, key ns (om_Name (sa_Meta sa))) = Some x \<longrightarrow> managed x) \<and>
     (\<forall>ns \<in> set (pl_TargetNamespaces plan). m (KNamespace, key [] ns) \<noteq> None)"

lemma AddError_invalid [simp]: "\<not> vr_Valid (AddError t r m vr)"
  by (simp add: AddError_def)

lemma AddWarning_valid [simp]: "vr_Valid (AddWarning t r m vr) = vr_Valid vr"
  by (simp add: AddWarning_def)

context api_client_current
begin

lemma checkAccount_step:
  assumes "checkAccount cl (sa, ns) (vr, c) = (err, vr', c')"
  shows "view c' = view c" and "err = None \<Longrightarrow> vr_Valid vr' \<Longrightarrow> vr_Valid vr \<and>
    (\<forall>x. view c (KServiceAccount, key ns (om_Name (sa_Meta sa))) = Some x \<longrightarrow> managed x)"
proof -
  obtain res c1 where g: "client_Get cl KServiceAccount (key ns (om_Name (sa_Meta sa))) c = (res, c1)" by fastforce
  show "view c' = view c"
    using assms Get_frame[OF g] by (auto simp: checkAccount_def g Let_def split: sum.splits api_error.splits)
  show "vr_Valid vr \<and> (\<forall>x. view c (KServiceAccount, key ns (om_Name (sa_Meta sa))) = Some x \<longrightarrow> managed x)"
    if "err = None" "vr_Valid vr'"
    using assms that Get_found[of KServiceAccount "key ns (om_Name (sa_Meta sa))" c _ c1]
      Get_absent[of KServiceAccount "key ns (om_Name (sa_Meta sa))" c c1]
    by (auto simp: checkAccount_def g Let_def managed_def split: sum.splits api_error.splits if_splits)
qed

lemma checkRole_step:
  assumes "checkRole cl res (vr, c) = (err, vr', c')"
  shows "view c' = view c" and "vr_Valid vr' = vr_Valid vr"
  using assms Get_frame
  by (auto simp: checkRole_def Let_def split: sum.splits api_error.splits if_splits prod.splits)

lemma checkNamespace_step:
  assumes "checkNamespace cl ns (vr, c) = (err, vr', c')"
  shows "view c' = view c" and "err = None \<Longrightarrow> vr_Valid vr' \<Longrightarrow> vr_Valid vr \<and> view c (KNamespace, key [] ns) \<noteq> None"
proof -
  obtain res c1 where g: "client_Get cl KNamespace (key [] ns) c = (res, c1)" by fastforce
  show "view c' = view c"
    using assms Get_frame[OF g] by (auto simp: checkNamespace_def g split: sum.splits api_error.splits)
  show "vr_Valid vr \<and> view c (KNamespace, key [] ns) \<noteq> None" if "err = None" "vr_Valid vr'"
    using assms that Get_found[of KNamespace "key [] ns" c _ c1]
    by (auto simp: checkNamespace_def g split: sum.splits api_error.splits)
qed

lemma checkOwnerReferences_step:
  assumes "checkOwnerReferences cl batch (vr, c) = (err, vr', c')"
  shows "view c' = view c" and "err = None \<Longrightarrow> vr_Valid vr' \<Longrightarrow> \<exists>plan. ba_Plan batch = Some plan \<and> vr_Valid vr \<and>
    (\<forall>sa \<in> set (pl_UniqueAccounts plan). \<forall>ns \<in> set (pl_TargetNamespaces plan). \<forall>x.
        view c (KServiceAccount, key ns (om_Name (sa_Meta sa))) = Some x \<longrightarrow> managed x)"
proof -
  let ?I = "\<lambda>st. view (snd st) = view c"
  have acc: "?I (snd (checkAccount cl p st))" if "?I st" for p and st :: "ValidationResult \<times> 'a"
    using that checkAccount_step(1)[of "fst p" "snd p" "fst st" "snd st"]
    by (metis prod.collapse)
  have rol: "?I (snd (checkRole cl res st))" if "?I st" for res and st :: "ValidationResult \<times> 'a"
    using that checkRole_step(1)[of res "fst st" "snd st"] by (metis prod.collapse)
  show "view c' = view c"
  proof (cases "ba_Plan batch")
    case None
    with assms show ?thesis by (simp add: checkOwnerReferences_def)
  next
    case (Some plan)
    obtain e1 st1 where 1: "for_until (checkAccount cl) (List.product (pl_UniqueAccounts plan) (pl_TargetNamespaces plan)) (vr, c) = (e1, st1)"
      by (metis prod.exhaust)
    have "?I (snd (for_until (checkAccount cl) (List.product (pl_UniqueAccounts plan) (pl_TargetNamespaces plan)) (vr, c)))"
      by (rule for_until_invariant[where P = ?I]) (rule acc, simp_all)
    then have "?I st1" by (simp add: 1)
    moreover from this have "?I (snd (for_until (checkRole cl) (ba_Resources batch) st1))"
      by (rule for_until_invariant[where P = ?I, rotated]) (rule rol)
    ultimately show ?thesis
      using assms Some 1 by (auto simp: checkOwnerReferences_def split: option.splits)
  qed
  assume ok: "err = None" "vr_Valid vr'"
  then obtain plan st1 where plan: "ba_Plan batch = Some plan"
    and 1: "for_until (checkAccount cl) (List.product (pl_UniqueAccounts plan) (pl_TargetNamespaces plan)) (vr, c) = (None, st1)"
    and 2: "for_until (checkRole cl) (ba_Resources batch) st1 = (None, vr', c')"
    using assms by (auto simp: checkOwnerReferences_def split: option.splits prod.splits)
  have "vr_Valid (fst st1)"
    using for_until_all[OF 2, of "\<lambda>_. True" "\<lambda>st. vr_Valid (fst st)" "\<lambda>_. True"] ok checkRole_step(2) by fastforce
  moreover have "?I st1 \<and> (vr_Valid (fst st1) \<longrightarrow> vr_Valid (fst (vr, c)) \<and>
      (\<forall>p \<in> set (List.product (pl_UniqueAccounts plan) (pl_TargetNamespaces plan)). \<forall>x.
         view c (KServiceAccount, key (snd p) (om_Name (sa_Meta (fst p)))) = Some x \<longrightarrow> managed x))"
  proof (rule for_until_all[OF 1])
    fix p and st s1 :: "ValidationResult \<times> 'a"
    assume st: "checkAccount cl p st = (None, s1)" "view (snd st) = view c"
    then show "?I s1 \<and> (vr_Valid (fst s1) \<longrightarrow> vr_Valid (fst st) \<and>
       (\<forall>x. view c (KServiceAccount, key (snd p) (om_Name (sa_Meta (fst p)))) = Some x \<longrightarrow> managed x))"
      using checkAccount_step[of "fst p" "snd p" "fst st" "snd st" None "fst s1" "snd s1"] by simp
  qed simp
  ultimately show "\<exists>plan. ba_Plan batch = Some plan \<and> vr_Valid vr \<and>
    (\<forall>sa \<in> set (pl_UniqueAccounts plan). \<forall>ns \<in> set (pl_TargetNamespaces plan). \<forall>x.
        view c (KServiceAccount, key ns (om_Name (sa_Meta sa))) = Some x \<longrightarrow> managed x)"
    using plan by auto
qed

lemma checkNamespaceExistence_step:
  assumes "checkNamespaceExistence cl batch (vr, c) = (err, vr', c')"
  shows "view c' = view c" and "err = None \<Longrightarrow> vr_Valid vr' \<Longrightarrow> \<exists>plan. ba_Plan batch = Some plan \<and> vr_Valid vr \<and>
    (\<forall>ns \<in> set (pl_TargetNamespaces plan). view c (KNamespace, key [] ns) \<noteq> None)"
proof -
  let ?I = "\<lambda>st. view (snd st) = view c"
  have step: "?I (snd (checkNamespace cl ns st))" if "?I st" for ns and st :: "ValidationResult \<times> 'a"
    using that checkNamespace_step(1)[of ns "fst st" "snd st"] by (metis prod.collapse)
  have "?I (snd (for_until (checkNamespace cl) nss (vr, c)))" for nss
    by (rule for_until_invariant[where P = ?I]) (rule step, simp_all)
  then have loop: "for_until (checkNamespace cl) nss (vr, c) = (err, vr', c') \<Longrightarrow> view c' = view c" for nss
    by (metis snd_conv)
  show "view c' = view c"
    using assms loop by (auto simp: checkNamespaceExistence_def split: option.splits)
  assume ok: "err = None" "vr_Valid vr'"
  then obtain plan where plan: "ba_Plan batch = Some plan"
    and 1: "for_until (checkNamespace cl) (pl_TargetNamespaces plan) (vr, c) = (None, vr', c')"
    using assms by (auto simp: checkNamespaceExistence_def split: option.splits)
  have "?I (vr', c') \<and> (vr_Valid (fst (vr', c')) \<longrightarrow> vr_Valid (fst (vr, c)) \<and>
      (\<forall>ns \<in> set (pl_TargetNamespaces plan). view c (KNamespace, key [] ns) \<noteq> None))"
  proof (rule for_until_all[OF 1])
    fix ns and st s1 :: "ValidationResult \<times> 'a"
    assume st: "checkNamespace cl ns st = (None, s1)" "view (snd st) = view c"
    then show "?I s1 \<and> (vr_Valid (fst s1) \<longrightarrow> vr_Valid (fst st) \<and> view c (KNamespace, key [] ns) \<noteq> None)"
      using checkNamespace_step[of ns "fst st" "snd st" None "fst s1" "snd s1"] by simp
  qed simp
  with plan ok show "\<exists>plan. ba_Plan batch = Some plan \<and> vr_Valid vr \<and>
    (\<forall>ns \<in> set (pl_TargetNamespaces plan). view c (KNamespace, key [] ns) \<noteq> None)" by auto
qed

lemma validation_step:
  assumes "ValidationStage_Execute cl batch c = (err, batch', c')"
  shows "view c' = view c" and "ba_Plan batch' = ba_Plan batch" and "ba_Resources batch' = ba_Resources batch"
    and "err = None \<Longrightarrow> \<exists>plan. ba_Plan batch = Some plan \<and> validated (view c) plan"
proof -
  obtain e1 vr1 c1 where 1: "checkOwnerReferences cl batch (NewValidationResult, c) = (e1, vr1, c1)"
    by (metis prod.exhaust)
  obtain e2 vr2 c2 where 2: "checkNamespaceExistence cl batch (vr1, c1) = (e2, vr2, c2)"
    by (metis prod.exhaust)
  note v1 = checkOwnerReferences_step(1)[OF 1] and v2 = checkNamespaceExistence_step(1)[OF 2]
  show "view c' = view c" "ba_Plan batch' = ba_Plan batch" "ba_Resources batch' = ba_Resources batch"
    using assms v1 v2 by (auto simp: ValidationStage_Execute_def 1 2 Let_def split: option.splits if_splits)
  assume "err = None"
  then have ok: "e1 = None" "e2 = None" "vr_Valid vr2"
    using assms by (auto simp: ValidationStage_Execute_def 1 2 Let_def split: option.splits if_splits)
  then obtain plan where 3: "ba_Plan batch = Some plan" "vr_Valid vr1"
    "\<forall>ns \<in> set (pl_TargetNamespaces plan). view c1 (KNamespace, key [] ns) \<noteq> None"
    using checkNamespaceExistence_step(2)[OF 2] by blast
  with checkOwnerReferences_step(2)[OF 1 ok(1)] v1
  show "\<exists>plan. ba_Plan batch = Some plan \<and> validated (view c) plan"
    by (simp add: validated_def)
qed

end

end
