(* ===== verification/Status.thy ===== *)
theory Status
  imports Passes
begin

text \<open>
  \<^verbatim>\<open>internal/condition/apply.go\<close> and the two methods \<^verbatim>\<open>UpdateCondition\<close> of
  \<^verbatim>\<open>internal/rules/wsa_resource.go\<close>. \<^verbatim>\<open>meta.SetStatusCondition\<close> is library code and a parameter. Go
  writes the response of the patch back into the object it was given: the functions return the
  object as it is afterwards. Shown: reporting a condition changes nothing of a resource that the
  controller acts on, and what it reports.
\<close>

section \<open>The operations\<close>

type_synonym set_condition = "Condition list \<Rightarrow> Condition \<Rightarrow> Condition list"

fun object_conditions :: "object \<Rightarrow> Condition list" where
  "object_conditions (OWorkloadServiceAccount w) = wsaConditions w"
| "object_conditions (OClusterWorkloadServiceAccount w) = cwsaConditions w"
| "object_conditions _ = []"

fun put_conditions :: "Condition list \<Rightarrow> object \<Rightarrow> object" where
  "put_conditions cs (OWorkloadServiceAccount w) = OWorkloadServiceAccount (w\<lparr>wsaConditions := cs\<rparr>)"
| "put_conditions cs (OClusterWorkloadServiceAccount w) = OClusterWorkloadServiceAccount (w\<lparr>cwsaConditions := cs\<rparr>)"
| "put_conditions cs x = x"

definition condition_Apply ::
  "set_condition \<Rightarrow> 'c client \<Rightarrow> object \<Rightarrow> string \<Rightarrow> ConditionStatus \<Rightarrow> string \<Rightarrow> string \<Rightarrow> 'c \<Rightarrow>
   error option \<times> object \<times> 'c" where
  "condition_Apply SetStatusCondition cl obj conditionType status reason message c =
     (let conditions = SetStatusCondition (object_conditions obj)
            \<lparr>co_Type = conditionType, co_Status = status, co_Reason = reason, co_Message = message,
             co_ObservedGeneration = om_Generation (obj_meta obj)\<rparr>;
          obj' = put_conditions conditions obj
      in case client_StatusPatch cl obj' c of
           (Inl err, c') \<Rightarrow> (Some (Api err), obj', c')
         | (Inr stored, c') \<Rightarrow> (None, stored, c'))"

fun res_object :: "WSAResource \<Rightarrow> object" where
  "res_object (wsaAdapter w) = OWorkloadServiceAccount w"
| "res_object (clusterWSAAdapter w) = OClusterWorkloadServiceAccount w"

text \<open>The adapter keeps its pointer; the response is decoded into an object of the same type.\<close>

fun decode_into :: "WSAResource \<Rightarrow> object \<Rightarrow> WSAResource" where
  "decode_into (wsaAdapter _) (OWorkloadServiceAccount w) = wsaAdapter w"
| "decode_into (clusterWSAAdapter _) (OClusterWorkloadServiceAccount w) = clusterWSAAdapter w"
| "decode_into res _ = res"

definition UpdateCondition ::
  "set_condition \<Rightarrow> 'c client \<Rightarrow> WSAResource \<Rightarrow> string \<Rightarrow> ConditionStatus \<Rightarrow> string \<Rightarrow> string \<Rightarrow> 'c \<Rightarrow>
   error option \<times> WSAResource \<times> 'c" where
  "UpdateCondition SetStatusCondition cl res conditionType status reason message c =
     (let (err, obj, c') = condition_Apply SetStatusCondition cl (res_object res) conditionType status reason message c
      in (err, decode_into res obj, c'))"

section \<open>What the controller acts on\<close>

text \<open>
  An object without its status and the bookkeeping of the server that every write updates. The
  specification, the identity, the deletion timestamp and the finalizers remain.
\<close>

definition erase_meta :: "ObjectMeta \<Rightarrow> ObjectMeta" where
  "erase_meta m = m\<lparr>om_ResourceVersion := [], om_ManagedFields := []\<rparr>"

fun erase :: "object \<Rightarrow> object" where
  "erase (OWorkloadServiceAccount w) =
     OWorkloadServiceAccount (w\<lparr>wsaConditions := [], wsaMeta := erase_meta (wsaMeta w)\<rparr>)"
| "erase (OClusterWorkloadServiceAccount w) =
     OClusterWorkloadServiceAccount (w\<lparr>cwsaConditions := [], cwsaMeta := erase_meta (cwsaMeta w)\<rparr>)"
| "erase x = x"

definition same_spec :: "WSAResource \<Rightarrow> WSAResource \<Rightarrow> bool" where
  "same_spec res res' \<longleftrightarrow> erase (res_object res) = erase (res_object res')"

definition same_cluster :: "cluster \<Rightarrow> cluster \<Rightarrow> bool" where
  "same_cluster m m' \<longleftrightarrow> (\<forall>i. map_option erase (m i) = map_option erase (m' i))"

lemma erase_meta_simps [simp]:
  "om_Name (erase_meta m) = om_Name m" "om_Namespace (erase_meta m) = om_Namespace m"
  "om_UID (erase_meta m) = om_UID m" "om_Generation (erase_meta m) = om_Generation m"
  "om_Labels (erase_meta m) = om_Labels m" "om_Annotations (erase_meta m) = om_Annotations m"
  "om_Finalizers (erase_meta m) = om_Finalizers m" "om_DeletionTimestamp (erase_meta m) = om_DeletionTimestamp m"
  "om_OwnerReferences (erase_meta m) = om_OwnerReferences m" "om_key (erase_meta m) = om_key m"
  by (simp_all add: erase_meta_def om_key_def)

lemma erase_keeps:
  "obj_kind (erase x) = obj_kind x" "om_key (obj_meta (erase x)) = om_key (obj_meta x)"
  "labels_of (erase x) = labels_of x" "terminating (erase x) = terminating x"
  "om_Finalizers (obj_meta (erase x)) = om_Finalizers (obj_meta x)"
  by (cases x; simp add: terminating_def)+

lemma erase_put_conditions [simp]: "erase (put_conditions cs x) = erase x"
  by (cases x) simp_all

lemma obj_id_put_conditions [simp]: "obj_id (put_conditions cs x) = obj_id x"
  by (cases x) simp_all

lemma same_spec_refl [simp]: "same_spec res res"
  by (simp add: same_spec_def)

lemma same_spec_sym: "same_spec res res' \<Longrightarrow> same_spec res' res"
  by (simp add: same_spec_def)

lemma same_spec_trans: "same_spec a b \<Longrightarrow> same_spec b c \<Longrightarrow> same_spec a c"
  by (simp add: same_spec_def)

lemma same_cluster_refl [simp]: "same_cluster m m"
  by (simp add: same_cluster_def)

lemma same_cluster_sym: "same_cluster m m' \<Longrightarrow> same_cluster m' m"
  by (simp add: same_cluster_def)

lemma same_cluster_trans: "same_cluster a b \<Longrightarrow> same_cluster b c \<Longrightarrow> same_cluster a c"
  by (simp add: same_cluster_def)

lemma meta_of_erased:
  assumes "w\<lparr>wsaConditions := [], wsaMeta := erase_meta (wsaMeta w)\<rparr> = w'\<lparr>wsaConditions := [], wsaMeta := erase_meta (wsaMeta w')\<rparr>"
  shows "wsaSpec w = wsaSpec w'" "erase_meta (wsaMeta w) = erase_meta (wsaMeta w')"
  using assms by (cases w; cases w'; simp)+

lemma cmeta_of_erased:
  assumes "w\<lparr>cwsaConditions := [], cwsaMeta := erase_meta (cwsaMeta w)\<rparr> = w'\<lparr>cwsaConditions := [], cwsaMeta := erase_meta (cwsaMeta w')\<rparr>"
  shows "cwsaSpec w = cwsaSpec w'" "erase_meta (cwsaMeta w) = erase_meta (cwsaMeta w')"
  using assms by (cases w; cases w'; simp)+

lemma same_spec_fields:
  assumes "same_spec res res'"
  shows "GetName res = GetName res'" "GetNamespace res = GetNamespace res'"
    "GetNamespacedName res = GetNamespacedName res'" "GetScope res = GetScope res'"
    "GetPermissionRules res = GetPermissionRules res'" "GetRoles res = GetRoles res'"
    "GetClusterRoles res = GetClusterRoles res'" "IsClusterScoped res = IsClusterScoped res'"
    "GetGeneration res = GetGeneration res'"
proof -
  have "GetName res = GetName res' \<and> GetNamespace res = GetNamespace res' \<and>
    GetNamespacedName res = GetNamespacedName res' \<and> GetScope res = GetScope res' \<and>
    GetPermissionRules res = GetPermissionRules res' \<and> GetRoles res = GetRoles res' \<and>
    GetClusterRoles res = GetClusterRoles res' \<and> IsClusterScoped res = IsClusterScoped res' \<and>
    GetGeneration res = GetGeneration res'"
  proof (cases res)
    case (wsaAdapter w)
    with assms obtain w' where w': "res' = wsaAdapter w'" by (cases res') (auto simp: same_spec_def)
    have "wsaSpec w = wsaSpec w'" "erase_meta (wsaMeta w) = erase_meta (wsaMeta w')"
      using assms meta_of_erased[of w w'] by (simp_all add: same_spec_def wsaAdapter w')
    then show ?thesis
      by (auto simp: wsaAdapter w' dest: arg_cong[of _ _ om_Name] arg_cong[of _ _ om_Namespace] arg_cong[of _ _ om_Generation])
  next
    case (clusterWSAAdapter w)
    with assms obtain w' where w': "res' = clusterWSAAdapter w'" by (cases res') (auto simp: same_spec_def)
    have "cwsaSpec w = cwsaSpec w'" "erase_meta (cwsaMeta w) = erase_meta (cwsaMeta w')"
      using assms cmeta_of_erased[of w w'] by (simp_all add: same_spec_def clusterWSAAdapter w')
    then show ?thesis
      by (auto simp: clusterWSAAdapter w' dest: arg_cong[of _ _ om_Name] arg_cong[of _ _ om_Namespace] arg_cong[of _ _ om_Generation])
  qed
  then show "GetName res = GetName res'" "GetNamespace res = GetNamespace res'"
    "GetNamespacedName res = GetNamespacedName res'" "GetScope res = GetScope res'"
    "GetPermissionRules res = GetPermissionRules res'" "GetRoles res = GetRoles res'"
    "GetClusterRoles res = GetClusterRoles res'" "IsClusterScoped res = IsClusterScoped res'"
    "GetGeneration res = GetGeneration res'" by blast+
qed

lemma same_spec_derived:
  assumes "same_spec res res'"
  shows "bound_refs res = bound_refs res'" "binding_id res ref = binding_id res' ref" "role_id res = role_id res'"
    "wsa_matches res p = wsa_matches res' p" "granted m nss res n = granted m nss res' n"
proof -
  note f = same_spec_fields[OF assms]
  have 1: "role_name res = role_name res'" by (simp add: role_name_def f)
  have 2: "bound_refs res = bound_refs res'" by (simp add: bound_refs_def inline_ref_def f 1)
  have 3: "binding_id res r = binding_id res' r" for r by (simp add: binding_id_def bindingKey_def f)
  have 4: "role_id res = role_id res'" by (simp add: role_id_def f 1)
  show "bound_refs res = bound_refs res'" "binding_id res ref = binding_id res' ref" "role_id res = role_id res'"
    by (rule 2, rule 3, rule 4)
  show "wsa_matches res p = wsa_matches res' p" by (simp add: wsa_matches_def scopeSlices_def f)
  show "granted m nss res n = granted m nss res' n" by (simp add: granted_def f 2 3 4)
qed

section \<open>Clusters that differ in statuses only\<close>

lemma same_cluster_Some:
  assumes "same_cluster m m'" "m i = Some x"
  obtains x' where "m' i = Some x'" "erase x' = erase x"
  using assms(1)[unfolded same_cluster_def, rule_format, of i] assms(2) by (cases "m' i") auto

text \<open>Every kind but the two custom resources is the same object in both.\<close>

lemma erase_other: "obj_kind x \<notin> {KWorkloadServiceAccount, KClusterWorkloadServiceAccount} \<Longrightarrow> erase x = x"
  by (cases x) simp_all

lemma same_cluster_other:
  assumes "same_cluster m m'" "\<And>i x. m i = Some x \<Longrightarrow> obj_id x = i" "\<And>i x. m' i = Some x \<Longrightarrow> obj_id x = i"
    and "fst i \<notin> {KWorkloadServiceAccount, KClusterWorkloadServiceAccount}"
  shows "m' i = m i"
proof -
  have "obj_kind x = fst i" if "m i = Some x \<or> m' i = Some x" for x using that assms(2,3) by (metis fst_conv)
  then have "map_option erase (m i) = m i" "map_option erase (m' i) = m' i"
    using erase_other assms(4) by (cases "m i"; cases "m' i"; auto)+
  then show ?thesis using assms(1) unfolding same_cluster_def by metis
qed

lemma cluster_resources_iff:
  assumes "\<And>i x. m i = Some x \<Longrightarrow> obj_id x = i"
  shows "res \<in> cluster_resources m \<longleftrightarrow> m (obj_id (res_object res)) = Some (res_object res) \<and> \<not> terminating (res_object res)"
proof -
  have "m (KWorkloadServiceAccount, n) = Some (OWorkloadServiceAccount w) \<Longrightarrow> n = om_key (wsaMeta w)"
    "m (KClusterWorkloadServiceAccount, n) = Some (OClusterWorkloadServiceAccount v) \<Longrightarrow> n = om_key (cwsaMeta v)" for n w v
    using assms by fastforce+
  then show ?thesis
    by (cases res) (auto simp: cluster_resources_def terminating_def)
qed

lemma same_cluster_resources:
  assumes "same_cluster m m'" "\<And>i x. m i = Some x \<Longrightarrow> obj_id x = i" "\<And>i x. m' i = Some x \<Longrightarrow> obj_id x = i"
    and "res \<in> cluster_resources m"
  obtains res' where "res' \<in> cluster_resources m'" "same_spec res res'"
proof -
  from assms(4) have "m (obj_id (res_object res)) = Some (res_object res)" "\<not> terminating (res_object res)"
    by (simp_all add: cluster_resources_iff[OF assms(2)])
  with assms(1) obtain x where x: "m' (obj_id (res_object res)) = Some x" "erase x = erase (res_object res)"
    by (blast elim: same_cluster_Some)
  have "\<exists>res'. x = res_object res'"
    using x(2) by (cases res; cases x) (auto intro: res_object.simps[symmetric])
  then obtain res' where res': "x = res_object res'" ..
  have "obj_id x = obj_id (res_object res)" using x(1) assms(3) by blast
  moreover have "\<not> terminating x" using x(2) \<open>\<not> terminating (res_object res)\<close> erase_keeps(4) by metis
  ultimately have "res' \<in> cluster_resources m'"
    using x(1) by (simp add: cluster_resources_iff[OF assms(3)] res')
  then show ?thesis by (rule that) (simp add: same_spec_def res'[symmetric] x(2))
qed

text \<open>A resource of the cluster is known by its key.\<close>

lemma cluster_resources_key:
  assumes "\<And>i x. m i = Some x \<Longrightarrow> obj_id x = i" "\<And>i x. m i = Some x \<Longrightarrow> valid_id i"
    and "res \<in> cluster_resources m" "res' \<in> cluster_resources m" "GetNamespacedName res = GetNamespacedName res'"
  shows "res = res'"
proof -
  have k: "obj_id (res_object r) = (if IsClusterScoped r then KClusterWorkloadServiceAccount else KWorkloadServiceAccount,
      GetNamespacedName r)" "IsClusterScoped r \<longleftrightarrow> nn_Namespace (GetNamespacedName r) = []"
    if "r \<in> cluster_resources m" for r
  proof -
    have "valid_id (obj_id (res_object r))"
      using that assms(2) by (auto simp: cluster_resources_iff[OF assms(1)])
    then show "obj_id (res_object r) = (if IsClusterScoped r then KClusterWorkloadServiceAccount else KWorkloadServiceAccount,
      GetNamespacedName r)" "IsClusterScoped r \<longleftrightarrow> nn_Namespace (GetNamespacedName r) = []"
      by (cases r; auto simp: valid_id_def om_key_def)+
  qed
  have "obj_id (res_object res) = obj_id (res_object res')"
    using k[OF assms(3)] k[OF assms(4)] assms(5) by simp
  then have "res_object res = res_object res'"
    using assms(3,4) by (auto simp: cluster_resources_iff[OF assms(1)])
  then show ?thesis by (cases res; cases res') simp_all
qed

lemma no_clash_same_spec:
  assumes "no_clash rs" "\<And>res'. res' \<in> rs' \<Longrightarrow> \<exists>res \<in> rs. same_spec res res'"
    and "\<And>a b. a \<in> rs' \<Longrightarrow> b \<in> rs' \<Longrightarrow> GetNamespacedName a = GetNamespacedName b \<Longrightarrow> a = b"
  shows "no_clash rs'"
  unfolding no_clash_def
proof (intro ballI conjI impI)
  fix a' b' assume ab': "a' \<in> rs'" "b' \<in> rs'"
  then obtain a b where a: "a \<in> rs" "same_spec a a'" and b: "b \<in> rs" "same_spec b b'" using assms(2) by blast
  note d = same_spec_derived[OF a(2)] same_spec_derived[OF b(2)]
  note f = same_spec_fields[OF a(2)] same_spec_fields[OF b(2)]
  show "GetPermissionRules a' = GetPermissionRules b'"
    if "GetPermissionRules a' \<noteq> [] \<and> GetPermissionRules b' \<noteq> [] \<and> role_id a' = role_id b'"
    using no_clash_role[OF assms(1) a(1) b(1)] that d f by metis
  fix r s assume rs: "r \<in> set (bound_refs a')" "s \<in> set (bound_refs b')" "binding_id a' r = binding_id b' s"
  then have "a = b \<and> r = s" using no_clash_binding[OF assms(1) a(1) b(1)] d by metis
  then show "a' = b'" "r = s" using assms(3)[OF ab'] f by metis+
qed

section \<open>The contract of the status patch\<close>

text \<open>
  A status patch changes nothing but the status of one object (and what the server keeps about
  writes), whether or not its response arrives; it returns the stored object, which has at least the
  conditions that were sent. Events are recorded outside of what the controller reads.
\<close>

locale status_client = api_client_current +
  assumes StatusPatch_frame: "client_StatusPatch cl x c = (r, c') \<Longrightarrow> same_cluster (view c) (view c')"
    and StatusPatch_stored: "client_StatusPatch cl x c = (Inr y, c') \<Longrightarrow>
        view c' (obj_id x) = Some y \<and> set (object_conditions x) \<subseteq> set (object_conditions y)"
begin

lemma UpdateCondition_frame:
  assumes "UpdateCondition set_cond cl res t s rsn msg c = (err, res', c')"
  shows "same_cluster (view c) (view c')"
  using assms StatusPatch_frame
  by (auto simp: UpdateCondition_def condition_Apply_def Let_def split: prod.splits sum.splits)

lemma UpdateCondition_id:
  assumes "UpdateCondition set_cond cl res t s rsn msg c = (err, res', c')"
  shows "obj_id (res_object res') = obj_id (res_object res)"
proof -
  let ?x = "put_conditions (set_cond (object_conditions (res_object res)) \<lparr>co_Type = t, co_Status = s, co_Reason = rsn,
      co_Message = msg, co_ObservedGeneration = om_Generation (obj_meta (res_object res))\<rparr>) (res_object res)"
  obtain q c1 where q: "client_StatusPatch cl ?x c = (q, c1)" by fastforce
  show ?thesis
  proof (cases q)
    case (Inl e)
    with assms q show ?thesis by (cases res) (auto simp: UpdateCondition_def condition_Apply_def)
  next
    case (Inr y)
    have "obj_id y = obj_id (res_object res)"
      using StatusPatch_stored[OF q[unfolded Inr]] view_id obj_id_put_conditions by metis
    with assms q Inr show ?thesis
      by (cases res; cases y) (auto simp: UpdateCondition_def condition_Apply_def)
  qed
qed

text \<open>A resource that was current stays so: the response is the stored object.\<close>

lemma UpdateCondition_spec:
  assumes "UpdateCondition set_cond cl res t s rsn msg c = (err, res', c')"
    and "map_option erase (view c (obj_id (res_object res))) = Some (erase (res_object res))"
  shows "same_spec res res'"
proof -
  let ?x = "put_conditions (set_cond (object_conditions (res_object res)) \<lparr>co_Type = t, co_Status = s, co_Reason = rsn,
      co_Message = msg, co_ObservedGeneration = om_Generation (obj_meta (res_object res))\<rparr>) (res_object res)"
  obtain q c1 where q: "client_StatusPatch cl ?x c = (q, c1)" by fastforce
  show ?thesis
  proof (cases q)
    case (Inl e)
    with assms q show ?thesis by (cases res) (auto simp: UpdateCondition_def condition_Apply_def same_spec_def)
  next
    case (Inr y)
    have "view c1 (obj_id (res_object res)) = Some y"
      using StatusPatch_stored[OF q[unfolded Inr]] obj_id_put_conditions by metis
    then have "erase y = erase (res_object res)"
      using StatusPatch_frame[OF q] assms(2) unfolding same_cluster_def by (metis option.map(2) option.inject)
    with assms(1) q Inr show ?thesis
      by (cases res; cases y) (auto simp: UpdateCondition_def condition_Apply_def same_spec_def)
  qed
qed

end

lemma with_conditions_keeps: "obj_id (with_conditions new old) = obj_id old" "erase (with_conditions new old) = erase old"
  by (cases new; cases old; simp)+

lemma do_StatusPatch_cases:
  assumes "do_StatusPatch new s = (r, s')"
  shows "same_cluster (server_view s) (server_view s')"
    and "r = Inr y \<Longrightarrow> server_view s' (obj_id new) = Some y \<and> set (object_conditions new) \<subseteq> set (object_conditions y)"
proof -
  show "same_cluster (server_view s) (server_view s')"
  proof (cases "server_view s (obj_id new)")
    case None
    with assms show ?thesis by (simp add: do_StatusPatch_def)
  next
    case (Some old)
    have id: "obj_id old = obj_id new" using server_view_id[OF Some] .
    have "valid_id (obj_id (with_conditions new old))"
      using server_view_valid[OF Some] id with_conditions_keeps(1) by metis
    then have "server_view s' = (server_view s)(obj_id new \<mapsto> with_conditions new old)"
      using assms Some view_store_object id with_conditions_keeps(1)[of new old]
      by (auto simp: do_StatusPatch_def Let_def)
    with Some show ?thesis by (auto simp: same_cluster_def with_conditions_keeps(2))
  qed
  assume "r = Inr y"
  with assms obtain old where old: "server_view s (obj_id new) = Some old" "y = with_conditions new old"
    "s' = store_object y s"
    by (auto simp: do_StatusPatch_def Let_def split: option.splits)
  have id: "obj_id old = obj_id new" using server_view_id[OF old(1)] .
  then have "obj_id y = obj_id new" using old(2) with_conditions_keeps(1) by metis
  moreover have "valid_id (obj_id y)" using server_view_valid[OF old(1)] calculation by metis
  ultimately have "server_view s' (obj_id new) = Some y" using old(3) view_store_object by simp
  moreover have "set (object_conditions new) \<subseteq> set (object_conditions y)"
    using id old(2) by (cases new; cases old) auto
  ultimately show "server_view s' (obj_id new) = Some y \<and> set (object_conditions new) \<subseteq> set (object_conditions y)" ..
qed


interpretation srv_status: status_client server_client server_view
proof
  fix s s' :: server and x y r
  show "client_StatusPatch server_client x s = (r, s') \<Longrightarrow> same_cluster (server_view s) (server_view s')"
    using do_StatusPatch_cases(1)
    by (auto simp: server_client_def elim!: server_write_cases) (metis prod.collapse)+
  show "client_StatusPatch server_client x s = (Inr y, s') \<Longrightarrow>
      server_view s' (obj_id x) = Some y \<and> set (object_conditions x) \<subseteq> set (object_conditions y)"
    using do_StatusPatch_cases(2)[OF _ refl] by (simp add: server_client_def) (elim server_write_cases; simp)
qed

end
