(* ===== verification/Pipeline.thy ===== *)
theory Pipeline
  imports Status
begin

text \<open>
  \<^verbatim>\<open>internal/reconciliation/orchestrator.go\<close>, the processing of one batch: the stages in order, with the
  conditions and events that report on each, and the final condition. The orchestrator's client,
  recorder, clock and the text of library errors are fields of its record; \<^verbatim>\<open>time.AfterFunc\<close> is an
  operation on the world. Shown: what holds in the cluster and the engine after a batch has been
  processed, and what a batch never touches.
\<close>

section \<open>The orchestrator\<close>

definition ConditionTypeReady :: string where "ConditionTypeReady = ''Ready''"
definition ConditionTypePlanning :: string where "ConditionTypePlanning = ''Planning''"
definition ConditionTypeValidation :: string where "ConditionTypeValidation = ''Validation''"
definition ConditionTypeExecution :: string where "ConditionTypeExecution = ''Execution''"
definition ReasonInProgress :: string where "ReasonInProgress = ''InProgress''"
definition ReasonSucceeded :: string where "ReasonSucceeded = ''Succeeded''"
definition ReasonFailed :: string where "ReasonFailed = ''Failed''"

record 'c Stage =
  stg_Name :: string
  stg_Execute :: "Batch \<Rightarrow> 'c InMemoryEngine \<Rightarrow> 'c \<Rightarrow> error option \<times> Batch \<times> 'c InMemoryEngine \<times> 'c"

record 'c StageOrchestrator =
  so_stages :: "'c Stage list"
  so_client :: "'c client"
  so_maxRetries :: int
  so_recorder :: "(WSAResource \<Rightarrow> string \<Rightarrow> string \<Rightarrow> string \<Rightarrow> 'c \<Rightarrow> 'c) option"
  so_SetStatusCondition :: set_condition
  so_Error :: "error \<Rightarrow> string"
  so_Since :: "'c \<Rightarrow> string"
  so_AfterFunc :: "int \<Rightarrow> 'c \<Rightarrow> 'c"

text \<open>The retry limit is the constant of the source; the rest is given by the caller and the libraries.\<close>

definition NewStageOrchestrator ::
  "'c Stage list \<Rightarrow> 'c client \<Rightarrow> (WSAResource \<Rightarrow> string \<Rightarrow> string \<Rightarrow> string \<Rightarrow> 'c \<Rightarrow> 'c) option \<Rightarrow>
   set_condition \<Rightarrow> (error \<Rightarrow> string) \<Rightarrow> ('c \<Rightarrow> string) \<Rightarrow> (int \<Rightarrow> 'c \<Rightarrow> 'c) \<Rightarrow> 'c StageOrchestrator" where
  "NewStageOrchestrator stages c recorder set_cond error_text since after =
     \<lparr>so_stages = stages, so_client = c, so_maxRetries = 3, so_recorder = recorder,
      so_SetStatusCondition = set_cond, so_Error = error_text, so_Since = since, so_AfterFunc = after\<rparr>"

text \<open>The stages as the program assembles them, on the engine that the orchestrator shares with them.\<close>

definition planning_stage :: "go_order \<Rightarrow> 'c Stage" where
  "planning_stage \<omega> = \<lparr>stg_Name = ''planning'',
     stg_Execute = (\<lambda>batch e c. case PlanningStage_Execute \<omega> e batch c of (err, batch', c') \<Rightarrow> (err, batch', e, c'))\<rparr>"

definition validation_stage :: "'c client \<Rightarrow> 'c Stage" where
  "validation_stage cl = \<lparr>stg_Name = ''validation'',
     stg_Execute = (\<lambda>batch e c. case ValidationStage_Execute cl batch c of (err, batch', c') \<Rightarrow> (err, batch', e, c'))\<rparr>"

definition execution_stage :: "go_order \<Rightarrow> 'c Stage" where
  "execution_stage \<omega> = \<lparr>stg_Name = ''execution'',
     stg_Execute = (\<lambda>batch e c. case ExecutionStage_Execute \<omega> e batch c of (err, e', c') \<Rightarrow> (err, batch, e', c'))\<rparr>"

definition stagingStages :: "go_order \<Rightarrow> 'c client \<Rightarrow> 'c Stage list" where
  "stagingStages \<omega> cl = [planning_stage \<omega>, validation_stage cl, execution_stage \<omega>]"

section \<open>Reporting\<close>

text \<open>
  A batch and its plan hold pointers to the same resources: after planning, a resource of the batch
  is the one of the plan with its key. Writing the response of a status patch back through one
  pointer shows in all of them.
\<close>

definition alias_of :: "WSAResource \<Rightarrow> WSAResource \<Rightarrow> WSAResource" where
  "alias_of new res = (if GetNamespacedName res = GetNamespacedName new then new else res)"

definition write_back :: "WSAResource \<Rightarrow> Batch \<Rightarrow> Batch" where
  "write_back new batch = batch\<lparr>
     ba_Resources := map (alias_of new) (ba_Resources batch),
     ba_Plan := map_option (\<lambda>plan. plan\<lparr>
       pl_AllResources := map (alias_of new) (pl_AllResources plan),
       pl_SAToWSAMap := map (\<lambda>(sa, wsaMap). (sa, map (\<lambda>(k, res). (k, alias_of new res)) wsaMap)) (pl_SAToWSAMap plan)\<rparr>)
       (ba_Plan batch)\<rparr>"

text \<open>A failed update is only logged.\<close>

definition updateConditions ::
  "'c StageOrchestrator \<Rightarrow> string \<Rightarrow> ConditionStatus \<Rightarrow> string \<Rightarrow> string \<Rightarrow> Batch \<Rightarrow> 'c \<Rightarrow> Batch \<times> 'c" where
  "updateConditions so conditionType status reason message batch c =
     fold (\<lambda>i (b, c). case UpdateCondition (so_SetStatusCondition so) (so_client so) (ba_Resources b ! i)
                             conditionType status reason message c of
                        (err, res', c') \<Rightarrow> (write_back res' b, c'))
       [0..<length (ba_Resources batch)] (batch, c)"

definition stageToConditionType :: "(string, string) gomap" where
  "stageToConditionType =
     [(''planning'', ConditionTypePlanning), (''validation'', ConditionTypeValidation),
      (''execution'', ConditionTypeExecution)]"

definition updateStageStatus ::
  "'c StageOrchestrator \<Rightarrow> string \<Rightarrow> string \<Rightarrow> string \<Rightarrow> Batch \<Rightarrow> 'c \<Rightarrow> Batch \<times> 'c" where
  "updateStageStatus so stageName reason message batch c =
     (case map_of stageToConditionType stageName of
        None \<Rightarrow> (batch, c)
      | Some conditionType \<Rightarrow>
          (let status = (if reason = ReasonSucceeded then ConditionTrue
                         else if reason = ReasonInProgress then ConditionUnknown
                         else ConditionFalse)
           in updateConditions so conditionType status reason message batch c))"

definition emitEvent :: "'c StageOrchestrator \<Rightarrow> Batch \<Rightarrow> string \<Rightarrow> string \<Rightarrow> string \<Rightarrow> 'c \<Rightarrow> 'c" where
  "emitEvent so batch eventType reason message c =
     (case so_recorder so of
        None \<Rightarrow> c
      | Some event \<Rightarrow> fold (\<lambda>res. event res eventType reason message) (ba_Resources batch) c)"

definition emitReconcileEvents :: "'c StageOrchestrator \<Rightarrow> Batch \<Rightarrow> 'c \<Rightarrow> 'c" where
  "emitReconcileEvents so batch c =
     (case (so_recorder so, ba_Plan batch) of
        (Some event, Some plan) \<Rightarrow>
          fold (\<lambda>resource.
              let saNames = (case map_of (pl_WSAToSANames plan) (GetNamespacedName resource) of
                               Some names \<Rightarrow> names | None \<Rightarrow> [])
              in if length saNames = 0
                 then event resource ''Normal'' ''Reconciled'' ''No ServiceAccounts generated (no matching scopes)''
                 else event resource ''Normal'' ''Reconciled''
                        (''Reconciled '' @ fmt_d (length saNames) @ '' ServiceAccount(s): '' @
                         strings_Join saNames '', '' @ '' across '' @
                         fmt_d (length (pl_TargetNamespaces plan)) @ '' namespace(s)''))
            (ba_Resources batch) c
      | _ \<Rightarrow> c)"

definition updateFinalConditions ::
  "'c StageOrchestrator \<Rightarrow> (string \<times> error) option \<Rightarrow> Batch \<Rightarrow> 'c \<Rightarrow> Batch \<times> 'c" where
  "updateFinalConditions so failure batch c =
     (case failure of
        Some (failedStage, err) \<Rightarrow>
          updateConditions so ConditionTypeReady ConditionFalse ReasonFailed
            (''Stage '' @ failedStage @ '' failed: '' @ so_Error so err) batch c
      | None \<Rightarrow>
          updateConditions so ConditionTypeReady ConditionTrue ReasonSucceeded
            ''All stages completed successfully'' batch c)"

section \<open>Processing a batch\<close>

text \<open>The loop over the stages; it stops at the first failure.\<close>

fun runStages ::
  "'c StageOrchestrator \<Rightarrow> 'c Stage list \<Rightarrow> Batch \<Rightarrow> 'c InMemoryEngine \<Rightarrow> 'c \<Rightarrow>
   (string \<times> error) option \<times> Batch \<times> 'c InMemoryEngine \<times> 'c" where
  "runStages so [] batch e c = (None, batch, e, c)"
| "runStages so (stage # stages) batch e c =
     (let name = stg_Name stage;
          (batch1, c1) = updateStageStatus so name ReasonInProgress ''Processing'' batch c;
          c2 = emitEvent so batch1 ''Normal'' ''StageStarted''
                 (''Stage '' @ name @ '' started (batch '' @ ba_ID batch1 @ '')'') c1
      in case stg_Execute stage batch1 e c2 of
           (Some err, batch3, e3, c3) \<Rightarrow>
             (let (batch4, c4) = updateStageStatus so name ReasonFailed (so_Error so err) batch3 c3;
                  c5 = emitEvent so batch4 ''Warning'' ''StageFailed''
                         (''Stage '' @ name @ '' failed: '' @ so_Error so err @ '' (batch '' @ ba_ID batch4 @ '')'') c4
              in (Some (name, err), batch4, e3, c5))
         | (None, batch3, e3, c3) \<Rightarrow>
             (let (batch4, c4) = updateStageStatus so name ReasonSucceeded ''Complete'' batch3 c3;
                  c5 = emitEvent so batch4 ''Normal'' ''StageCompleted''
                         (''Stage '' @ name @ '' completed (batch '' @ ba_ID batch4 @ '', duration '' @
                          so_Since so c4 @ '')'') c4
              in runStages so stages batch4 e3 c5))"

definition processBatch ::
  "'c StageOrchestrator \<Rightarrow> Batch \<Rightarrow> 'c InMemoryEngine \<Rightarrow> 'c \<Rightarrow> error option \<times> Batch \<times> 'c InMemoryEngine \<times> 'c" where
  "processBatch so batch e c =
     (if length (ba_Resources batch) = 0 then (None, batch, e, c)
      else
        (case runStages so (so_stages so) batch e c of
           (failure, batch1, e1, c1) \<Rightarrow>
             (case updateFinalConditions so failure batch1 c1 of
                (batch2, c2) \<Rightarrow>
                  (case failure of
                     Some (failedStage, stageErr) \<Rightarrow>
                       (Some (Errorf (''stage '' @ failedStage @ '' failed'') (Some stageErr)), batch2, e1, c2)
                   | None \<Rightarrow>
                       (let c3 = emitReconcileEvents so batch2 c2;
                            c4 = (if ba_RequeueAfter batch2 > 0 then so_AfterFunc so (ba_RequeueAfter batch2) c3 else c3)
                        in (None, batch2, e1, c4))))))"

section \<open>What reporting leaves alone\<close>

text \<open>Two plans that differ at most in the statuses of their resources.\<close>

definition wsa_keys :: "(ServiceAccountName, WSAMap) gomap \<Rightarrow> (ServiceAccountName \<times> NamespacedName list) list" where
  "wsa_keys sm = map (\<lambda>(sa, wsaMap). (sa, map fst wsaMap)) sm"

lemma wsa_keys_alias:
  "wsa_keys (map (\<lambda>(sa, wsaMap). (sa, map (\<lambda>(k, res). (k, f res)) wsaMap)) sm) = wsa_keys sm"
  by (simp add: wsa_keys_def case_prod_beta comp_def)

lemma wsa_keys_mem: "(\<exists>(sa, m) \<in> set sm. k \<in> dom (map_of m)) \<longleftrightarrow> (\<exists>(sa, ks) \<in> set (wsa_keys sm). k \<in> set ks)"
  by (simp add: wsa_keys_def case_prod_beta dom_map_of_conv_image_fst)

definition plan_refreshed :: "Plan \<Rightarrow> Plan \<Rightarrow> bool" where
  "plan_refreshed p p' \<longleftrightarrow>
     pl_ScopeToSA p' = pl_ScopeToSA p \<and> wsa_keys (pl_SAToWSAMap p') = wsa_keys (pl_SAToWSAMap p) \<and>
     pl_WSAToSANames p' = pl_WSAToSANames p \<and>
     pl_Vocabulary p' = pl_Vocabulary p \<and> pl_UniqueAccounts p' = pl_UniqueAccounts p \<and>
     pl_TargetNamespaces p' = pl_TargetNamespaces p \<and>
     list_all2 same_spec (pl_AllResources p) (pl_AllResources p')"

definition is_current :: "cluster \<Rightarrow> WSAResource \<Rightarrow> bool" where
  "is_current m res \<longleftrightarrow> map_option erase (m (obj_id (res_object res))) = Some (erase (res_object res))"

text \<open>The resources of the plan are those of the cluster, and the batch points to them.\<close>

definition plan_inv :: "cluster \<Rightarrow> Plan \<Rightarrow> Batch \<Rightarrow> bool" where
  "plan_inv m plan batch \<longleftrightarrow> (\<exists>p. ba_Plan batch = Some p \<and> plan_refreshed plan p \<and>
     (\<forall>res \<in> set (pl_AllResources p). is_current m res) \<and>
     (\<forall>res \<in> set (ba_Resources batch). \<forall>res' \<in> set (pl_AllResources p).
        GetNamespacedName res = GetNamespacedName res' \<longrightarrow> res = res'))"

lemma plan_refreshed_refl [simp]: "plan_refreshed p p"
  by (simp add: plan_refreshed_def list_all2_refl)

lemma plan_refreshed_trans: "plan_refreshed p q \<Longrightarrow> plan_refreshed q r \<Longrightarrow> plan_refreshed p r"
  unfolding plan_refreshed_def using list_all2_trans[of same_spec same_spec same_spec] same_spec_trans by metis

lemma is_current_same_cluster: "same_cluster m m' \<Longrightarrow> is_current m res = is_current m' res"
  by (simp add: is_current_def same_cluster_def)

lemma plan_inv_same_cluster: "same_cluster m m' \<Longrightarrow> plan_inv m plan batch \<Longrightarrow> plan_inv m' plan batch"
  unfolding plan_inv_def using is_current_same_cluster by metis

text \<open>What the execution of a plan leaves in engine and accounts; reporting does not touch it.\<close>

definition plan_core ::
  "Plan \<Rightarrow> (Scope, ServiceAccountName) gomap \<times> GlobalVocabulary option \<times> ServiceAccount list \<times> string list" where
  "plan_core p = (pl_ScopeToSA p, pl_Vocabulary p, pl_UniqueAccounts p, pl_TargetNamespaces p)"

lemma plan_core_namespaces:
  "map_option plan_core a = map_option plan_core b \<Longrightarrow> map_option pl_TargetNamespaces a = map_option pl_TargetNamespaces b"
  by (cases a; cases b) (simp_all add: plan_core_def)

lemma write_back_simps [simp]:
  "length (ba_Resources (write_back new batch)) = length (ba_Resources batch)"
  "ba_RequeueAfter (write_back new batch) = ba_RequeueAfter batch" "ba_ID (write_back new batch) = ba_ID batch"
  "map_option plan_core (ba_Plan (write_back new batch)) = map_option plan_core (ba_Plan batch)"
  by (simp_all add: write_back_def plan_core_def[abs_def] option.map_comp comp_def)


lemma same_id_key:
  "obj_id (res_object a) = obj_id (res_object b) \<Longrightarrow> GetNamespacedName a = GetNamespacedName b"
  by (cases a; cases b) (auto simp: om_key_def)

lemma key_alias_of [simp]: "GetNamespacedName (alias_of new res) = GetNamespacedName res"
  by (simp add: alias_of_def)

lemma write_back_inv:
  assumes inv: "plan_inv m plan batch" and res: "res \<in> set (ba_Resources batch)"
    and new: "obj_id (res_object new) = obj_id (res_object res)" "is_current m res \<Longrightarrow> same_spec res new"
    and m': "same_cluster m m'"
  shows "plan_inv m' plan (write_back new batch)"
proof -
  from inv obtain p where p: "ba_Plan batch = Some p" "plan_refreshed plan p"
    "\<forall>r \<in> set (pl_AllResources p). is_current m r"
    "\<forall>a \<in> set (ba_Resources batch). \<forall>r \<in> set (pl_AllResources p). GetNamespacedName a = GetNamespacedName r \<longrightarrow> a = r"
    by (auto simp: plan_inv_def)
  let ?p = "p\<lparr>pl_AllResources := map (alias_of new) (pl_AllResources p),
    pl_SAToWSAMap := map (\<lambda>(sa, wsaMap). (sa, map (\<lambda>(k, res). (k, alias_of new res)) wsaMap)) (pl_SAToWSAMap p)\<rparr>"
  have key: "GetNamespacedName new = GetNamespacedName res" by (rule same_id_key[OF new(1)])
  have spec: "same_spec r (alias_of new r)" if "r \<in> set (pl_AllResources p)" for r
  proof (cases "GetNamespacedName r = GetNamespacedName new")
    case True
    then have "r = res" using p(4) res that key by metis
    then show ?thesis using new(2) p(3) that by (simp add: alias_of_def)
  qed (simp add: alias_of_def)
  have cur: "is_current m' (alias_of new r)" if "r \<in> set (pl_AllResources p)" for r
  proof (cases "GetNamespacedName r = GetNamespacedName new")
    case True
    then have "r = res" using p(4) res that key by metis
    then have "is_current m res" using p(3) that by blast
    then have "is_current m' res" "same_spec res new" using is_current_same_cluster[OF m'] new(2) by blast+
    then have "is_current m' new" unfolding is_current_def same_spec_def new(1) by simp
    then show ?thesis using True by (simp add: alias_of_def)
  next
    case False
    then show ?thesis using p(3) that is_current_same_cluster[OF m'] by (simp add: alias_of_def)
  qed
  have "plan_refreshed p ?p"
    using spec by (simp add: plan_refreshed_def wsa_keys_alias list_all2_conv_all_nth)
  then have "plan_refreshed plan ?p" using p(2) plan_refreshed_trans by blast
  moreover have "a = r" if "a \<in> set (map (alias_of new) (ba_Resources batch))"
    "r \<in> set (map (alias_of new) (pl_AllResources p))" "GetNamespacedName a = GetNamespacedName r" for a r
    using that p(4) by (auto simp: alias_of_def split: if_splits)
  ultimately show ?thesis
    using cur by (auto simp: plan_inv_def write_back_def p(1))
qed

section \<open>The pipeline on top of the contracts\<close>

text \<open>
  The orchestrator as the program assembles it: one client for everything, the three stages on one
  engine, a recorder and timers that do not touch what the controller reads.
\<close>

locale pipeline = engine_api e view + status_client "e_client e" view
  for e :: "'c InMemoryEngine" and view +
  fixes so :: "'c StageOrchestrator" and \<omega> :: go_order
  assumes order: "order_ok \<omega>"
    and one_client: "so_client so = e_client e"
    and the_stages: "so_stages so = stagingStages \<omega> (e_client e)"
    and recorder_frame: "so_recorder so = Some event \<Longrightarrow> view (event res t r msg c) = view c"
    and after_frame: "view (so_AfterFunc so d c) = view c"
begin

lemma updateConditions_inv:
  assumes "updateConditions so t st r msg batch c = (batch', c')"
  shows "same_cluster (view c) (view c')" "length (ba_Resources batch') = length (ba_Resources batch)"
    "map_option plan_core (ba_Plan batch') = map_option plan_core (ba_Plan batch)" "plan_inv (view c) plan batch \<Longrightarrow> plan_inv (view c') plan batch'"
proof -
  let ?P = "\<lambda>(b, d). same_cluster (view c) (view d) \<and> length (ba_Resources b) = length (ba_Resources batch) \<and>
    map_option plan_core (ba_Plan b) = map_option plan_core (ba_Plan batch) \<and> (plan_inv (view c) plan batch \<longrightarrow> plan_inv (view d) plan b)"
  let ?f = "\<lambda>i (b, c). case UpdateCondition (so_SetStatusCondition so) (so_client so) (ba_Resources b ! i) t st r msg c of
    (err, res', c') \<Rightarrow> (write_back res' b, c')"
  have "?P (fold ?f [0..<length (ba_Resources batch)] (batch, c))"
  proof (rule fold_invariant[where Q = "\<lambda>i. i < length (ba_Resources batch)"])
    fix i bd assume i: "i < length (ba_Resources batch)" and P: "?P bd"
    obtain b d where bd: "bd = (b, d)" by force
    let ?res = "ba_Resources b ! i"
    obtain err res' d' where u: "UpdateCondition (so_SetStatusCondition so) (e_client e) ?res t st r msg d = (err, res', d')"
      by (metis prod.exhaust)
    have mem: "?res \<in> set (ba_Resources b)" using i P by (simp add: bd)
    have sc: "same_cluster (view d) (view d')" by (rule UpdateCondition_frame[OF u])
    have "plan_inv (view d) plan b \<Longrightarrow> plan_inv (view d') plan (write_back res' b)"
      using write_back_inv[OF _ mem UpdateCondition_id[OF u] _ sc] UpdateCondition_spec[OF u]
      by (simp add: is_current_def)
    then show "?P (?f i bd)"
      using P sc by (auto simp: bd u one_client intro: same_cluster_trans)
  qed simp_all
  then show "same_cluster (view c) (view c')" "length (ba_Resources batch') = length (ba_Resources batch)"
    "map_option plan_core (ba_Plan batch') = map_option plan_core (ba_Plan batch)" "plan_inv (view c) plan batch \<Longrightarrow> plan_inv (view c') plan batch'"
    using assms by (auto simp: updateConditions_def)
qed

lemma updateStageStatus_inv:
  assumes "updateStageStatus so name r msg batch c = (batch', c')"
  shows "same_cluster (view c) (view c')" "length (ba_Resources batch') = length (ba_Resources batch)"
    "map_option plan_core (ba_Plan batch') = map_option plan_core (ba_Plan batch)" "plan_inv (view c) plan batch \<Longrightarrow> plan_inv (view c') plan batch'"
  using assms updateConditions_inv
  by (fastforce simp: updateStageStatus_def Let_def split: option.splits)+

lemma emitEvent_frame: "view (emitEvent so batch t r msg c) = view c"
proof (cases "so_recorder so")
  case (Some event)
  have "view (fold (\<lambda>res. event res t r msg) rs d) = view d" for rs d
    by (induction rs arbitrary: d) (simp_all add: recorder_frame[OF Some])
  with Some show ?thesis by (simp add: emitEvent_def)
qed (simp add: emitEvent_def)

lemma emitReconcileEvents_frame: "view (emitReconcileEvents so batch c) = view c"
proof (cases "so_recorder so")
  case (Some event)
  have "view (fold f rs d) = view d" if "\<And>x d. view (f x d) = view d" for f :: "WSAResource \<Rightarrow> 'c \<Rightarrow> 'c" and rs d
    using that by (induction rs arbitrary: d) simp_all
  with Some show ?thesis
    by (auto simp: emitReconcileEvents_def recorder_frame[OF Some] Let_def split: option.splits)
qed (simp add: emitReconcileEvents_def)


text \<open>One turn of the loop: reporting before and after the stage changes statuses only.\<close>

definition reported :: "Batch \<times> 'c \<Rightarrow> Batch \<times> 'c \<Rightarrow> bool" where
  "reported bc bc' \<longleftrightarrow> same_cluster (view (snd bc)) (view (snd bc')) \<and>
     length (ba_Resources (fst bc')) = length (ba_Resources (fst bc)) \<and>
     map_option plan_core (ba_Plan (fst bc')) = map_option plan_core (ba_Plan (fst bc)) \<and>
     (\<forall>plan. plan_inv (view (snd bc)) plan (fst bc) \<longrightarrow> plan_inv (view (snd bc')) plan (fst bc'))"

lemma reported_status: "reported (batch, c) (updateStageStatus so name r msg batch c)"
proof -
  obtain b d where u: "updateStageStatus so name r msg batch c = (b, d)" by fastforce
  show ?thesis using updateStageStatus_inv[OF u] by (simp add: reported_def u)
qed

lemma reported_conditions: "reported (batch, c) (updateConditions so t st r msg batch c)"
proof -
  obtain b d where u: "updateConditions so t st r msg batch c = (b, d)" by fastforce
  show ?thesis using updateConditions_inv[OF u] by (simp add: reported_def u)
qed

lemma reported_view: "reported bc (b, d) \<Longrightarrow> view d' = view d \<Longrightarrow> reported bc (b, d')"
  by (simp add: reported_def)

lemma reported_trans: "reported a b \<Longrightarrow> reported b d \<Longrightarrow> reported a d"
  unfolding reported_def using same_cluster_trans by auto

lemma stage_turn:
  assumes "runStages so (stage # stages) batch e0 c = (failure, batch', e', c')"
  obtains b1 c1 err b2 e2 c2 b3 c3 where "reported (batch, c) (b1, c1)"
    "stg_Execute stage b1 e0 c1 = (err, b2, e2, c2)" "reported (b2, c2) (b3, c3)"
    "if err = None then runStages so stages b3 e2 c3 = (failure, batch', e', c')
     else failure \<noteq> None \<and> b3 = batch' \<and> c3 = c' \<and> e2 = e'"
proof -
  let ?n = "stg_Name stage"
  obtain b1 d1 where 1: "updateStageStatus so ?n ReasonInProgress ''Processing'' batch c = (b1, d1)" by fastforce
  let ?c1 = "emitEvent so b1 ''Normal'' ''StageStarted'' (''Stage '' @ ?n @ '' started (batch '' @ ba_ID b1 @ '')'') d1"
  obtain err b2 e2 c2 where 2: "stg_Execute stage b1 e0 ?c1 = (err, b2, e2, c2)" by (metis prod.exhaust)
  have r1: "reported (batch, c) (b1, ?c1)"
    using reported_status[of batch c ?n ReasonInProgress "''Processing''"] by (auto simp: 1 intro: reported_view emitEvent_frame)
  show ?thesis
  proof (cases err)
    case None
    obtain b3 d3 where 3: "updateStageStatus so ?n ReasonSucceeded ''Complete'' b2 c2 = (b3, d3)" by fastforce
    let ?c3 = "emitEvent so b3 ''Normal'' ''StageCompleted'' (''Stage '' @ ?n @ '' completed (batch '' @ ba_ID b3 @
      '', duration '' @ so_Since so d3 @ '')'') d3"
    have "reported (b2, c2) (b3, ?c3)"
      using reported_status[of b2 c2 ?n ReasonSucceeded "''Complete''"] by (auto simp: 3 intro: reported_view emitEvent_frame)
    moreover have "runStages so stages b3 e2 ?c3 = (failure, batch', e', c')"
      using assms 1 2 3 None by (simp add: Let_def)
    ultimately show ?thesis by (intro that[OF r1 2]) (simp_all only: None if_True simp_thms)
  next
    case (Some er)
    obtain b3 d3 where 3: "updateStageStatus so ?n ReasonFailed (so_Error so er) b2 c2 = (b3, d3)" by fastforce
    let ?c3 = "emitEvent so b3 ''Warning'' ''StageFailed'' (''Stage '' @ ?n @ '' failed: '' @ so_Error so er @
      '' (batch '' @ ba_ID b3 @ '')'') d3"
    have rep: "reported (b2, c2) (b3, ?c3)"
      using reported_status[of b2 c2 ?n ReasonFailed "so_Error so er"] by (auto simp: 3 intro: reported_view emitEvent_frame)
    have f: "failure \<noteq> None" "b3 = batch'" "e2 = e'" and c': "?c3 = c'"
      using assms 1 2 3 Some by (auto simp: Let_def)
    from rep[unfolded c'] show ?thesis
      by (rule that[OF r1 2]) (simp add: Some f)
  qed
qed

lemma plan_inv_planned:
  assumes "PlanningStage_Execute \<omega> e batch c = (None, batch', c')"
  obtains rs nss where "set rs = cluster_resources (view c)" "names_valid rs" "view c' = view c"
    "plan_inv (view c') (planFor \<omega> rs nss) batch'" "length (ba_Resources batch') = length (ba_Resources batch)"
  using assms
proof (rule planning_ok)
  fix rs nss
  assume p: "ba_Plan batch' = Some (planFor \<omega> rs nss)" "set rs = cluster_resources (view c)" "names_valid rs"
    "view c' = view c" "ba_Resources batch' = updateBatchResourceVersions (ba_Resources batch) rs"
  have cur: "is_current (view c) res" if "res \<in> set rs" for res
    using that p(2) cluster_resources_iff[OF view_id, where res = res] by (auto simp: is_current_def)
  let ?m = "fold (\<lambda>r. map_put (GetNamespacedName r) r) rs []"
  have kd: "keys_distinct rs" using names_validD[OF p(3)] by simp
  have found: "map_of ?m (GetNamespacedName r) = Some r" if "r \<in> set rs" for r
    using fold_put_inj[of GetNamespacedName rs r "\<lambda>r. r" "[]"] kd that
    by (simp add: keys_distinct_def distinct_map)
  have shared: "a = r" if "a \<in> set (ba_Resources batch')" "r \<in> set rs" "GetNamespacedName a = GetNamespacedName r" for a r
  proof -
    from that(1) obtain b where b: "a = (case map_of ?m (GetNamespacedName b) of Some fresh \<Rightarrow> fresh | None \<Rightarrow> b)"
      by (auto simp: p(5) updateBatchResourceVersions_def)
    show ?thesis
    proof (cases "map_of ?m (GetNamespacedName b)")
      case None
      then show ?thesis using b found[OF that(2)] that(3) by simp
    next
      case (Some x)
      have "x \<in> set rs" using fold_put_origin[of GetNamespacedName "\<lambda>r. r" rs "[]", OF Some] by auto
      moreover have "a = x" using b Some by simp
      ultimately show ?thesis using that(2,3) kd unfolding keys_distinct_def distinct_map inj_on_def by blast
    qed
  qed
  have "plan_inv (view c') (planFor \<omega> rs nss) batch'"
    unfolding plan_inv_def p(4)
    by (intro exI[of _ "planFor \<omega> rs nss"] conjI ballI impI p(1) plan_refreshed_refl)
      (simp_all only: planFor_simps cur shared)
  then show ?thesis
    by (rule that[OF p(2-4)]) (simp add: p(5) updateBatchResourceVersions_def)
qed


lemma validated_same_cluster:
  assumes "same_cluster (view c) (view d)" "validated (view c) plan"
    "pl_UniqueAccounts plan' = pl_UniqueAccounts plan" "pl_TargetNamespaces plan' = pl_TargetNamespaces plan"
  shows "validated (view d) plan'"
proof -
  have "view d i = view c i" if "fst i = KServiceAccount \<or> fst i = KNamespace" for i
    by (rule same_cluster_other[OF assms(1) view_id view_id]) (use that in auto)
  then show ?thesis using assms(2-4) by (simp add: validated_def)
qed

text \<open>
  What a run through the stages comes to: either nothing but statuses changed and the engine is
  as before, or the execution stage ran, on a validated plan for the resources of the cluster.
\<close>

definition executed ::
  "'c \<Rightarrow> error option \<Rightarrow> WSAResource list \<Rightarrow> string list \<Rightarrow> Plan \<Rightarrow> Batch \<Rightarrow> 'c \<Rightarrow> 'c InMemoryEngine \<Rightarrow> 'c \<Rightarrow> bool" where
  "executed c err rs nss p bx cx e' cy \<longleftrightarrow>
     (\<exists>cp. same_cluster (view c) (view cp) \<and> set rs = cluster_resources (view cp)) \<and> names_valid rs \<and>
     ba_Plan bx = Some p \<and> plan_refreshed (planFor \<omega> rs nss) p \<and>
     (\<forall>res \<in> set (pl_AllResources p). is_current (view cx) res) \<and>
     same_cluster (view c) (view cx) \<and> validated (view cx) p \<and>
     ExecutionStage_Execute \<omega> e bx cx = (err, e', cy)"

lemma stages_cases:
  assumes "runStages so (stagingStages \<omega> (e_client e)) batch e c = (failure, batch', e', c')"
  obtains "same_cluster (view c) (view c')" "e' = e" "failure \<noteq> None"
  | err rs nss p bx cx cy where "executed c err rs nss p bx cx e' cy" "same_cluster (view cy) (view c')"
    "failure = None \<longleftrightarrow> err = None" "map_option pl_TargetNamespaces (ba_Plan batch') = Some nss"
proof -
  from assms obtain b1 c1 err b2 e2 c2 b3 c3 where 1: "reported (batch, c) (b1, c1)"
    "stg_Execute (planning_stage \<omega>) b1 e c1 = (err, b2, e2, c2)" "reported (b2, c2) (b3, c3)"
    "if err = None then runStages so [validation_stage (e_client e), execution_stage \<omega>] b3 e2 c3 = (failure, batch', e', c')
     else failure \<noteq> None \<and> b3 = batch' \<and> c3 = c' \<and> e2 = e'"
    unfolding stagingStages_def by (rule stage_turn)
  have p: "PlanningStage_Execute \<omega> e b1 c1 = (err, b2, c2)" "e2 = e"
    using 1(2) by (auto simp: planning_stage_def split: prod.splits)
  have sc1: "same_cluster (view c) (view c1)" using 1(1) by (simp add: reported_def)
  have sc3: "same_cluster (view c) (view c3)"
    using sc1 1(3) planning_frame[OF p(1)] by (auto simp: reported_def intro: same_cluster_trans)
  show ?thesis
  proof (cases err)
    case (Some er)
    then show ?thesis using 1(4) sc3 p(2) by (intro that(1)) auto
  next
    case None
    from p(1)[unfolded None] obtain rs nss where rs: "set rs = cluster_resources (view c1)" "names_valid rs"
      and inv2: "plan_inv (view c2) (planFor \<omega> rs nss) b2" by (rule plan_inv_planned)
    have inv3: "plan_inv (view c3) (planFor \<omega> rs nss) b3" using 1(3) inv2 by (simp add: reported_def)
    from 1(4) None p(2) have "runStages so [validation_stage (e_client e), execution_stage \<omega>] b3 e c3 = (failure, batch', e', c')"
      by simp
    then obtain b4 c4 err4 b5 e5 c5 b6 c6 where 4: "reported (b3, c3) (b4, c4)"
      "stg_Execute (validation_stage (e_client e)) b4 e c4 = (err4, b5, e5, c5)" "reported (b5, c5) (b6, c6)"
      "if err4 = None then runStages so [execution_stage \<omega>] b6 e5 c6 = (failure, batch', e', c')
       else failure \<noteq> None \<and> b6 = batch' \<and> c6 = c' \<and> e5 = e'"
      by (rule stage_turn)
    have v: "ValidationStage_Execute (e_client e) b4 c4 = (err4, b5, c5)" "e5 = e"
      using 4(2) by (auto simp: validation_stage_def split: prod.splits)
    note vs = validation_step[OF v(1)]
    have inv4: "plan_inv (view c4) (planFor \<omega> rs nss) b4" using 4(1) inv3 by (simp add: reported_def)
    then have "plan_inv (view c5) (planFor \<omega> rs nss) b5" by (simp add: plan_inv_def vs(1-3))
    then have inv6: "plan_inv (view c6) (planFor \<omega> rs nss) b6" using 4(3) by (simp add: reported_def)
    have sc4: "same_cluster (view c) (view c4)" using sc3 4(1) by (auto simp: reported_def intro: same_cluster_trans)
    have sc6: "same_cluster (view c) (view c6)" using sc4 4(3) vs(1) by (auto simp: reported_def intro: same_cluster_trans)
    show ?thesis
    proof (cases err4)
      case (Some er)
      then show ?thesis using 4(4) sc6 v(2) by (intro that(1)) auto
    next
      case None
      with 4(4) v(2) have "runStages so [execution_stage \<omega>] b6 e c6 = (failure, batch', e', c')" by simp
      then obtain b7 c7 err7 b8 e8 c8 b9 c9 where 7: "reported (b6, c6) (b7, c7)"
        "stg_Execute (execution_stage \<omega>) b7 e c7 = (err7, b8, e8, c8)" "reported (b8, c8) (b9, c9)"
        "if err7 = None then runStages so [] b9 e8 c9 = (failure, batch', e', c')
         else failure \<noteq> None \<and> b9 = batch' \<and> c9 = c' \<and> e8 = e'"
        by (rule stage_turn)
      have x: "ExecutionStage_Execute \<omega> e b7 c7 = (err7, e8, c8)" "b8 = b7"
        using 7(2) by (auto simp: execution_stage_def split: prod.splits)
      have fin: "b9 = batch'" "c9 = c'" "e8 = e'" "failure = None \<longleftrightarrow> err7 = None" using 7(4) by (auto split: if_splits)
      have "plan_inv (view c7) (planFor \<omega> rs nss) b7" using 7(1) inv6 by (simp add: reported_def)
      then obtain p where p7: "ba_Plan b7 = Some p" "plan_refreshed (planFor \<omega> rs nss) p"
        "\<forall>res \<in> set (pl_AllResources p). is_current (view c7) res" by (auto simp: plan_inv_def)
      have sc7: "same_cluster (view c) (view c7)" using sc6 7(1) by (auto simp: reported_def intro: same_cluster_trans)
      obtain q where q: "ba_Plan b4 = Some q" "validated (view c4) q" using vs(4)[OF None] by blast
      have "plan_refreshed (planFor \<omega> rs nss) q" using inv4 q(1) by (auto simp: plan_inv_def)
      then have "validated (view c7) p"
        using validated_same_cluster[OF same_cluster_trans[OF same_cluster_sym[OF sc4] sc7] q(2)] p7(2)
        by (simp add: plan_refreshed_def)
      then have "executed c err7 rs nss p b7 c7 e' c8"
        unfolding executed_def using sc1 rs p7 sc7 x(1) fin(3) by blast
      moreover have "same_cluster (view c8) (view c')" using 7(3) fin(2) by (simp add: reported_def)
      moreover have "map_option pl_TargetNamespaces (ba_Plan batch') = Some nss"
        using 7(3) fin(1) x(2) p7(1,2) plan_core_namespaces[of "ba_Plan batch'" "ba_Plan b7"]
        by (simp add: reported_def plan_refreshed_def)
      ultimately show ?thesis using that(2) fin(4) by blast
    qed
  qed
qed

lemma processBatch_cases:
  assumes "processBatch so batch e c = (err, batch', e', c')"
  obtains "same_cluster (view c) (view c')" "e' = e" "err = None \<longrightarrow> ba_Resources batch = []"
  | err' rs nss p bx cx cy where "executed c err' rs nss p bx cx e' cy" "same_cluster (view cy) (view c')"
    "err = None \<longleftrightarrow> err' = None" "map_option pl_TargetNamespaces (ba_Plan batch') = Some nss"
proof (cases "ba_Resources batch = []")
  case True
  with assms show ?thesis by (intro that(1)) (simp_all add: processBatch_def)
next
  case False
  obtain failure b1 e1 c1 where 1: "runStages so (stagingStages \<omega> (e_client e)) batch e c = (failure, b1, e1, c1)"
    by (metis prod.exhaust)
  obtain b2 c2 where 2: "updateFinalConditions so failure b1 c1 = (b2, c2)" by fastforce
  have rep: "reported (b1, c1) (b2, c2)"
    using 2 reported_conditions by (auto simp: updateFinalConditions_def split: option.splits) (metis, metis)
  have fin: "e' = e1" "b2 = batch'" "err = None \<longleftrightarrow> failure = None"
    using assms False 1 2 by (auto simp: processBatch_def the_stages Let_def split: option.splits)
  have "view c' = view c2"
    using assms False 1 2
    by (auto simp: processBatch_def the_stages Let_def emitReconcileEvents_frame after_frame split: option.splits)
  with rep have sc: "same_cluster (view c1) (view c')" by (simp add: reported_def)
  have tn: "map_option pl_TargetNamespaces (ba_Plan batch') = map_option pl_TargetNamespaces (ba_Plan b1)"
    using rep fin(2) by (intro plan_core_namespaces) (simp add: reported_def)
  from 1 show ?thesis
  proof (cases rule: stages_cases)
    case 1
    then show ?thesis using sc fin by (intro that(1)) (auto intro: same_cluster_trans)
  next
    case (2 err' rs nss p bx cx cy)
    show ?thesis
      by (rule that(2)[OF 2(1)[folded fin(1)]]) (use 2 sc fin tn in \<open>auto intro: same_cluster_trans\<close>)
  qed
qed

end

text \<open>A batch that fails leaves the engine as it was: only the end of the execution stage writes to it.\<close>

lemma failed_batch_engine:
  assumes "processBatch so batch e c = (Some err, batch', e', c')" "so_stages so = stagingStages \<omega> cl"
  shows "e' = e"
proof -
  have "runStages so (stagingStages \<omega> cl) b e d = (Some f, b', e1, d') \<Longrightarrow> e1 = e" for b d f b' e1 d'
    by (auto simp: stagingStages_def planning_stage_def validation_stage_def execution_stage_def ExecutionStage_Execute_def
        ApplyBatchPlan_def Let_def split: prod.splits option.splits if_splits)
  with assms show ?thesis
    by (auto simp: processBatch_def Let_def split: prod.splits option.splits if_splits)
qed

end
