(* ===== verification/Guarantees.thy ===== *)
theory Guarantees
  imports Pipeline
begin

text \<open>
  End to end: what a processed batch guarantees, from the custom resources in the cluster to the
  account of a pod and its role bindings, and what no batch ever touches.
\<close>

context pipeline
begin

lemma executed_plan_ok:
  assumes "executed c err rs nss p bx cx e' cy"
  shows "plan_ok p"
proof -
  have r: "plan_refreshed (planFor \<omega> rs nss) p" and v: "names_valid rs" using assms by (simp_all add: executed_def)
  have l: "list_all2 same_spec rs (pl_AllResources p)" using r by (simp add: plan_refreshed_def)
  have keys: "map GetNamespacedName (pl_AllResources p) = map GetNamespacedName rs"
    using l same_spec_fields(3) by (induction rule: list_all2_induct) auto
  have mem: "\<exists>res' \<in> set rs. GetNamespacedName res' = GetNamespacedName res" if "res \<in> set (pl_AllResources p)" for res
    using that keys by (metis imageE list.set_map image_eqI)
  from planFor_ok[OF order v, of nss] show ?thesis
    using r mem unfolding plan_ok_def keys_distinct_def plan_refreshed_def planFor_simps keys by metis
qed

lemma same_resources:
  assumes "same_cluster (view c) (view d)" "res \<in> cluster_resources (view c)"
  shows "\<exists>res' \<in> cluster_resources (view d). same_spec res res'"
  using same_cluster_resources[OF assms(1) view_id[of c] view_id[of d] assms(2)] by blast

lemma executed_resources:
  assumes "executed c err rs nss p bx cx e' cy"
  shows "res \<in> cluster_resources (view c) \<Longrightarrow> \<exists>res' \<in> set rs. same_spec res res'"
    and "res' \<in> set rs \<Longrightarrow> \<exists>res \<in> cluster_resources (view c). same_spec res res'"
    and "res' \<in> set rs \<Longrightarrow> \<exists>res \<in> set (pl_AllResources p). same_spec res' res"
    and "res \<in> set (pl_AllResources p) \<Longrightarrow> \<exists>res' \<in> set rs. same_spec res' res"
proof -
  obtain cp where cp: "same_cluster (view c) (view cp)" "set rs = cluster_resources (view cp)"
    and l: "list_all2 same_spec rs (pl_AllResources p)"
    using assms by (auto simp: executed_def plan_refreshed_def)
  show "res \<in> cluster_resources (view c) \<Longrightarrow> \<exists>res' \<in> set rs. same_spec res res'"
    using same_resources[OF cp(1)] cp(2) by blast
  show "res' \<in> set rs \<Longrightarrow> \<exists>res \<in> cluster_resources (view c). same_spec res res'"
    using same_resources[OF same_cluster_sym[OF cp(1)]] cp(2) same_spec_sym by blast
  show "res' \<in> set rs \<Longrightarrow> \<exists>res \<in> set (pl_AllResources p). same_spec res' res"
    using l by (metis in_set_conv_nth list_all2_conv_all_nth)
  show "res \<in> set (pl_AllResources p) \<Longrightarrow> \<exists>res' \<in> set rs. same_spec res' res"
    using l by (metis in_set_conv_nth list_all2_conv_all_nth)
qed

lemma executed_no_clash:
  assumes "executed c err rs nss p bx cx e' cy" "no_clash (cluster_resources (view c))"
  shows "no_clash (set (pl_AllResources p))"
proof (rule no_clash_same_spec[OF assms(2)])
  fix res assume "res \<in> set (pl_AllResources p)"
  then show "\<exists>r \<in> cluster_resources (view c). same_spec r res"
    using executed_resources(2,4)[OF assms(1)] same_spec_trans by meson
next
  fix a b assume "a \<in> set (pl_AllResources p)" "b \<in> set (pl_AllResources p)" "GetNamespacedName a = GetNamespacedName b"
  then show "a = b"
    using executed_plan_ok[OF assms(1)] by (auto simp: plan_ok_def keys_distinct_def distinct_map inj_on_def)
qed

text \<open>What the engine knows after a processed batch, and so what deletions wait for, are live resources.\<close>

lemma executed_known:
  assumes "executed c None rs nss p bx cx e' cy" "IsWSAInMaps e' k"
  shows "k \<in> GetNamespacedName ` cluster_resources (view c)"
proof -
  have x: "ExecutionStage_Execute \<omega> e bx cx = (None, e', cy)" and bx: "ba_Plan bx = Some p"
    and r: "plan_refreshed (planFor \<omega> rs nss) p" and v: "names_valid rs" using assms(1) by (simp_all add: executed_def)
  from x obtain plan where "ba_Plan bx = Some plan" "ApplyBatchPlan (plan_as_BatchPlan plan) e = (None, e')"
    by (rule ExecutionStage_ok)
  then have "e_saToWsaMap e' = pl_SAToWSAMap p"
    using bx by (auto simp: ApplyBatchPlan_def plan_as_BatchPlan_def Let_def)
  with assms(2) have "\<exists>(sa, m) \<in> set (pl_SAToWSAMap p). k \<in> dom (map_of m)"
    by (auto simp: IsWSAInMaps_def domIff)
  then have "\<exists>(sa, m) \<in> set (saToWSAs_of \<omega> (scopeMap_of \<omega> rs)). k \<in> dom (map_of m)"
    using r by (simp add: wsa_keys_mem plan_refreshed_def)
  with saToWSAs_keys[OF order v] obtain res' where res': "res' \<in> set rs" "k = GetNamespacedName res'" by blast
  from executed_resources(2)[OF assms(1) res'(1)] obtain res where "res \<in> cluster_resources (view c)" "same_spec res res'"
    by blast
  with res'(2) same_spec_fields(3) show ?thesis by (metis image_eqI)
qed

lemma executed_resolver:
  assumes "executed c None rs nss p bx cx e' cy"
  shows "engine_GetServiceAccountForScope e' q = GetServiceAccountForScope (resolver \<omega> rs) q"
proof -
  have x: "ExecutionStage_Execute \<omega> e bx cx = (None, e', cy)" and bx: "ba_Plan bx = Some p"
    and r: "plan_refreshed (planFor \<omega> rs nss) p" using assms by (simp_all add: executed_def)
  from x obtain plan where "ba_Plan bx = Some plan" "ApplyBatchPlan (plan_as_BatchPlan plan) e = (None, e')"
    by (rule ExecutionStage_ok)
  then have "e_ScopeComputation e' = NewScopeComputationService (vocab_of rs) (scopeToSA_of \<omega> (scopeMap_of \<omega> rs))"
    using bx r by (auto simp: ApplyBatchPlan_def plan_as_BatchPlan_def plan_refreshed_def Let_def)
  then show ?thesis by (simp add: engine_GetServiceAccountForScope_def ComputeScopes_snd)
qed

lemma bound_accounts:
  assumes "executed c err rs nss p bx cx e' cy" "res \<in> set (pl_AllResources p)" "same_spec res' res"
  shows "map_of (pl_WSAToSANames p) (GetNamespacedName res) = Some as \<Longrightarrow>
      accounts_bound (bound_names \<omega> rs) (GetNamespacedName res') = set as"
proof -
  have "pl_WSAToSANames p = convertWSAToSANames \<omega> (wsaToSANames_of \<omega> (scopeMap_of \<omega> rs))"
    using assms(1) by (simp add: executed_def plan_refreshed_def)
  then show "map_of (pl_WSAToSANames p) (GetNamespacedName res) = Some as \<Longrightarrow>
      accounts_bound (bound_names \<omega> rs) (GetNamespacedName res') = set as"
    using same_spec_fields(3)[OF assms(3)] by (simp add: map_of_convert[OF order] accounts_bound_def)
qed

text \<open>Roles, accounts and bindings are the same objects when only statuses change.\<close>

lemma granted_same_cluster:
  assumes "same_cluster (view c) (view d)" "granted (view c) nss res n"
  shows "granted (view d) nss res n"
proof -
  have eq: "view d i = view c i" if "fst i \<notin> {KWorkloadServiceAccount, KClusterWorkloadServiceAccount}" for i
    by (rule same_cluster_other[OF assms(1) view_id view_id that])
  have "view d (KServiceAccount, k) = view c (KServiceAccount, k)" for k by (rule eq) simp
  moreover have "binding_at (view d) (binding_id res ref) = binding_at (view c) (binding_id res ref)" for ref
    unfolding binding_at_def by (subst eq) (auto simp: binding_id_def)
  moreover have "role_at (view d) (role_id res) = role_at (view c) (role_id res)"
    unfolding role_at_def by (subst eq) (auto simp: role_id_def)
  ultimately show ?thesis using assms(2) by (simp add: granted_def)
qed

lemma executed_grants:
  assumes ex: "executed c None rs nss p bx cx e' cy" and clash: "no_clash (cluster_resources (view c))"
    and wild: "\<forall>r \<in> cluster_resources (view c). no_wildcard [r]"
    and res: "res \<in> cluster_resources (view c)" "wsa_matches res q"
  shows "\<exists>n. engine_GetServiceAccountForScope e' q = (n, None) \<and> n \<noteq> [] \<and> granted (view cy) nss res n"
proof -
  obtain r1 where r1: "r1 \<in> set rs" "same_spec res r1" using executed_resources(1)[OF ex res(1)] by blast
  obtain r2 where r2: "r2 \<in> set (pl_AllResources p)" "same_spec r1 r2" using executed_resources(3)[OF ex r1(1)] by blast
  have valid: "names_valid rs" using ex by (simp add: executed_def)
  have nw: "no_wildcard rs"
    using wild executed_resources(2)[OF ex] same_spec_fields(4)
    by (simp add: no_wildcard_def scopeSlices_def) metis
  have m: "wsa_matches r1 q" using res(2) same_spec_derived(4)[OF r1(2)] by simp
  let ?n = "fst (GetServiceAccountForScope (resolver \<omega> rs) q)"
  have acc: "engine_GetServiceAccountForScope e' q = (?n, None)" "?n \<noteq> []"
    unfolding executed_resolver[OF ex] using r1(1) m by (auto simp: resolver_eq[OF order nw])
  have n: "?n \<in> accounts_bound (bound_names \<omega> rs) (GetNamespacedName r1)"
    by (rule deployment_bound[OF order valid nw r1(1) m])
  have plan: "plan_ok p" by (rule executed_plan_ok[OF ex])
  then obtain as where as: "map_of (pl_WSAToSANames p) (GetNamespacedName r2) = Some as"
    using r2(1) by (auto simp: plan_ok_def)
  then have "?n \<in> set as" using n bound_accounts[OF ex r2(1,2)] by simp
  moreover have "ExecutionStage_Execute \<omega> e bx cx = (None, e', cy)" "ba_Plan bx = Some p" "pl_TargetNamespaces p = nss"
    using ex by (simp_all add: executed_def plan_refreshed_def)
  ultimately have "granted (view cy) nss r2 ?n"
    using rm.execution_grants(1)[OF _ _ refl order plan executed_no_clash[OF ex clash] r2(1) as] by blast
  then have "granted (view cy) nss res ?n"
    using same_spec_derived(5)[OF same_spec_trans[OF r1(2) r2(2)]] by blast
  with acc show ?thesis by blast
qed


lemma executed_exact:
  assumes ex: "executed c None rs nss p bx cx e' cy" and clash: "no_clash (cluster_resources (view c))"
    and rb: "view cy i = Some (ORoleBinding rb)" "managed (ORoleBinding rb)" "\<not> terminating (ORoleBinding rb)"
  obtains res r1 as where "res \<in> cluster_resources (view c)" "r1 \<in> set rs" "same_spec res r1"
    "rb_RoleRef rb \<in> set (bound_refs res)" "rb_Subjects rb = subjects_of as nss" "i = binding_id res (rb_RoleRef rb)"
    "accounts_bound (bound_names \<omega> rs) (GetNamespacedName r1) = set as"
proof -
  have x: "ExecutionStage_Execute \<omega> e bx cx = (None, e', cy)" "ba_Plan bx = Some p" "pl_TargetNamespaces p = nss"
    using ex by (simp_all add: executed_def plan_refreshed_def)
  from rm.execution_exact[OF x(1,2) refl order executed_plan_ok[OF ex] executed_no_clash[OF ex clash] rb] x(3)
  obtain r2 as where r2: "r2 \<in> set (pl_AllResources p)" "rb_RoleRef rb \<in> set (bound_refs r2)"
    "map_of (pl_WSAToSANames p) (GetNamespacedName r2) = Some as" "rb_Subjects rb = subjects_of as nss"
    "i = binding_id r2 (rb_RoleRef rb)" by blast
  obtain r1 where r1: "r1 \<in> set rs" "same_spec r1 r2" using executed_resources(4)[OF ex r2(1)] by blast
  obtain res where res: "res \<in> cluster_resources (view c)" "same_spec res r1"
    using executed_resources(2)[OF ex r1(1)] by blast
  note d = same_spec_derived[OF same_spec_trans[OF res(2) r1(2)]]
  show ?thesis
    using that[OF res(1) r1(1) res(2)] r2(2,4,5) d(1,2) bound_accounts[OF ex r2(1) r1(2) r2(3)] by metis
qed

text \<open>Role bindings are the same before and after the statuses have been reported.\<close>

lemma same_binding:
  assumes "same_cluster (view c) (view d)" "view d i = Some (ORoleBinding rb)"
  shows "view c i = Some (ORoleBinding rb)"
proof -
  have "fst i = KRoleBinding" using view_id[OF assms(2)] by auto
  then show ?thesis using same_cluster_other[OF assms(1) view_id view_id] assms(2) by auto
qed

lemma processed:
  assumes "processBatch so batch e c = (None, batch', e', c')" "ba_Resources batch \<noteq> []"
  obtains rs nss p bx cx cy plan where "executed c None rs nss p bx cx e' cy" "same_cluster (view cy) (view c')"
    "ba_Plan batch' = Some plan" "pl_TargetNamespaces plan = nss"
  using assms(1)
proof (rule processBatch_cases)
  assume "None = None \<longrightarrow> ba_Resources batch = []"
  with assms(2) show ?thesis by simp
next
  fix err' rs nss p bx cx cy
  assume "executed c err' rs nss p bx cx e' cy" "same_cluster (view cy) (view c')"
    "None = None \<longleftrightarrow> err' = None" "map_option pl_TargetNamespaces (ba_Plan batch') = Some nss"
  then show ?thesis using that by auto
qed

lemma processed_known:
  assumes "processBatch so batch e c = (None, batch', e', c')" "ba_Resources batch \<noteq> []" "IsWSAInMaps e' k"
  shows "k \<in> GetNamespacedName ` cluster_resources (view c)"
  using assms(1,2) by (rule processed) (metis executed_known assms(3))

lemma grants:
  assumes "processBatch so batch e c = (None, batch', e', c')" "ba_Resources batch \<noteq> []"
    and "no_clash (cluster_resources (view c))" "\<forall>r \<in> cluster_resources (view c). no_wildcard [r]"
    and "res \<in> cluster_resources (view c)" "wsa_matches res p"
  shows "\<exists>n plan. engine_GetServiceAccountForScope e' p = (n, None) \<and> n \<noteq> [] \<and> ba_Plan batch' = Some plan \<and>
    granted (view c') (pl_TargetNamespaces plan) res n"
  using assms(1,2)
proof (rule processed)
  fix rs nss q bx cx cy plan
  assume ex: "executed c None rs nss q bx cx e' cy" "same_cluster (view cy) (view c')"
    and plan: "ba_Plan batch' = Some plan" "pl_TargetNamespaces plan = nss"
  from executed_grants[OF ex(1) assms(3-6)] granted_same_cluster[OF ex(2)] plan show ?thesis by blast
qed

lemma binding_for_matching:
  assumes "processBatch so batch e c = (None, batch', e', c')" "ba_Resources batch \<noteq> []"
    and "no_clash (cluster_resources (view c))"
    and "\<forall>r \<in> cluster_resources (view c). slugs [r] \<and> single_dimension r"
    and "inj_on shortHash (possible_names (cluster_resources (view c)))"
    and "engine_GetServiceAccountForScope e' p = (n, None)" "n \<noteq> []"
    and rb: "view c' i = Some (ORoleBinding rb)" "managed (ORoleBinding rb)" "\<not> terminating (ORoleBinding rb)"
    and sub: "s \<in> set (rb_Subjects rb)" "su_Name s = n"
  shows "\<exists>res \<in> cluster_resources (view c). wsa_matches res p \<and> rb_RoleRef rb \<in> set (bound_refs res)"
  using assms(1,2)
proof (rule processed)
  fix rs nss q bx cx cy plan
  assume ex: "executed c None rs nss q bx cx e' cy" "same_cluster (view cy) (view c')"
  from ex(1) assms(3) same_binding[OF ex(2) rb(1)] rb(2,3) obtain res r1 as where
    res: "res \<in> cluster_resources (view c)" "r1 \<in> set rs" "same_spec res r1" "rb_RoleRef rb \<in> set (bound_refs res)"
    and as: "rb_Subjects rb = subjects_of as nss" "accounts_bound (bound_names \<omega> rs) (GetNamespacedName r1) = set as"
    by (rule executed_exact)
  have valid: "names_valid rs" using ex(1) by (simp add: executed_def)
  have same: "\<exists>r' \<in> cluster_resources (view c). scopeSlices r' = scopeSlices r" if "r \<in> set rs" for r
    using executed_resources(2)[OF ex(1) that] same_spec_fields(4) unfolding scopeSlices_def by metis
  have "slugs [r] \<and> single_dimension r" if r: "r \<in> set rs" for r
  proof -
    obtain r' where "r' \<in> cluster_resources (view c)" "scopeSlices r' = scopeSlices r" using same[OF r] by blast
    moreover from this(1) assms(4) have "slugs [r'] \<and> single_dimension r'" by blast
    ultimately show ?thesis unfolding slugs_def single_dimension_def restricts_def by simp
  qed
  then have sl: "slugs rs" and sd: "\<forall>r \<in> set rs. single_dimension r"
    unfolding slugs_def by simp_all
  have "values_of (set rs) d \<subseteq> values_of (cluster_resources (view c)) d" for d
  proof
    fix x assume "x \<in> values_of (set rs) d"
    then obtain r where r: "r \<in> set rs" "x \<in> set (scopeSlices r ! d)" by (auto simp: values_of_def)
    obtain r' where "r' \<in> cluster_resources (view c)" "scopeSlices r' = scopeSlices r" using same[OF r(1)] by blast
    with r(2) show "x \<in> values_of (cluster_resources (view c)) d" unfolding values_of_def by (metis UN_I)
  qed
  then have "possible_names (set rs) \<subseteq> possible_names (cluster_resources (view c))"
    unfolding possible_names_def ordered_subset_def by (intro image_mono Collect_mono) (metis (no_types, lifting) subset_trans)
  then have inj: "inj_on shortHash (name_strings \<omega> rs)"
    using assms(5) name_strings_possible[OF order valid] by (meson inj_on_subset subset_trans)
  have n: "fst (GetServiceAccountForScope (resolver \<omega> rs) p) = n"
    using assms(6) executed_resolver[OF ex(1), of p] by simp
  have "n \<in> set as" using sub as(1) by (auto simp: subjects_of_def)
  then have "n \<in> accounts_bound (bound_names \<omega> rs) (GetNamespacedName r1)" using as(2) by simp
  from account_separates[OF order valid sl sd inj n assms(7) res(2) this]
  have "wsa_matches res p" using same_spec_derived(4)[OF res(3)] by simp
  with res(1,4) show ?thesis by blast
qed

text \<open>What belongs to others: accounts without the label, and every kind that is only read.\<close>

lemma others_untouched:
  assumes "processBatch so batch e c = (err, batch', e', c')"
    and "i \<in> {(KServiceAccount, k), (KNamespace, k), (KDeployment, k)}"
    and "fst i = KServiceAccount \<Longrightarrow> \<forall>x. view c i = Some x \<longrightarrow> \<not> managed x" and "view c i \<noteq> None"
  shows "view c' i = view c i"
proof -
  have kind: "fst i \<notin> {KWorkloadServiceAccount, KClusterWorkloadServiceAccount}" using assms(2) by auto
  have eq: "view d' i = view d i" if "same_cluster (view d) (view d')" for d d'
    by (rule same_cluster_other[OF that view_id view_id kind])
  from assms(1) show ?thesis
  proof (rule processBatch_cases)
    assume "same_cluster (view c) (view c')"
    then show ?thesis by (rule eq)
  next
    fix err' rs nss p bx cx cy
    assume ex: "executed c err' rs nss p bx cx e' cy" "same_cluster (view cy) (view c')"
    then have x: "ExecutionStage_Execute \<omega> e bx cx = (err', e', cy)" "ba_Plan bx = Some p"
      "same_cluster (view c) (view cx)" "validated (view cx) p" by (simp_all add: executed_def)
    obtain y where y: "view cx i = Some y" "view c i = Some y" using eq[OF x(3)] assms(4) by auto
    have "i \<notin> plan_ids p"
    proof
      assume "i \<in> plan_ids p"
      then obtain ns sa where "i = (KServiceAccount, key ns (om_Name (sa_Meta sa)))" "ns \<in> set (pl_TargetNamespaces p)"
        "sa \<in> set (pl_UniqueAccounts p)"
        using assms(2) by (auto simp: plan_ids_def role_id_def binding_id_def split: if_splits)
      then show False using x(4) y assms(3) by (auto simp: validated_def)
    qed
    moreover have "keys_distinct (pl_AllResources p)" using executed_plan_ok[OF ex(1)] by (simp add: plan_ok_def)
    ultimately have "view cy i \<noteq> view cx i \<Longrightarrow> managed y \<and> \<not> expected p y"
      using rm.execution_frame[OF x(1,2) refl] y(1) by fastforce
    moreover have "\<not> (managed y \<and> \<not> expected p y)"
      using assms(2,3) y(2) view_id[OF y(1)] by (cases y) (auto simp: expected_def)
    ultimately show ?thesis using eq[OF ex(2)] eq[OF x(3)] by metis
  qed
qed

end

section \<open>Guarantees of a processed batch\<close>

text \<open>
  C1. Access is granted: when a batch has been processed without an error, every deployment that
  matches a live resource of the cluster is given a service account that exists, managed, in every
  target namespace, is a subject of a binding for each of the resource's roles there, and the role
  made of the resource's inline permissions has exactly these rules. The statuses reported between
  the stages do not interfere. (Names of roles and bindings are hashes; the resources must not
  clash in them.)
\<close>

theorem batch_grants_access:
  assumes "pipeline e view so \<omega>" and "processBatch so batch e c = (None, batch', e', c')"
    and "ba_Resources batch \<noteq> []" and "no_clash (cluster_resources (view c))"
    and "\<forall>r \<in> cluster_resources (view c). no_wildcard [r]"
    and "res \<in> cluster_resources (view c)" and "wsa_matches res p"
  shows "\<exists>n plan. engine_GetServiceAccountForScope e' p = (n, None) \<and> n \<noteq> [] \<and> ba_Plan batch' = Some plan \<and>
    granted (view c') (pl_TargetNamespaces plan) res n"
  by (rule pipeline.grants[OF assms])

text \<open>
  C4. Least privilege: after the same batch, whatever role binding of the controller names the account
  of a deployment as a subject was made for a live resource that the deployment matches, and
  binds one of that resource's own roles. (For resources that constrain one dimension each and
  values that are slugs, as long as the truncated hash keeps the finitely many names apart that
  these values can give.)
\<close>

theorem batch_least_privilege:
  assumes "pipeline e view so \<omega>" and "processBatch so batch e c = (None, batch', e', c')"
    and "ba_Resources batch \<noteq> []" and "no_clash (cluster_resources (view c))"
    and "\<forall>r \<in> cluster_resources (view c). slugs [r] \<and> single_dimension r"
    and "inj_on shortHash (possible_names (cluster_resources (view c)))"
    and "engine_GetServiceAccountForScope e' p = (n, None)" and "n \<noteq> []"
    and "view c' i = Some (ORoleBinding rb)" and "managed (ORoleBinding rb)" and "\<not> terminating (ORoleBinding rb)"
    and "s \<in> set (rb_Subjects rb)" and "su_Name s = n"
  shows "\<exists>res \<in> cluster_resources (view c). wsa_matches res p \<and> rb_RoleRef rb \<in> set (bound_refs res)"
  by (rule pipeline.binding_for_matching[OF assms])

text \<open>
  C7. No takeover: processing a batch, with whatever outcome and whatever requests fail or lose their
  responses, never changes a service account that does not carry the controller's label, even
  one with the name of a planned account, and never changes a namespace or a deployment.
\<close>

theorem foreign_objects_untouched:
  assumes "pipeline e view so \<omega>" and "processBatch so batch e c = (err, batch', e', c')"
    and "view c i = Some x" and "obj_kind x \<in> {KServiceAccount, KNamespace, KDeployment}"
    and "obj_kind x = KServiceAccount \<Longrightarrow> \<not> managed x"
  shows "view c' i = view c i"
proof -
  have cl: "api_client_current (e_client e) view"
    using assms(1) by (simp add: pipeline_def engine_api_def)
  have "obj_id x = i" using api_client.view_id[OF api_client_current.axioms(1)[OF cl] assms(3)] .
  then show ?thesis
    using assms(3-5) by (intro pipeline.others_untouched[OF assms(1,2), of i "snd i"]) (cases i; auto)+
qed


section \<open>The pipeline on the in-memory server\<close>

definition server_lru :: "server expirable_LRU" where
  "server_lru = \<lparr>lru_Get = (\<lambda>k s. (map_of (srv_cache s) k, s)),
     lru_Add = (\<lambda>k nss s. s\<lparr>srv_cache := map_put k nss (srv_cache s)\<rparr>)\<rparr>"

lemma server_view_cache [simp]: "server_view (s\<lparr>srv_cache := x\<rparr>) = server_view s"
  by (simp add: server_view_def fun_eq_iff)

interpretation srv_engine: engine_api "NewInMemoryEngineWithNamespaces server_client sch nss" server_view for sch nss
proof -
  have "e_client (NewInMemoryEngineWithNamespaces server_client sch nss) = server_client"
    by (simp add: NewInMemoryEngineWithNamespaces_def)
  then show "engine_api (NewInMemoryEngineWithNamespaces server_client sch nss) server_view"
    using srv.api_client_current_axioms engine_reachable.explicit[of server_client sch nss]
    by (auto simp: engine_api_def engine_api_axioms_def NewInMemoryEngineWithNamespaces_def)
qed

interpretation srv_discovering: engine_api "NewInMemoryEngine server_client sch re server_lru" server_view for sch re
proof -
  have "e_client (NewInMemoryEngine server_client sch re server_lru) = server_client"
    by (simp add: NewInMemoryEngine_def)
  then show "engine_api (NewInMemoryEngine server_client sch re server_lru) server_view"
    using srv.api_client_current_axioms engine_reachable.discovering[of server_client sch re server_lru]
    by (auto simp: engine_api_def engine_api_axioms_def NewInMemoryEngine_def server_lru_def)
qed

text \<open>A condition of the same type is replaced, another one appended.\<close>

definition replace_condition :: set_condition where
  "replace_condition conditions new = filter (\<lambda>x. co_Type x \<noteq> co_Type new) conditions @ [new]"

definition example_orchestrator :: "go_order \<Rightarrow> server StageOrchestrator" where
  "example_orchestrator \<omega> = NewStageOrchestrator (stagingStages \<omega> server_client) server_client
     (Some (\<lambda>res t r msg s. s)) replace_condition (\<lambda>err. ''error'') (\<lambda>s. ''1s'') (\<lambda>d s. s)"

lemma example_pipeline:
  assumes "order_ok \<omega>"
  shows "pipeline (NewInMemoryEngineWithNamespaces server_client sch nss) server_view (example_orchestrator \<omega>) \<omega>"
proof -
  have "e_client (NewInMemoryEngineWithNamespaces server_client sch nss) = server_client"
    by (simp add: NewInMemoryEngineWithNamespaces_def)
  then show ?thesis
    using assms srv_engine.engine_api_axioms srv_status.status_client_axioms
    by (auto simp: pipeline_def pipeline_axioms_def status_client_def example_orchestrator_def
        NewStageOrchestrator_def)
qed

interpretation srv_pipeline: pipeline "NewInMemoryEngineWithNamespaces server_client sch nss" server_view
    "example_orchestrator order_id" order_id for sch nss
  by (rule example_pipeline) simp


section \<open>Examples\<close>

definition deployer_ref :: RoleRef where
  "deployer_ref = \<lparr>rr_APIGroup = ''rbac.authorization.k8s.io'', rr_Kind = ''Role'', rr_Name = ''deployer''\<rparr>"

definition access_wsa :: WorkloadServiceAccount where
  "access_wsa = example_wsa ''team'' ''a'' (scope_of [''p1''] [])
     \<lparr>ClusterRoles = [], Roles = [deployer_ref], Permissions = []\<rparr>"

definition access_server :: server where
  "access_server = server_with [ONamespace (ObjectMeta_zero\<lparr>om_Name := ''team''\<rparr>),
     OServiceAccount \<lparr>sa_Meta = ObjectMeta_zero\<lparr>om_Name := ''default'', om_Namespace := ''team''\<rparr>\<rparr>,
     OWorkloadServiceAccount access_wsa]"

definition access_engine :: "server InMemoryEngine" where
  "access_engine = NewInMemoryEngineWithNamespaces server_client example_scheme [''team'']"

definition access_batch :: Batch where
  "access_batch = NewBatch ''b1'' 0 [NewCreateOrUpdateEventInfo 0 (NewWSAResource access_wsa)]"

definition access_run :: "error option \<times> Batch \<times> server InMemoryEngine \<times> server" where
  "access_run = processBatch (example_orchestrator order_id) access_batch access_engine access_server"

lemma access_ok: "fst access_run = None" by code_simp

lemma access_eq:
  "processBatch (example_orchestrator order_id) access_batch access_engine access_server =
     (None, fst (snd access_run), fst (snd (snd access_run)), snd (snd (snd access_run)))"
  using access_ok unfolding access_run_def by (metis prod.collapse)

lemma access_pipeline: "pipeline access_engine server_view (example_orchestrator order_id) order_id"
  unfolding access_engine_def by (rule example_pipeline) simp

lemma access_list: "listResources access_engine access_server = (Inr [wsaAdapter access_wsa], access_server)"
  by code_simp

lemma access_resources: "cluster_resources (server_view access_server) = {wsaAdapter access_wsa}"
  using api_client_current.listResources_current(1)[OF srv.api_client_current_axioms _ access_list]
  by (simp add: access_engine_def NewInMemoryEngineWithNamespaces_def NewResourceManagementServiceWithScheme_def)

lemmas access_defs = access_wsa_def example_wsa_def scope_of_def ObjectMeta_zero_def deployment_def Scope_zero_def

lemma access_scope: "scopeSlices (wsaAdapter access_wsa) = [[''p1''], [], [], [], [], []]"
  by (simp add: scopeSlices_def access_defs)

lemma access_no_clash: "no_clash (cluster_resources (server_view access_server))"
  unfolding access_resources no_clash_def
  by (simp add: bound_refs_def access_defs)

lemma access_matches: "wsa_matches (wsaAdapter access_wsa) (deployment ''p1'' ''prod'')"
  by (simp add: wsa_matches_def all_dims access_scope scope_dims_def deployment_def Scope_zero_def)

theorem batch_grants_access_witness:
  "\<exists>n plan. engine_GetServiceAccountForScope (fst (snd (snd access_run))) (deployment ''p1'' ''prod'') = (n, None) \<and>
     n \<noteq> [] \<and> ba_Plan (fst (snd access_run)) = Some plan \<and>
     granted (server_view (snd (snd (snd access_run)))) (pl_TargetNamespaces plan) (wsaAdapter access_wsa) n"
proof (rule batch_grants_access[OF access_pipeline access_eq _ access_no_clash _ _ access_matches])
  show "ba_Resources access_batch \<noteq> []" by (simp add: access_batch_def NewBatch_def)
  show "\<forall>r \<in> cluster_resources (server_view access_server). no_wildcard [r]"
    by (simp add: access_resources no_wildcard_def all_dims access_scope WildcardValue_def)
  show "wsaAdapter access_wsa \<in> cluster_resources (server_view access_server)" by (simp add: access_resources)
qed

theorem foreign_objects_untouched_witness:
  "server_view (snd (snd (snd access_run))) (KServiceAccount, key ''team'' ''default'') =
   Some (OServiceAccount \<lparr>sa_Meta = ObjectMeta_zero\<lparr>om_Name := ''default'', om_Namespace := ''team''\<rparr>\<rparr>)"
proof -
  let ?x = "OServiceAccount \<lparr>sa_Meta = ObjectMeta_zero\<lparr>om_Name := ''default'', om_Namespace := ''team''\<rparr>\<rparr>"
  have x: "server_view access_server (KServiceAccount, key ''team'' ''default'') = Some ?x"
    by code_simp
  have "\<not> managed ?x" by (simp add: managed_iff ObjectMeta_zero_def)
  moreover have "obj_kind ?x \<in> {KServiceAccount, KNamespace, KDeployment}" by simp
  ultimately have "server_view (snd (snd (snd access_run))) (KServiceAccount, key ''team'' ''default'') =
      server_view access_server (KServiceAccount, key ''team'' ''default'')"
    by (intro foreign_objects_untouched[OF access_pipeline access_eq, of _ ?x] x)
  with x show ?thesis by (simp only:)
qed

lemma ordered_subset_empty: "ordered_subset xs {} \<longleftrightarrow> xs = []"
  by (auto simp: ordered_subset_def)

lemma ordered_subset_single: "ordered_subset xs {x} \<longleftrightarrow> xs = [] \<or> xs = [x]"
proof
  assume "ordered_subset xs {x}"
  then show "xs = [] \<or> xs = [x]" unfolding ordered_subset_def by (cases xs rule: remdups_adj.cases) auto
qed (auto simp: ordered_subset_def)

lemma access_names: "possible_names (cluster_resources (server_view access_server)) \<subseteq> {''projects:p1'', ''wildcard''}"
proof -
  have v: "values_of {wsaAdapter access_wsa} d = (if d = ProjectIndex then {''p1''} else {})" if "d < MaxDimensionIndex" for d
    using less_Max_cases[OF that] by (auto simp: values_of_def access_scope)
  show ?thesis
    unfolding access_resources possible_names_def
    by (auto simp: v ordered_subset_empty ordered_subset_single scopeString_def groupedParts_def)
qed

definition access_account :: ServiceAccountName where
  "access_account = fst (engine_GetServiceAccountForScope (fst (snd (snd access_run))) (deployment ''p1'' ''prod''))"

definition access_id :: object_id where
  "access_id = (KRoleBinding, bindingKey (wsaAdapter access_wsa) ''deployer'')"

definition access_binding :: RoleBinding where
  "access_binding = the (binding_at (server_view (snd (snd (snd access_run)))) access_id)"

theorem batch_least_privilege_witness:
  "\<exists>res \<in> cluster_resources (server_view access_server).
     wsa_matches res (deployment ''p1'' ''prod'') \<and> rb_RoleRef access_binding \<in> set (bound_refs res)"
proof -
  have inj: "inj_on shortHash (possible_names (cluster_resources (server_view access_server)))"
    by (rule inj_on_subset[OF _ access_names]) (simp add: shortHash_p1 shortHash_wildcard)
  have 1: "engine_GetServiceAccountForScope (fst (snd (snd access_run))) (deployment ''p1'' ''prod'') = (access_account, None)"
    by code_simp
  have 2: "access_account \<noteq> []" by code_simp
  have 3: "server_view (snd (snd (snd access_run))) access_id = Some (ORoleBinding access_binding)" by code_simp
  have 4: "managed (ORoleBinding access_binding)" by code_simp
  have 5: "\<not> terminating (ORoleBinding access_binding)" by code_simp
  have 6: "rb_Subjects access_binding = [\<lparr>su_Kind = ''ServiceAccount'', su_Name = access_account, su_Namespace = ''team''\<rparr>]"
    by code_simp
  have 7: "ba_Resources access_batch \<noteq> []" by (simp add: access_batch_def NewBatch_def)
  have "restricts (wsaAdapter access_wsa) d \<Longrightarrow> d = ProjectIndex" for d
    using less_Max_cases[of d] by (auto simp: restricts_def access_scope)
  then have 8: "\<forall>r \<in> cluster_resources (server_view access_server). slugs [r] \<and> single_dimension r"
    by (auto simp: access_resources slugs_def all_dims access_scope slug_def single_dimension_def)
  show ?thesis
    by (rule batch_least_privilege[OF access_pipeline access_eq 7 access_no_clash 8 inj 1 2 3 4 5,
          of "\<lparr>su_Kind = ''ServiceAccount'', su_Name = access_account, su_Namespace = ''team''\<rparr>"])
      (simp_all add: 6)
qed

end
