(* ===== verification/Watches.thy ===== *)
theory Watches
  imports Guarantees
begin

text \<open>
  \<^verbatim>\<open>internal/controller/predicates.go\<close>, \<^verbatim>\<open>gc_tracker.go\<close>, \<^verbatim>\<open>sa_mapper.go\<close> and the \<^verbatim>\<open>SetupWithManager\<close>
  methods: which events of the cluster wake the reconcilers, and for which resources. The
  controller runtime is a parameter. Shown: which updates pass; that the search for the most recent
  change finds it; which resources are enqueued for a service account; that an account
  deleted by somebody else wakes every live resource.
\<close>

section \<open>Events and predicates\<close>

datatype event = CreateEvent object | UpdateEvent object object | DeleteEvent object | GenericEvent object

text \<open>The object an event is about: the new one of an update.\<close>

fun event_object :: "event \<Rightarrow> object" where
  "event_object (CreateEvent x) = x"
| "event_object (UpdateEvent old new) = new"
| "event_object (DeleteEvent x) = x"
| "event_object (GenericEvent x) = x"

type_synonym predicate = "event \<Rightarrow> bool"

text \<open>A \<^verbatim>\<open>predicate.Funcs\<close> lets every event pass for which it has no function.\<close>

record Funcs =
  CreateFunc :: "(object \<Rightarrow> bool) option"
  UpdateFunc :: "(object \<Rightarrow> object \<Rightarrow> bool) option"
  DeleteFunc :: "(object \<Rightarrow> bool) option"
  GenericFunc :: "(object \<Rightarrow> bool) option"

text \<open>
  The controller runtime: \<^verbatim>\<open>predicate.Funcs\<close> as a predicate, \<^verbatim>\<open>predicate.Or\<close>,
  \<^verbatim>\<open>GenerationChangedPredicate\<close>, and the requests that \<^verbatim>\<open>Owns\<close> makes of an event for a kind of owner.
\<close>

record controller_runtime =
  cr_Funcs :: "Funcs \<Rightarrow> predicate"
  cr_Or :: "predicate list \<Rightarrow> predicate"
  cr_GenerationChanged :: predicate
  cr_Owner :: "kind \<Rightarrow> event \<Rightarrow> NamespacedName list"

definition controllerFieldOwner :: string where
  "controllerFieldOwner = ''octopus-permissions-controller''"

definition isOnlyManagedByController :: "object \<Rightarrow> bool" where
  "isOnlyManagedByController obj =
     (let managedFields = om_ManagedFields (obj_meta obj)
      in if length managedFields = 0 then False
         else list_all (\<lambda>mf. mf_Manager mf = controllerFieldOwner) managedFields)"

text \<open>The loop over the managed fields.\<close>

fun mostRecentEntry :: "ManagedFieldsEntry list \<Rightarrow> ManagedFieldsEntry option \<Rightarrow> ManagedFieldsEntry option" where
  "mostRecentEntry [] mostRecent = mostRecent"
| "mostRecentEntry (mf # managedFields) mostRecent =
     (case mf_Time mf of
        None \<Rightarrow> mostRecentEntry managedFields mostRecent
      | Some t \<Rightarrow>
          (case mostRecent of
             None \<Rightarrow> mostRecentEntry managedFields (Some mf)
           | Some recent \<Rightarrow>
               (case mf_Time recent of
                  None \<Rightarrow> mostRecentEntry managedFields (Some mf)
                | Some t' \<Rightarrow> mostRecentEntry managedFields (if t > t' then Some mf else Some recent))))"

definition wasMostRecentChangeByController :: "object \<Rightarrow> bool" where
  "wasMostRecentChangeByController obj =
     (let managedFields = om_ManagedFields (obj_meta obj)
      in if length managedFields = 0 then False
         else (case mostRecentEntry managedFields None of
                 None \<Rightarrow> False
               | Some mostRecent \<Rightarrow> mf_Manager mostRecent = controllerFieldOwner))"

definition ExternalChangePredicate :: "controller_runtime \<Rightarrow> predicate" where
  "ExternalChangePredicate cr = cr_Funcs cr
     \<lparr>CreateFunc = Some (\<lambda>x. \<not> isOnlyManagedByController x),
      UpdateFunc = Some (\<lambda>old new. \<not> wasMostRecentChangeByController new),
      DeleteFunc = Some (\<lambda>x. True),
      GenericFunc = Some (\<lambda>x. True)\<rparr>"

definition GenerationOrDeletePredicate :: "controller_runtime \<Rightarrow> predicate" where
  "GenerationOrDeletePredicate cr =
     cr_Or cr [cr_Or cr [cr_GenerationChanged cr, ExternalChangePredicate cr],
               cr_Funcs cr \<lparr>CreateFunc = Some (\<lambda>x. False), UpdateFunc = Some (\<lambda>old new. False),
                            DeleteFunc = Some (\<lambda>x. True), GenericFunc = Some (\<lambda>x. False)\<rparr>]"

fun IsManagedServiceAccount :: "object \<Rightarrow> bool" where
  "IsManagedServiceAccount (OServiceAccount sa) \<longleftrightarrow>
     (case map_of (om_Labels (sa_Meta sa)) ManagedByLabel of Some v \<Rightarrow> v | None \<Rightarrow> []) = ManagedByValue"
| "IsManagedServiceAccount _ \<longleftrightarrow> False"

definition ManagedServiceAccountPredicate :: "controller_runtime \<Rightarrow> predicate" where
  "ManagedServiceAccountPredicate cr = cr_Funcs cr
     \<lparr>CreateFunc = Some IsManagedServiceAccount, UpdateFunc = Some (\<lambda>old new. IsManagedServiceAccount new),
      DeleteFunc = Some IsManagedServiceAccount, GenericFunc = None\<rparr>"

section \<open>The tracker of deletions\<close>

text \<open>
  The cache of \<^verbatim>\<open>expirable\<close> is a parameter. It has no size limit, so what a lookup does to the order of
  its entries is not observable.
\<close>

record 't uid_cache =
  uc_Add :: "string \<Rightarrow> 't \<Rightarrow> 't"
  uc_Get :: "string \<Rightarrow> 't \<Rightarrow> unit option"

definition MarkForDeletion :: "'t uid_cache \<Rightarrow> string \<Rightarrow> 't \<Rightarrow> 't" where
  "MarkForDeletion cache uid t = uc_Add cache uid t"

definition IsBeingDeleted :: "'t uid_cache \<Rightarrow> string \<Rightarrow> 't \<Rightarrow> bool" where
  "IsBeingDeleted cache uid t \<longleftrightarrow> uc_Get cache uid t \<noteq> None"

text \<open>A tracker as the predicate sees it: the lookup of the interface, or nil.\<close>

definition ExternalDeletePredicate :: "controller_runtime \<Rightarrow> (string \<Rightarrow> bool) option \<Rightarrow> predicate" where
  "ExternalDeletePredicate cr tracker = cr_Funcs cr
     \<lparr>CreateFunc = Some (\<lambda>x. True), UpdateFunc = Some (\<lambda>old new. True),
      DeleteFunc = Some (\<lambda>x. case tracker of None \<Rightarrow> True | Some isBeingDeleted \<Rightarrow> \<not> isBeingDeleted (om_UID (obj_meta x))),
      GenericFunc = Some (\<lambda>x. True)\<rparr>"

section \<open>Requests\<close>

definition MapServiceAccountToResources :: "object \<Rightarrow> 'c client \<Rightarrow> kind \<Rightarrow> 'c \<Rightarrow> NamespacedName list \<times> 'c" where
  "MapServiceAccountToResources obj cl k c =
     (if \<not> IsManagedServiceAccount obj then ([], c)
      else
        (case client_List cl k [] c of
           (Inl err, c') \<Rightarrow> ([], c')
         | (Inr items, c') \<Rightarrow>
             (map (\<lambda>item. let m = obj_meta item; namespacedName = \<lparr>nn_Namespace = [], nn_Name = om_Name m\<rparr>
                          in if om_Namespace m \<noteq> [] then namespacedName\<lparr>nn_Namespace := om_Namespace m\<rparr> else namespacedName)
                (filter (\<lambda>item. om_DeletionTimestamp (obj_meta item) = None) items), c')))"

definition mapServiceAccountToWSAs :: "'c client \<Rightarrow> object \<Rightarrow> 'c \<Rightarrow> NamespacedName list \<times> 'c" where
  "mapServiceAccountToWSAs cl obj = MapServiceAccountToResources obj cl KWorkloadServiceAccount"

definition mapServiceAccountToCWSAs :: "'c client \<Rightarrow> object \<Rightarrow> 'c \<Rightarrow> NamespacedName list \<times> 'c" where
  "mapServiceAccountToCWSAs cl obj = MapServiceAccountToResources obj cl KClusterWorkloadServiceAccount"

definition enqueueSelf :: "object \<Rightarrow> NamespacedName list" where
  "enqueueSelf obj = [\<lparr>nn_Namespace = om_Namespace (obj_meta obj), nn_Name = om_Name (obj_meta obj)\<rparr>]"

section \<open>Which events wake which reconciler\<close>

text \<open>
  What a builder is told: a kind, what is enqueued (the object itself for \<^verbatim>\<open>For\<close>, its owner for
  \<^verbatim>\<open>Owns\<close>, the result of a function for \<^verbatim>\<open>Watches\<close>), and predicates that must all let the event pass.
\<close>

datatype 'c handler = Self | Owner kind | MapFunc "object \<Rightarrow> 'c \<Rightarrow> NamespacedName list \<times> 'c"

record 'c watch =
  watch_Kind :: kind
  watch_Handler :: "'c handler"
  watch_Predicates :: "predicate list"

definition WSA_SetupWithManager :: "controller_runtime \<Rightarrow> 'c client \<Rightarrow> (string \<Rightarrow> bool) option \<Rightarrow> 'c watch list" where
  "WSA_SetupWithManager cr cl gcTracker =
     [\<lparr>watch_Kind = KWorkloadServiceAccount, watch_Handler = Self, watch_Predicates = [GenerationOrDeletePredicate cr]\<rparr>,
      \<lparr>watch_Kind = KRole, watch_Handler = Owner KWorkloadServiceAccount,
       watch_Predicates = [ExternalChangePredicate cr, ExternalDeletePredicate cr gcTracker]\<rparr>,
      \<lparr>watch_Kind = KRoleBinding, watch_Handler = Owner KWorkloadServiceAccount,
       watch_Predicates = [ExternalChangePredicate cr, ExternalDeletePredicate cr gcTracker]\<rparr>,
      \<lparr>watch_Kind = KServiceAccount, watch_Handler = MapFunc (mapServiceAccountToWSAs cl),
       watch_Predicates = [ManagedServiceAccountPredicate cr, ExternalChangePredicate cr, ExternalDeletePredicate cr gcTracker]\<rparr>]"

definition CWSA_SetupWithManager :: "controller_runtime \<Rightarrow> 'c client \<Rightarrow> (string \<Rightarrow> bool) option \<Rightarrow> 'c watch list" where
  "CWSA_SetupWithManager cr cl gcTracker =
     [\<lparr>watch_Kind = KClusterWorkloadServiceAccount, watch_Handler = Self, watch_Predicates = [GenerationOrDeletePredicate cr]\<rparr>,
      \<lparr>watch_Kind = KClusterRole, watch_Handler = Owner KClusterWorkloadServiceAccount,
       watch_Predicates = [ExternalChangePredicate cr, ExternalDeletePredicate cr gcTracker]\<rparr>,
      \<lparr>watch_Kind = KClusterRoleBinding, watch_Handler = Owner KClusterWorkloadServiceAccount,
       watch_Predicates = [ExternalChangePredicate cr, ExternalDeletePredicate cr gcTracker]\<rparr>,
      \<lparr>watch_Kind = KServiceAccount, watch_Handler = MapFunc (mapServiceAccountToCWSAs cl),
       watch_Predicates = [ManagedServiceAccountPredicate cr, ExternalChangePredicate cr, ExternalDeletePredicate cr gcTracker]\<rparr>]"

definition StateSync_SetupWithManager :: "controller_runtime \<Rightarrow> 'c watch list" where
  "StateSync_SetupWithManager cr =
     [\<lparr>watch_Kind = KWorkloadServiceAccount, watch_Handler = Self, watch_Predicates = [cr_GenerationChanged cr]\<rparr>,
      \<lparr>watch_Kind = KClusterWorkloadServiceAccount, watch_Handler = MapFunc (\<lambda>obj c. (enqueueSelf obj, c)),
       watch_Predicates = [cr_GenerationChanged cr]\<rparr>]"

text \<open>What the runtime does with an event, for the watches of one controller.\<close>

fun handle_event :: "controller_runtime \<Rightarrow> 'c handler \<Rightarrow> event \<Rightarrow> 'c \<Rightarrow> NamespacedName list \<times> 'c" where
  "handle_event cr Self ev c = ([om_key (obj_meta (event_object ev))], c)"
| "handle_event cr (Owner k) ev c = (cr_Owner cr k ev, c)"
| "handle_event cr (MapFunc f) ev c = f (event_object ev) c"

fun watch_requests :: "controller_runtime \<Rightarrow> 'c watch list \<Rightarrow> event \<Rightarrow> 'c \<Rightarrow> NamespacedName list \<times> 'c" where
  "watch_requests cr [] ev c = ([], c)"
| "watch_requests cr (w # ws) ev c =
     (if obj_kind (event_object ev) = watch_Kind w \<and> list_all (\<lambda>p. p ev) (watch_Predicates w)
      then (case handle_event cr (watch_Handler w) ev c of (reqs, c') \<Rightarrow>
              (case watch_requests cr ws ev c' of (reqs', c'') \<Rightarrow> (reqs @ reqs', c'')))
      else watch_requests cr ws ev c)"

section \<open>The contract of the controller runtime\<close>

fun funcs_pass :: "Funcs \<Rightarrow> predicate" where
  "funcs_pass f (CreateEvent x) \<longleftrightarrow> (case CreateFunc f of None \<Rightarrow> True | Some g \<Rightarrow> g x)"
| "funcs_pass f (UpdateEvent old new) \<longleftrightarrow> (case UpdateFunc f of None \<Rightarrow> True | Some g \<Rightarrow> g old new)"
| "funcs_pass f (DeleteEvent x) \<longleftrightarrow> (case DeleteFunc f of None \<Rightarrow> True | Some g \<Rightarrow> g x)"
| "funcs_pass f (GenericEvent x) \<longleftrightarrow> (case GenericFunc f of None \<Rightarrow> True | Some g \<Rightarrow> g x)"

fun generation_changed :: predicate where
  "generation_changed (UpdateEvent old new) \<longleftrightarrow> om_Generation (obj_meta new) \<noteq> om_Generation (obj_meta old)"
| "generation_changed _ \<longleftrightarrow> True"

locale runtime =
  fixes cr :: controller_runtime
  assumes Funcs: "cr_Funcs cr f ev \<longleftrightarrow> funcs_pass f ev"
    and Or: "cr_Or cr ps ev \<longleftrightarrow> (\<exists>p \<in> set ps. p ev)"
    and GenerationChanged: "cr_GenerationChanged cr ev \<longleftrightarrow> generation_changed ev"
begin

lemma external_change [simp]:
  "ExternalChangePredicate cr (CreateEvent x) \<longleftrightarrow> \<not> isOnlyManagedByController x"
  "ExternalChangePredicate cr (UpdateEvent x y) \<longleftrightarrow> \<not> wasMostRecentChangeByController y"
  "ExternalChangePredicate cr (DeleteEvent x)" "ExternalChangePredicate cr (GenericEvent x)"
  by (simp_all add: ExternalChangePredicate_def Funcs)

lemma external_delete [simp]:
  "ExternalDeletePredicate cr tracker (DeleteEvent x) \<longleftrightarrow> (\<forall>marked. tracker = Some marked \<longrightarrow> \<not> marked (om_UID (obj_meta x)))"
  by (auto simp: ExternalDeletePredicate_def Funcs split: option.splits)

lemma generation_or_delete:
  "GenerationOrDeletePredicate cr ev \<longleftrightarrow> (\<forall>old new. ev = UpdateEvent old new \<longrightarrow>
     om_Generation (obj_meta new) \<noteq> om_Generation (obj_meta old) \<or> \<not> wasMostRecentChangeByController new)"
  by (cases ev) (auto simp: GenerationOrDeletePredicate_def Or GenerationChanged Funcs)

end

section \<open>The most recent change\<close>

text \<open>The first of the entries with the latest time is the controller's.\<close>

definition last_change_by :: "string \<Rightarrow> ManagedFieldsEntry list \<Rightarrow> bool" where
  "last_change_by manager mfs \<longleftrightarrow>
     (\<exists>i < length mfs. \<exists>t. mf_Time (mfs ! i) = Some t \<and> mf_Manager (mfs ! i) = manager \<and>
        (\<forall>j < length mfs. \<forall>t'. mf_Time (mfs ! j) = Some t' \<longrightarrow> t' \<le> t \<and> (j < i \<longrightarrow> t' < t)))"

text \<open>\<open>x\<close> is the first of the entries \<open>xs\<close> with the latest time.\<close>

definition first_latest :: "ManagedFieldsEntry list \<Rightarrow> ManagedFieldsEntry \<Rightarrow> bool" where
  "first_latest xs x \<longleftrightarrow>
     (\<exists>ys zs t. xs = ys @ x # zs \<and> mf_Time x = Some t \<and> (\<forall>y \<in> set ys. \<forall>t'. mf_Time y = Some t' \<longrightarrow> t' < t) \<and>
        (\<forall>z \<in> set zs. \<forall>t'. mf_Time z = Some t' \<longrightarrow> t' \<le> t))"

definition latest_so_far :: "ManagedFieldsEntry list \<Rightarrow> ManagedFieldsEntry option \<Rightarrow> bool" where
  "latest_so_far ys m \<longleftrightarrow> (case m of None \<Rightarrow> (\<forall>y \<in> set ys. mf_Time y = None) | Some x \<Rightarrow> first_latest ys x)"

lemma first_latest_snoc:
  assumes "first_latest ys x"
  shows "mf_Time y = None \<or> (\<exists>t t'. mf_Time y = Some t \<and> mf_Time x = Some t' \<and> t \<le> t') \<Longrightarrow> first_latest (ys @ [y]) x"
    and "mf_Time y = Some t \<Longrightarrow> mf_Time x = Some t' \<Longrightarrow> t' < t \<Longrightarrow> first_latest (ys @ [y]) y"
proof -
  obtain as bs tx where x: "ys = as @ x # bs" "mf_Time x = Some tx" "\<forall>y \<in> set as. \<forall>t'. mf_Time y = Some t' \<longrightarrow> t' < tx"
    "\<forall>z \<in> set bs. \<forall>t'. mf_Time z = Some t' \<longrightarrow> t' \<le> tx" using assms by (auto simp: first_latest_def)
  show "first_latest (ys @ [y]) x" if "mf_Time y = None \<or> (\<exists>t t'. mf_Time y = Some t \<and> mf_Time x = Some t' \<and> t \<le> t')"
    unfolding first_latest_def using x that by (intro exI[of _ as] exI[of _ "bs @ [y]"] exI[of _ tx]) auto
  show "first_latest (ys @ [y]) y" if "mf_Time y = Some t" "mf_Time x = Some t'" "t' < t"
  proof -
    have "u < t" if "z \<in> set ys" "mf_Time z = Some u" for z u
    proof -
      have "u \<le> tx" using that x by (auto simp: less_imp_le)
      then show ?thesis using x(2) \<open>mf_Time x = Some t'\<close> \<open>t' < t\<close> by simp
    qed
    then show ?thesis unfolding first_latest_def using that by (intro exI[of _ ys] exI[of _ "[]"] exI[of _ t]) auto
  qed
qed

lemma mostRecentEntry_latest: "latest_so_far ys m \<Longrightarrow> latest_so_far (ys @ xs) (mostRecentEntry xs m)"
proof (induction xs arbitrary: ys m)
  case (Cons mf xs)
  have step: "latest_so_far (ys @ mf # xs) (mostRecentEntry xs m')" if "latest_so_far (ys @ [mf]) m'" for m'
    using Cons.IH[OF that] by simp
  have time: "\<exists>t. mf_Time x = Some t" if "first_latest ys x" for x using that by (auto simp: first_latest_def)
  show ?case
  proof (cases m)
    case None
    with Cons.prems have n: "\<forall>y \<in> set ys. mf_Time y = None" by (simp add: latest_so_far_def)
    have "first_latest (ys @ [mf]) mf" if "mf_Time mf = Some t" for t
      unfolding first_latest_def using n that by (intro exI[of _ ys] exI[of _ "[]"] exI[of _ t]) auto
    with n have "latest_so_far (ys @ [mf]) (if mf_Time mf = None then None else Some mf)"
      by (auto simp: latest_so_far_def)
    from step[OF this] show ?thesis using None by (auto split: option.splits)
  next
    case (Some x)
    with Cons.prems have f: "first_latest ys x" by (simp add: latest_so_far_def)
    then obtain tx where tx: "mf_Time x = Some tx" using time by blast
    show ?thesis
    proof (cases "mf_Time mf")
      case None
      have "latest_so_far (ys @ [mf]) (Some x)" using first_latest_snoc(1)[OF f] None by (simp add: latest_so_far_def)
      from step[OF this] show ?thesis using None Some by simp
    next
      case t: (Some t)
      have "latest_so_far (ys @ [mf]) (if t > tx then Some mf else Some x)"
        using first_latest_snoc[OF f] t tx by (auto simp: latest_so_far_def)
      from step[OF this] show ?thesis using Some t tx by simp
    qed
  qed
qed simp

lemma first_latest_unique:
  assumes "first_latest xs x" "first_latest xs y"
  shows "x = y"
proof -
  from assms(1) obtain as bs t where x: "xs = as @ x # bs" "mf_Time x = Some t"
      "\<forall>a \<in> set as. \<forall>t'. mf_Time a = Some t' \<longrightarrow> t' < t" "\<forall>a \<in> set bs. \<forall>t'. mf_Time a = Some t' \<longrightarrow> t' \<le> t"
    by (auto simp: first_latest_def)
  from assms(2) obtain cs ds u where y: "xs = cs @ y # ds" "mf_Time y = Some u"
      "\<forall>a \<in> set cs. \<forall>t'. mf_Time a = Some t' \<longrightarrow> t' < u" "\<forall>a \<in> set ds. \<forall>t'. mf_Time a = Some t' \<longrightarrow> t' \<le> u"
    by (auto simp: first_latest_def)
  from x(1) y(1) have "as @ x # bs = cs @ y # ds" by simp
  then consider "x = y" | "x \<in> set cs" "y \<in> set bs" | "y \<in> set as" "x \<in> set ds"
    by (auto simp: append_eq_append_conv2 append_eq_Cons_conv Cons_eq_append_conv)
  then show "x = y"
  proof cases
    case 2
    then have "t < u" "u \<le> t" using x y by auto
    then show ?thesis by simp
  next
    case 3
    then have "u < t" "t \<le> u" using x y by auto
    then show ?thesis by simp
  qed
qed

lemma last_change_by_iff: "last_change_by manager mfs \<longleftrightarrow> (\<exists>x. first_latest mfs x \<and> mf_Manager x = manager)"
proof
  assume "last_change_by manager mfs"
  then obtain i t where i: "i < length mfs" "mf_Time (mfs ! i) = Some t" "mf_Manager (mfs ! i) = manager"
    and le: "\<And>j t'. j < length mfs \<Longrightarrow> mf_Time (mfs ! j) = Some t' \<Longrightarrow> t' \<le> t \<and> (j < i \<longrightarrow> t' < t)"
    by (auto simp: last_change_by_def)
  have "first_latest mfs (mfs ! i)"
    unfolding first_latest_def
  proof (intro exI conjI ballI allI impI)
    show "mfs = take i mfs @ mfs ! i # drop (Suc i) mfs" using i(1) by (rule id_take_nth_drop)
    show "mf_Time (mfs ! i) = Some t" by (rule i(2))
    show "t' < t" if "y \<in> set (take i mfs)" "mf_Time y = Some t'" for y t'
    proof -
      from that(1) i(1) obtain j where j: "j < i" "y = mfs ! j" by (auto simp: in_set_conv_nth)
      with le[of j t'] that(2) i(1) show ?thesis by simp
    qed
    show "t' \<le> t" if "y \<in> set (drop (Suc i) mfs)" "mf_Time y = Some t'" for y t'
      using that le in_set_dropD in_set_conv_nth by metis
  qed
  with i(3) show "\<exists>x. first_latest mfs x \<and> mf_Manager x = manager" by blast
next
  assume "\<exists>x. first_latest mfs x \<and> mf_Manager x = manager"
  then obtain ys x zs t where x: "mfs = ys @ x # zs" "mf_Time x = Some t" "mf_Manager x = manager"
    "\<And>y t'. y \<in> set ys \<Longrightarrow> mf_Time y = Some t' \<Longrightarrow> t' < t" "\<And>z t'. z \<in> set zs \<Longrightarrow> mf_Time z = Some t' \<Longrightarrow> t' \<le> t"
    by (auto simp: first_latest_def)
  have "t' \<le> t \<and> (j < length ys \<longrightarrow> t' < t)" if "j < length mfs" "mf_Time (mfs ! j) = Some t'" for j t'
  proof -
    consider "j < length ys" | "j = length ys" | "length ys < j" by linarith
    then show ?thesis
    proof cases
      case 1
      then have "t' < t" using that(2) x(1) x(4)[of "ys ! j" t'] by (simp add: nth_append)
      then show ?thesis by simp
    next
      case 2
      with that(2) x show ?thesis by simp
    next
      case 3
      then obtain n where "j = Suc (length ys + n)" using less_imp_Suc_add by blast
      with that x(1) have "n < length zs" "mfs ! j = zs ! n" by (auto simp: nth_append)
      with that(2) x(5)[of "zs ! n" t'] \<open>length ys < j\<close> show ?thesis by simp
    qed
  qed
  with x show "last_change_by manager mfs"
    unfolding last_change_by_def by (intro exI[of _ "length ys"]) auto
qed

lemma mostRecentEntry_iff: "mostRecentEntry mfs None = Some x \<longleftrightarrow> first_latest mfs x"
proof -
  have *: "latest_so_far mfs (mostRecentEntry mfs None)"
    using mostRecentEntry_latest[of "[]" None mfs] by (simp add: latest_so_far_def)
  show ?thesis
  proof
    assume f: "first_latest mfs x"
    then have "\<exists>y \<in> set mfs. mf_Time y \<noteq> None" by (auto simp: first_latest_def)
    with * obtain y where "mostRecentEntry mfs None = Some y" "first_latest mfs y" by (auto simp: latest_so_far_def split: option.splits)
    with first_latest_unique[OF f] show "mostRecentEntry mfs None = Some x" by simp
  qed (use * in \<open>simp add: latest_so_far_def\<close>)
qed

lemma wasMostRecent_iff: "wasMostRecentChangeByController obj \<longleftrightarrow> last_change_by controllerFieldOwner (om_ManagedFields (obj_meta obj))"
proof (cases "om_ManagedFields (obj_meta obj) = []")
  case True
  then show ?thesis by (simp add: wasMostRecentChangeByController_def last_change_by_def)
next
  case False
  then show ?thesis
    by (simp add: wasMostRecentChangeByController_def last_change_by_iff mostRecentEntry_iff[symmetric] split: option.splits)
qed


section \<open>Guarantees of the watches\<close>

text \<open>
  C30. Of the updates of a resource exactly those wake its reconciler that change its generation or
  whose most recent change, the first of the latest, was not made by the controller; so the
  controller does not answer its own status writes. Every other event of a resource wakes it.
\<close>

theorem update_wakes_iff:
  assumes "runtime cr"
  shows "GenerationOrDeletePredicate cr ev \<longleftrightarrow>
    (case ev of UpdateEvent old new \<Rightarrow>
       om_Generation (obj_meta new) \<noteq> om_Generation (obj_meta old) \<or>
       \<not> last_change_by controllerFieldOwner (om_ManagedFields (obj_meta new))
     | _ \<Rightarrow> True)"
  by (cases ev) (simp_all add: runtime.generation_or_delete[OF assms] wasMostRecent_iff)

lemma IsManagedServiceAccount_iff: "IsManagedServiceAccount (OServiceAccount sa) \<longleftrightarrow> managed (OServiceAccount sa)"
  by (auto simp: managed_iff ManagedByValue_def split: option.splits)

definition live_keys :: "cluster \<Rightarrow> kind \<Rightarrow> NamespacedName set" where
  "live_keys m k = {n. \<exists>x. m (k, n) = Some x \<and> \<not> terminating x}"

context api_client_current
begin

lemma mapped:
  assumes "client_List cl k [] c = (Inr items, c1)" "IsManagedServiceAccount obj"
  shows "\<exists>reqs. MapServiceAccountToResources obj cl k c = (reqs, c1) \<and> set reqs = live_keys (view c) k \<and> distinct reqs"
proof -
  let ?live = "filter (\<lambda>item. om_DeletionTimestamp (obj_meta item) = None) items"
  let ?reqs = "map (\<lambda>x. om_key (obj_meta x)) ?live"
  have "(let m = obj_meta item; namespacedName = \<lparr>nn_Namespace = [], nn_Name = om_Name m\<rparr>
      in if om_Namespace m \<noteq> [] then namespacedName\<lparr>nn_Namespace := om_Namespace m\<rparr> else namespacedName) =
      om_key (obj_meta item)" for item by (simp add: Let_def om_key_def)
  then have "MapServiceAccountToResources obj cl k c = (?reqs, c1)"
    using assms by (simp add: MapServiceAccountToResources_def Let_def)
  moreover have "set ?reqs = live_keys (view c) k"
  proof -
    have items: "x \<in> set items \<longleftrightarrow> (\<exists>n. view c (k, n) = Some x)" for x
      using List_items[OF assms(1)] by (auto simp: matches_def)
    have key: "view c (k, n) = Some x \<Longrightarrow> om_key (obj_meta x) = n" for n x using view_id by fastforce
    have "n \<in> set ?reqs \<longleftrightarrow> (\<exists>x \<in> set items. \<not> terminating x \<and> om_key (obj_meta x) = n)" for n
      by (auto simp: terminating_def)
    also have "(\<exists>x \<in> set items. \<not> terminating x \<and> om_key (obj_meta x) = n) \<longleftrightarrow> (\<exists>x. view c (k, n) = Some x \<and> \<not> terminating x)" for n
      using items key[of n] by (metis key)
    finally show ?thesis by (auto simp: live_keys_def)
  qed
  moreover have "distinct ?reqs"
  proof -
    have "distinct (map obj_id items)" using List_items[OF assms(1)] by blast
    moreover have "\<forall>x \<in> set items. obj_kind x = k" using List_kind[OF assms(1)] by blast
    ultimately have "distinct (map (\<lambda>x. om_key (obj_meta x)) items)"
      by (auto simp: distinct_map inj_on_def)
    then show ?thesis by (simp add: distinct_map inj_on_def)
  qed
  ultimately show ?thesis by blast
qed

lemma live_resources_keys:
  "live_keys (view c) KWorkloadServiceAccount \<union> live_keys (view c) KClusterWorkloadServiceAccount = GetNamespacedName ` cluster_resources (view c)"
proof -
  have 1: "view c (KWorkloadServiceAccount, n) = Some x \<Longrightarrow> \<exists>w. x = OWorkloadServiceAccount w \<and> n = om_key (wsaMeta w)" for n x
    using view_id[of c "(KWorkloadServiceAccount, n)" x] by (cases x) auto
  have 2: "view c (KClusterWorkloadServiceAccount, n) = Some x \<Longrightarrow>
      \<exists>w. x = OClusterWorkloadServiceAccount w \<and> n = om_key (cwsaMeta w) \<and> om_Namespace (cwsaMeta w) = []" for n x
    using view_id[of c "(KClusterWorkloadServiceAccount, n)" x] view_valid[of c "(KClusterWorkloadServiceAccount, n)" x]
    by (cases x) (auto simp: valid_id_def om_key_def)
  show ?thesis
  proof (intro set_eqI iffI)
    fix n assume "n \<in> live_keys (view c) KWorkloadServiceAccount \<union> live_keys (view c) KClusterWorkloadServiceAccount"
    then show "n \<in> GetNamespacedName ` cluster_resources (view c)"
    proof
      assume "n \<in> live_keys (view c) KWorkloadServiceAccount"
      then obtain w where "view c (KWorkloadServiceAccount, n) = Some (OWorkloadServiceAccount w)" "n = om_key (wsaMeta w)"
        "om_DeletionTimestamp (wsaMeta w) = None" using 1 by (fastforce simp: live_keys_def terminating_def)
      then have "wsaAdapter w \<in> cluster_resources (view c)" "GetNamespacedName (wsaAdapter w) = n"
        by (auto simp: cluster_resources_def om_key_def)
      then show ?thesis by blast
    next
      assume "n \<in> live_keys (view c) KClusterWorkloadServiceAccount"
      then obtain w where "view c (KClusterWorkloadServiceAccount, n) = Some (OClusterWorkloadServiceAccount w)"
        "n = om_key (cwsaMeta w)" "om_Namespace (cwsaMeta w) = []" "om_DeletionTimestamp (cwsaMeta w) = None"
        using 2 by (fastforce simp: live_keys_def terminating_def)
      then have "clusterWSAAdapter w \<in> cluster_resources (view c)" "GetNamespacedName (clusterWSAAdapter w) = n"
        by (auto simp: cluster_resources_def om_key_def)
      then show ?thesis by blast
    qed
  next
    fix n assume "n \<in> GetNamespacedName ` cluster_resources (view c)"
    then obtain res where res: "res \<in> cluster_resources (view c)" "n = GetNamespacedName res" by blast
    then have v: "view c (obj_id (res_object res)) = Some (res_object res)" "\<not> terminating (res_object res)"
      by (simp_all add: cluster_resources_iff[OF view_id])
    then have "snd (obj_id (res_object res)) = n"
      using view_valid[OF v(1)] res(2) by (cases res) (auto simp: valid_id_def om_key_def)
    with v show "n \<in> live_keys (view c) KWorkloadServiceAccount \<union> live_keys (view c) KClusterWorkloadServiceAccount"
      by (cases res) (auto simp: live_keys_def)
  qed
qed

end

text \<open>
  C31. Drift is repaired: when a managed service account is deleted by somebody else, that is, was not
  marked by the tracker, the watches of the two reconcilers together enqueue exactly the live
  resources of the cluster, provided that they can be listed.
\<close>

theorem deleted_account_wakes_all:
  assumes "runtime cr" and "api_client_current cl view" and "managed (OServiceAccount sa)"
    and "\<forall>marked. tracker = Some marked \<longrightarrow> \<not> marked (om_UID (sa_Meta sa))"
    and "client_List cl KWorkloadServiceAccount [] c = (Inr wsas, c1)"
    and "client_List cl KClusterWorkloadServiceAccount [] c1 = (Inr cwsas, c2)"
  shows "\<exists>reqs1 reqs2.
    watch_requests cr (WSA_SetupWithManager cr cl tracker) (DeleteEvent (OServiceAccount sa)) c = (reqs1, c1) \<and>
    watch_requests cr (CWSA_SetupWithManager cr cl tracker) (DeleteEvent (OServiceAccount sa)) c1 = (reqs2, c2) \<and>
    set reqs1 \<union> set reqs2 = GetNamespacedName ` cluster_resources (view c) \<and> distinct reqs1 \<and> distinct reqs2"
proof -
  have m: "IsManagedServiceAccount (OServiceAccount sa)" using assms(3) by (simp only: IsManagedServiceAccount_iff)
  have pass: "ManagedServiceAccountPredicate cr (DeleteEvent (OServiceAccount sa))"
    unfolding ManagedServiceAccountPredicate_def runtime.Funcs[OF assms(1)] by (simp only: funcs_pass.simps Funcs.select_convs option.case m)
  have view: "view c1 = view c" using api_client.List_frame[OF api_client_current.axioms(1)[OF assms(2)] assms(5)] .
  from api_client_current.mapped[OF assms(2,5) m] api_client_current.mapped[OF assms(2,6) m] obtain r1 r2 where
    r1: "MapServiceAccountToResources (OServiceAccount sa) cl KWorkloadServiceAccount c = (r1, c1)"
      "set r1 = live_keys (view c) KWorkloadServiceAccount" "distinct r1"
    and r2: "MapServiceAccountToResources (OServiceAccount sa) cl KClusterWorkloadServiceAccount c1 = (r2, c2)"
      "set r2 = live_keys (view c1) KClusterWorkloadServiceAccount" "distinct r2" by blast
  have "set r2 = live_keys (view c) KClusterWorkloadServiceAccount" using r2(2) by (simp add: view)
  then have "set r1 \<union> set r2 = GetNamespacedName ` cluster_resources (view c)"
    using api_client_current.live_resources_keys[OF assms(2)] r1(2) by simp
  moreover have "watch_requests cr (WSA_SetupWithManager cr cl tracker) (DeleteEvent (OServiceAccount sa)) c = (r1, c1)"
    using pass assms(4) r1(1)
    by (auto simp: WSA_SetupWithManager_def mapServiceAccountToWSAs_def runtime.external_change[OF assms(1)]
        runtime.external_delete[OF assms(1)])
  moreover have "watch_requests cr (CWSA_SetupWithManager cr cl tracker) (DeleteEvent (OServiceAccount sa)) c1 = (r2, c2)"
    using pass assms(4) r2(1)
    by (auto simp: CWSA_SetupWithManager_def mapServiceAccountToCWSAs_def runtime.external_change[OF assms(1)]
        runtime.external_delete[OF assms(1)])
  ultimately show ?thesis using r1(3) r2(3) by blast
qed

section \<open>Examples\<close>

definition go_runtime :: controller_runtime where
  "go_runtime = \<lparr>cr_Funcs = funcs_pass, cr_Or = (\<lambda>ps ev. list_ex (\<lambda>p. p ev) ps),
     cr_GenerationChanged = generation_changed, cr_Owner = (\<lambda>k ev. [])\<rparr>"

interpretation go: runtime go_runtime
  by unfold_locales (simp_all add: go_runtime_def list_ex_iff)

definition written_by :: "(string \<times> nat) list \<Rightarrow> object" where
  "written_by ws = OWorkloadServiceAccount (access_wsa\<lparr>wsaMeta := (wsaMeta access_wsa)
     \<lparr>om_ManagedFields := map (\<lambda>(m, t). \<lparr>mf_Manager = m, mf_Time = Some t\<rparr>) ws\<rparr>\<rparr>)"

theorem update_wakes_iff_witness:
  "\<not> GenerationOrDeletePredicate go_runtime
       (UpdateEvent (written_by [(''kubectl'', 1)]) (written_by [(''kubectl'', 1), (controllerFieldOwner, 2)])) \<and>
   last_change_by controllerFieldOwner (om_ManagedFields (obj_meta (written_by [(''kubectl'', 1), (controllerFieldOwner, 2)])))"
proof -
  have "\<not> GenerationOrDeletePredicate go_runtime
       (UpdateEvent (written_by [(''kubectl'', 1)]) (written_by [(''kubectl'', 1), (controllerFieldOwner, 2)]))"
    by code_simp
  then show ?thesis using update_wakes_iff[OF go.runtime_axioms] by simp
qed

definition lost_account :: ServiceAccount where
  "lost_account = \<lparr>sa_Meta = ObjectMeta_zero\<lparr>om_Name := ''octopus-sa-1'', om_Namespace := ''team'',
     om_Labels := [(ManagedByLabel, ManagedByValue)]\<rparr>\<rparr>"

theorem deleted_account_wakes_all_witness:
  "\<exists>reqs1 reqs2 s1 s2.
    watch_requests go_runtime (WSA_SetupWithManager go_runtime server_client None) (DeleteEvent (OServiceAccount lost_account))
      access_server = (reqs1, s1) \<and>
    watch_requests go_runtime (CWSA_SetupWithManager go_runtime server_client None) (DeleteEvent (OServiceAccount lost_account))
      s1 = (reqs2, s2) \<and> set reqs1 \<union> set reqs2 = {key ''team'' ''a''}"
proof -
  have m: "managed (OServiceAccount lost_account)" by code_simp
  have l1: "client_List server_client KWorkloadServiceAccount [] access_server = (Inr [OWorkloadServiceAccount access_wsa], access_server)"
    by code_simp
  have l2: "client_List server_client KClusterWorkloadServiceAccount [] access_server = (Inr [], access_server)" by code_simp
  have "GetNamespacedName (wsaAdapter access_wsa) = key ''team'' ''a''" by code_simp
  with deleted_account_wakes_all[OF go.runtime_axioms srv.api_client_current_axioms m _ l1 l2, of None] access_resources
  show ?thesis by auto
qed

end
