(* ===== verification/Webhooks.thy ===== *)
theory Webhooks
  imports Guarantees
begin

text \<open>
  \<^verbatim>\<open>internal/webhook/v1/pod_webhook.go\<close>, which gives a pod its service account and its version
  variable, and \<^verbatim>\<open>internal/webhook/v1beta1/workloadserviceaccount_webhook.go\<close>, which validates new
  resources. Shown: a pod of a deployment gets an account that carries what the matching resources
  ask for; the scope of a pod is read back from its annotations; what the webhook changes in a
  pod and what it leaves; running it again changes nothing; what validation guarantees of a
  resource.
\<close>

section \<open>Pods\<close>

text \<open>The parts of a pod that the webhook reads or writes; \<open>ValueFrom\<close> is a reference it never looks into.\<close>

record EnvVar =
  EnvVar_Name :: string
  EnvVar_Value :: string
  EnvVar_ValueFrom :: "string option"

record Container =
  Container_Name :: string
  Container_Image :: string
  Container_Env :: "EnvVar list"

record Pod =
  pod_Meta :: ObjectMeta
  pod_ServiceAccountName :: string
  pod_Containers :: "Container list"
  pod_InitContainers :: "Container list"

definition EnabledLabelKey :: string where "EnabledLabelKey = ''agent.octopus.com/permissions''"
definition ProjectAnnotationKey :: string where "ProjectAnnotationKey = ''agent.octopus.com/project''"
definition ProjectGroupAnnotationKey :: string where "ProjectGroupAnnotationKey = ''agent.octopus.com/project-group''"
definition EnvironmentAnnotationKey :: string where "EnvironmentAnnotationKey = ''agent.octopus.com/environment''"
definition TenantAnnotationKey :: string where "TenantAnnotationKey = ''agent.octopus.com/tenant''"
definition StepAnnotationKey :: string where "StepAnnotationKey = ''agent.octopus.com/step''"
definition SpaceAnnotationKey :: string where "SpaceAnnotationKey = ''agent.octopus.com/space''"
definition OPCVersionEnvVarKey :: string where "OPCVersionEnvVarKey = ''OCTOPUS__K8STENTACLE__OPCVERSION''"

lemmas annotation_key_defs = ProjectAnnotationKey_def ProjectGroupAnnotationKey_def EnvironmentAnnotationKey_def
  TenantAnnotationKey_def StepAnnotationKey_def SpaceAnnotationKey_def

section \<open>The pod webhook\<close>

record 'c PodCustomDefaulter =
  pcd_engine :: "'c InMemoryEngine"
  pcd_version :: string

definition shouldRunOnPod :: "Pod \<Rightarrow> bool" where
  "shouldRunOnPod p =
     (case map_of (om_Labels (pod_Meta p)) EnabledLabelKey of
        Some val \<Rightarrow> if val = ''enabled'' then True else False
      | None \<Rightarrow> False)"

definition getPodScope :: "Pod \<Rightarrow> Scope" where
  "getPodScope p =
     (let annotations = om_Annotations (pod_Meta p);
          s0 = Scope_zero;
          s1 = (case map_of annotations ProjectAnnotationKey of Some v \<Rightarrow> s0\<lparr>Project := v\<rparr> | None \<Rightarrow> s0);
          s2 = (case map_of annotations ProjectGroupAnnotationKey of Some v \<Rightarrow> s1\<lparr>ProjectGroup := v\<rparr> | None \<Rightarrow> s1);
          s3 = (case map_of annotations EnvironmentAnnotationKey of Some v \<Rightarrow> s2\<lparr>Environment := v\<rparr> | None \<Rightarrow> s2);
          s4 = (case map_of annotations TenantAnnotationKey of Some v \<Rightarrow> s3\<lparr>Tenant := v\<rparr> | None \<Rightarrow> s3);
          s5 = (case map_of annotations StepAnnotationKey of Some v \<Rightarrow> s4\<lparr>Step := v\<rparr> | None \<Rightarrow> s4)
      in (case map_of annotations SpaceAnnotationKey of Some v \<Rightarrow> s5\<lparr>Space := v\<rparr> | None \<Rightarrow> s5))"

text \<open>The loop over the variables: the first one with the key is set, the flag is \<^verbatim>\<open>envVarExists\<close>.\<close>

fun setVersion :: "string \<Rightarrow> EnvVar list \<Rightarrow> bool \<times> EnvVar list" where
  "setVersion version [] = (False, [])"
| "setVersion version (envVar # env) =
     (if EnvVar_Name envVar = OPCVersionEnvVarKey then (True, envVar\<lparr>EnvVar_Value := version\<rparr> # env)
      else (case setVersion version env of (found, env') \<Rightarrow> (found, envVar # env')))"

definition injectIntoContainer :: "string \<Rightarrow> Container \<Rightarrow> Container" where
  "injectIntoContainer version container =
     (let versionEnvVar = \<lparr>EnvVar_Name = OPCVersionEnvVarKey, EnvVar_Value = version, EnvVar_ValueFrom = None\<rparr>;
          (envVarExists, env) = setVersion version (Container_Env container)
      in if \<not> envVarExists then container\<lparr>Container_Env := env @ [versionEnvVar]\<rparr>
         else container\<lparr>Container_Env := env\<rparr>)"

definition injectVersionEnvironmentVariable :: "'c PodCustomDefaulter \<Rightarrow> Pod \<Rightarrow> Pod" where
  "injectVersionEnvironmentVariable d pod =
     pod\<lparr>pod_Containers := map (injectIntoContainer (pcd_version d)) (pod_Containers pod),
         pod_InitContainers := map (injectIntoContainer (pcd_version d)) (pod_InitContainers pod)\<rparr>"

text \<open>
  The error, the pod, the label of the duration metric, and the outcome that was counted as a
  request, if one was.
\<close>

definition Default :: "'c PodCustomDefaulter \<Rightarrow> Pod \<Rightarrow> error option \<times> Pod \<times> string \<times> bool option" where
  "Default d obj =
     (if \<not> shouldRunOnPod obj then (None, obj, ''skipped'', None)
      else
        (let obj1 = injectVersionEnvironmentVariable d obj; scope = getPodScope obj1
         in if IsEmpty scope then (None, obj1, ''skipped'', None)
            else
              (case engine_GetServiceAccountForScope (pcd_engine d) scope of
                 (serviceAccountName, err) \<Rightarrow>
                   if err = None \<and> serviceAccountName \<noteq> [] then
                     (err, obj1\<lparr>pod_ServiceAccountName := serviceAccountName\<rparr>, ''success'', Some True)
                   else (err, obj1, if err \<noteq> None then ''error'' else ''success'', Some False))))"

section \<open>Validation of new resources\<close>

text \<open>No warnings are ever given; the error, if any.\<close>

definition ValidateCreate :: "WorkloadServiceAccount \<Rightarrow> string list \<times> error option" where
  "ValidateCreate obj =
     (let scope = wsaScope (wsaSpec obj)
      in if length (Projects scope) + length (ProjectGroups scope) + length (Environments scope) +
            length (Tenants scope) + length (Steps scope) + length (Spaces scope) = 0
         then ([], Some (Errorf ''at least one scope must be defined (projects, project-groups, environments, tenants, steps, or spaces)'' None))
         else ([], None))"

definition ValidateUpdate :: "WorkloadServiceAccount \<Rightarrow> WorkloadServiceAccount \<Rightarrow> string list \<times> error option" where
  "ValidateUpdate old new = ([], None)"

definition ValidateDelete :: "WorkloadServiceAccount \<Rightarrow> string list \<times> error option" where
  "ValidateDelete obj = ([], None)"

section \<open>What injection does\<close>

lemma setVersion_found: "fst (setVersion v env) \<longleftrightarrow> OPCVersionEnvVarKey \<in> EnvVar_Name ` set env"
  by (induction env) (auto simp: case_prod_beta)

lemma setVersion_names [simp]: "map EnvVar_Name (snd (setVersion v env)) = map EnvVar_Name env"
  by (induction env) (auto simp: case_prod_beta)

lemma setVersion_again: "setVersion v (snd (setVersion v env)) = setVersion v env"
  by (induction env) (auto simp: case_prod_beta)

lemma setVersion_absent: "OPCVersionEnvVarKey \<notin> EnvVar_Name ` set env \<Longrightarrow> setVersion v env = (False, env)"
  by (induction env) auto

text \<open>
  The variables of a container with their whole entries, the reference included; of several with one name the last
  one counts. And the entry that carries the version, given the one that there was.
\<close>

definition environment :: "Container \<Rightarrow> string \<rightharpoonup> EnvVar" where
  "environment c = map_of (rev (map (\<lambda>x. (EnvVar_Name x, x)) (Container_Env c)))"

definition version_entry :: "string \<Rightarrow> EnvVar option \<Rightarrow> EnvVar" where
  "version_entry v old =
     (case old of
        None \<Rightarrow> \<lparr>EnvVar_Name = OPCVersionEnvVarKey, EnvVar_Value = v, EnvVar_ValueFrom = None\<rparr>
      | Some x \<Rightarrow> \<lparr>EnvVar_Name = OPCVersionEnvVarKey, EnvVar_Value = v, EnvVar_ValueFrom = EnvVar_ValueFrom x\<rparr>)"

lemma version_entry_name [simp]: "EnvVar_Name (version_entry v old) = OPCVersionEnvVarKey"
  by (simp add: version_entry_def split: option.split)

definition env_map :: "EnvVar list \<Rightarrow> string \<rightharpoonup> EnvVar" where
  "env_map env = map_of (rev (map (\<lambda>x. (EnvVar_Name x, x)) env))"

lemma env_map_simps [simp]:
  "env_map [] = Map.empty" "env_map (x # env) = [EnvVar_Name x \<mapsto> x] ++ env_map env"
  "env_map (env @ env') = env_map env ++ env_map env'"
  by (simp_all add: env_map_def)

lemma env_map_dom: "dom (env_map env) = EnvVar_Name ` set env"
  by (simp add: env_map_def dom_map_of_conv_image_fst image_image)

lemma setVersion_map:
  assumes "fst (setVersion v env)" "count_list (map EnvVar_Name env) OPCVersionEnvVarKey \<le> 1"
  shows "env_map (snd (setVersion v env)) = (env_map env)(OPCVersionEnvVarKey \<mapsto> version_entry v (env_map env OPCVersionEnvVarKey))"
  using assms
proof (induction env)
  case (Cons x env)
  show ?case
  proof (cases "EnvVar_Name x = OPCVersionEnvVarKey")
    case True
    with Cons.prems(2) have "OPCVersionEnvVarKey \<notin> dom (env_map env)"
      by (simp add: env_map_dom count_list_0_iff flip: set_map)
    moreover have "x\<lparr>EnvVar_Value := v\<rparr> = version_entry v (Some x)" using True by (cases x) (simp add: version_entry_def)
    ultimately show ?thesis using True by (auto simp: fun_eq_iff map_add_def domIff split: option.splits)
  next
    case False
    have "env_map (snd (setVersion v env)) =
        (env_map env)(OPCVersionEnvVarKey \<mapsto> version_entry v (env_map env OPCVersionEnvVarKey))"
      by (rule Cons.IH) (use False Cons.prems in \<open>simp_all add: case_prod_beta\<close>)
    moreover from Cons.prems(1) False have "OPCVersionEnvVarKey \<in> dom (env_map env)"
      by (simp add: env_map_dom case_prod_beta setVersion_found)
    then obtain y where "env_map env OPCVersionEnvVarKey = Some y" by blast
    ultimately show ?thesis using False by (simp add: case_prod_beta)
  qed
qed simp

lemma inject_environment:
  assumes "count_list (map EnvVar_Name (Container_Env c)) OPCVersionEnvVarKey \<le> 1"
  shows "environment (injectIntoContainer v c) =
    (environment c)(OPCVersionEnvVarKey \<mapsto> version_entry v (environment c OPCVersionEnvVarKey))"
proof -
  have e: "environment c = env_map (Container_Env c)" for c by (simp add: environment_def env_map_def)
  show ?thesis
  proof (cases "fst (setVersion v (Container_Env c))")
    case True
    then show ?thesis using setVersion_map[OF True assms] by (simp add: e injectIntoContainer_def case_prod_beta)
  next
    case False
    then have n: "OPCVersionEnvVarKey \<notin> EnvVar_Name ` set (Container_Env c)" using setVersion_found by blast
    then have "env_map (Container_Env c) OPCVersionEnvVarKey = None" using env_map_dom by (metis domIff)
    with setVersion_absent[OF n] show ?thesis by (simp add: e injectIntoContainer_def version_entry_def)
  qed
qed

lemma setVersion_others:
  "filter (\<lambda>x. EnvVar_Name x \<noteq> OPCVersionEnvVarKey) (snd (setVersion v env)) =
   filter (\<lambda>x. EnvVar_Name x \<noteq> OPCVersionEnvVarKey) env"
  by (induction env) (auto simp: case_prod_beta)

text \<open>What injection must leave of a container: everything but the entries of the version.\<close>

definition apart_from_version :: "Container \<Rightarrow> Container" where
  "apart_from_version c = c\<lparr>Container_Env := filter (\<lambda>x. EnvVar_Name x \<noteq> OPCVersionEnvVarKey) (Container_Env c)\<rparr>"

lemma inject_others: "apart_from_version (injectIntoContainer v c) = apart_from_version c"
  using setVersion_others[of v "Container_Env c"]
  by (simp add: apart_from_version_def injectIntoContainer_def case_prod_beta Let_def)

lemma inject_again [simp]: "injectIntoContainer v (injectIntoContainer v c) = injectIntoContainer v c"
proof (cases "fst (setVersion v (Container_Env c))")
  case True
  then obtain env where e: "setVersion v (Container_Env c) = (True, env)" by (metis prod.collapse)
  then have "setVersion v env = (True, env)" using setVersion_again[of v "Container_Env c"] by simp
  with e show ?thesis by (simp add: injectIntoContainer_def)
next
  case False
  then have n: "OPCVersionEnvVarKey \<notin> EnvVar_Name ` set (Container_Env c)" using setVersion_found by blast
  let ?x = "\<lparr>EnvVar_Name = OPCVersionEnvVarKey, EnvVar_Value = v, EnvVar_ValueFrom = None\<rparr>"
  have "setVersion v (env @ [?x]) = (True, env @ [?x])" if "OPCVersionEnvVarKey \<notin> EnvVar_Name ` set env" for env
    using that by (induction env) auto
  with n show ?thesis by (simp add: injectIntoContainer_def setVersion_absent)
qed

lemma inject_keeps [simp]:
  "pod_Meta (injectVersionEnvironmentVariable d pod) = pod_Meta pod"
  "pod_ServiceAccountName (injectVersionEnvironmentVariable d pod) = pod_ServiceAccountName pod"
  "shouldRunOnPod (injectVersionEnvironmentVariable d pod) = shouldRunOnPod pod"
  "getPodScope (injectVersionEnvironmentVariable d pod) = getPodScope pod"
  by (simp_all add: injectVersionEnvironmentVariable_def shouldRunOnPod_def getPodScope_def)

lemma getPodScope_account [simp]:
  "getPodScope (pod\<lparr>pod_ServiceAccountName := n\<rparr>) = getPodScope pod"
  "shouldRunOnPod (pod\<lparr>pod_ServiceAccountName := n\<rparr>) = shouldRunOnPod pod"
  by (simp_all add: shouldRunOnPod_def getPodScope_def)

lemma inject_twice [simp]:
  "injectVersionEnvironmentVariable d (injectVersionEnvironmentVariable d pod) = injectVersionEnvironmentVariable d pod"
  "injectVersionEnvironmentVariable d (pod\<lparr>pod_ServiceAccountName := n\<rparr>) =
     (injectVersionEnvironmentVariable d pod)\<lparr>pod_ServiceAccountName := n\<rparr>"
  by (simp_all add: injectVersionEnvironmentVariable_def comp_def)

text \<open>The scope of a pod, dimension by dimension; an annotation that is missing is the empty string.\<close>

definition annotation :: "Pod \<Rightarrow> string \<Rightarrow> string" where
  "annotation p k = (case map_of (om_Annotations (pod_Meta p)) k of Some v \<Rightarrow> v | None \<Rightarrow> [])"

lemma getPodScope_eq:
  "getPodScope p = \<lparr>Project = annotation p ProjectAnnotationKey, ProjectGroup = annotation p ProjectGroupAnnotationKey,
     Environment = annotation p EnvironmentAnnotationKey, Tenant = annotation p TenantAnnotationKey,
     Step = annotation p StepAnnotationKey, Space = annotation p SpaceAnnotationKey\<rparr>"
  by (simp add: getPodScope_def annotation_def Scope_zero_def Let_def split: option.splits)

section \<open>Guarantees of the webhooks\<close>

text \<open>
  C2. From resource to pod: after a batch was processed without an error, a labelled pod whose
  annotations name a deployment that a live resource matches is given, by the webhook of the same
  replica, a service account that exists in every target namespace and is bound there to every role the
  resource asks for.
\<close>

theorem pod_gets_granted_account:
  assumes "pipeline e view so \<omega>" and "processBatch so batch e c = (None, batch', e', c')"
    and "ba_Resources batch \<noteq> []" and "no_clash (cluster_resources (view c))"
    and "\<forall>r \<in> cluster_resources (view c). no_wildcard [r]"
    and "res \<in> cluster_resources (view c)" and "wsa_matches res (getPodScope pod)"
    and "shouldRunOnPod pod" and "\<not> IsEmpty (getPodScope pod)"
  shows "\<exists>pod' plan. Default \<lparr>pcd_engine = e', pcd_version = v\<rparr> pod = (None, pod', ''success'', Some True) \<and>
    ba_Plan batch' = Some plan \<and>
    granted (view c') (pl_TargetNamespaces plan) res (pod_ServiceAccountName pod')"
proof -
  obtain n plan where n: "engine_GetServiceAccountForScope e' (getPodScope pod) = (n, None)" "n \<noteq> []"
    "ba_Plan batch' = Some plan" "granted (view c') (pl_TargetNamespaces plan) res n"
    using pipeline.grants[OF assms(1-7)] by blast
  then show ?thesis using assms(8,9) by (auto simp: Default_def Let_def)
qed

text \<open>
  Annotations as a deployment writes them: those of the dimensions it sets, after whatever other
  annotations the pod has.
\<close>

definition annotate_dim :: "string \<times> string \<Rightarrow> (string, string) gomap \<Rightarrow> (string, string) gomap" where
  "annotate_dim kv m = (if snd kv = [] then AList.delete (fst kv) m else map_put (fst kv) (snd kv) m)"

definition annotate :: "Scope \<Rightarrow> (string, string) gomap \<Rightarrow> (string, string) gomap" where
  "annotate s other = fold annotate_dim
     [(ProjectAnnotationKey, Project s), (ProjectGroupAnnotationKey, ProjectGroup s),
      (EnvironmentAnnotationKey, Environment s), (TenantAnnotationKey, Tenant s),
      (StepAnnotationKey, Step s), (SpaceAnnotationKey, Space s)] other"

lemma annotate_dim_lookup:
  "map_of (annotate_dim (k, v) m) j = (if j = k then (if v = [] then None else Some v) else map_of m j)"
  by (simp add: annotate_dim_def map_of_put delete_conv')

lemma annotation_keys_distinct:
  "distinct [ProjectAnnotationKey, ProjectGroupAnnotationKey, EnvironmentAnnotationKey, TenantAnnotationKey,
     StepAnnotationKey, SpaceAnnotationKey]"
  by code_simp

lemma annotate_annotation:
  assumes "om_Annotations (pod_Meta p) = annotate s other"
  shows "annotation p ProjectAnnotationKey = Project s" "annotation p ProjectGroupAnnotationKey = ProjectGroup s"
    "annotation p EnvironmentAnnotationKey = Environment s" "annotation p TenantAnnotationKey = Tenant s"
    "annotation p StepAnnotationKey = Step s" "annotation p SpaceAnnotationKey = Space s"
  using annotation_keys_distinct by (auto simp: annotation_def assms annotate_def annotate_dim_lookup)

text \<open>
  C13. The scope that a deployment writes into the annotations of a pod, next to any others, is the
  scope that the webhook reads back, and no annotation of another name has an influence on it.
\<close>

theorem pod_scope_roundtrip:
  assumes "om_Annotations (pod_Meta p) = annotate s other"
    and "k \<notin> {ProjectAnnotationKey, ProjectGroupAnnotationKey, EnvironmentAnnotationKey, TenantAnnotationKey,
           StepAnnotationKey, SpaceAnnotationKey}"
  shows "getPodScope p = s \<and>
    getPodScope (p\<lparr>pod_Meta := (pod_Meta p)\<lparr>om_Annotations := map_put k v (om_Annotations (pod_Meta p))\<rparr>\<rparr>) = s"
proof -
  let ?q = "p\<lparr>pod_Meta := (pod_Meta p)\<lparr>om_Annotations := map_put k v (om_Annotations (pod_Meta p))\<rparr>\<rparr>"
  have "annotation ?q j = annotation p j" if "j \<noteq> k" for j
    using that by (simp add: annotation_def map_of_put)
  then show ?thesis
    using assms(2) annotate_annotation[OF assms(1)] by (auto simp: getPodScope_eq)
qed


text \<open>
  C14. In every container of a labelled pod, init containers included, that defines the version variable at most
  once, the variable has the version as its value, and a reference that its entry had stays beside it (which the API
  server refuses, see \<open>value_beside_reference\<close>); the other variables keep their entries, values and references, in their order, and names, images and the
  order of the containers stay.
\<close>

theorem version_injected:
  assumes "Default d pod = (err, pod', label, counted)" and "shouldRunOnPod pod"
    and "\<forall>c \<in> set (pod_Containers pod @ pod_InitContainers pod).
      count_list (map EnvVar_Name (Container_Env c)) OPCVersionEnvVarKey \<le> 1"
  shows "map environment (pod_Containers pod' @ pod_InitContainers pod') =
      map (\<lambda>c. (environment c)(OPCVersionEnvVarKey \<mapsto> version_entry (pcd_version d) (environment c OPCVersionEnvVarKey)))
        (pod_Containers pod @ pod_InitContainers pod) \<and>
    map apart_from_version (pod_Containers pod') = map apart_from_version (pod_Containers pod) \<and>
    map apart_from_version (pod_InitContainers pod') = map apart_from_version (pod_InitContainers pod)"
proof -
  have "pod_Containers pod' = map (injectIntoContainer (pcd_version d)) (pod_Containers pod)"
    "pod_InitContainers pod' = map (injectIntoContainer (pcd_version d)) (pod_InitContainers pod)"
    using assms(1,2) by (auto simp: Default_def Let_def injectVersionEnvironmentVariable_def split: if_splits prod.splits)
  then show ?thesis
    using assms(3) inject_environment by (auto simp: inject_others)
qed

text \<open>
  The webhook may run again on its own result, on an update or when it is invoked a second time:
  nothing changes, and the answer is the same.
\<close>

theorem default_idempotent:
  assumes "Default d pod = (err, pod', label, counted)"
  shows "Default d pod' = (err, pod', label, counted)"
proof (cases "shouldRunOnPod pod \<and> \<not> IsEmpty (getPodScope pod)")
  case True
  obtain n er where n: "engine_GetServiceAccountForScope (pcd_engine d) (getPodScope pod) = (n, er)" by fastforce
  with True assms show ?thesis
    by (cases "er = None \<and> n \<noteq> []") (simp_all add: Default_def Let_def, (elim conjE, hypsubst, simp)+)
next
  case False
  then consider "\<not> shouldRunOnPod pod" | "shouldRunOnPod pod" "IsEmpty (getPodScope pod)" by blast
  then show ?thesis using assms by cases (simp_all add: Default_def Let_def, (elim conjE, hypsubst, simp)+)
qed

text \<open>
  C32. The webhook never denies a pod, leaves pods without the label alone, keeps the metadata, and
  replaces the service account only by the one that the engine publishes for the scope in
  the annotations, never by an empty name.
\<close>

theorem webhook_changes_only:
  assumes "Default d pod = (err, pod', label, counted)"
  shows "err = None \<and> pod_Meta pod' = pod_Meta pod \<and> (\<not> shouldRunOnPod pod \<longrightarrow> pod' = pod) \<and>
    (pod_ServiceAccountName pod' \<noteq> pod_ServiceAccountName pod \<longrightarrow>
       \<not> IsEmpty (getPodScope pod) \<and> pod_ServiceAccountName pod' \<noteq> [] \<and>
       engine_GetServiceAccountForScope (pcd_engine d) (getPodScope pod) = (pod_ServiceAccountName pod', None))"
proof (cases "shouldRunOnPod pod \<and> \<not> IsEmpty (getPodScope pod)")
  case True
  obtain n er where n: "engine_GetServiceAccountForScope (pcd_engine d) (getPodScope pod) = (n, er)" by fastforce
  then have "er = None"
    by (auto simp: engine_GetServiceAccountForScope_def GetServiceAccountForScope_def Let_def split: option.splits)
  with n True assms show ?thesis by (auto simp: Default_def Let_def split: if_splits)
next
  case False
  with assms show ?thesis by (auto simp: Default_def Let_def split: if_splits)
qed

text \<open>
  Validation admits a new resource exactly when it does not match every deployment, so
  no admitted resource hands its permissions to all workloads. (The schema admits slugs only, so no value is
  the wildcard.)
\<close>

theorem validated_iff_restricted:
  assumes "no_wildcard [NewWSAResource obj]"
  shows "ValidateCreate obj = ([], None) \<longleftrightarrow> (\<exists>s. \<not> wsa_matches (NewWSAResource obj) s)"
proof
  let ?r = "NewWSAResource obj"
  let ?s = "\<lparr>Project = WildcardValue, ProjectGroup = WildcardValue, Environment = WildcardValue,
    Tenant = WildcardValue, Step = WildcardValue, Space = WildcardValue\<rparr>"
  assume "ValidateCreate obj = ([], None)"
  then have "\<not> (\<forall>d < MaxDimensionIndex. scopeSlices ?r ! d = [])"
    unfolding all_dims by (auto simp: ValidateCreate_def scopeSlices_def NewWSAResource_def Let_def split: if_splits)
  with assms have "\<not> wsa_matches ?r ?s"
    by (auto simp: wsa_matches_def no_wildcard_def all_dims scope_dims_def dest!: less_Max_cases)
  then show "\<exists>s. \<not> wsa_matches ?r s" ..
next
  assume "\<exists>s. \<not> wsa_matches (NewWSAResource obj) s"
  then show "ValidateCreate obj = ([], None)"
    by (auto simp: wsa_matches_def ValidateCreate_def scopeSlices_def NewWSAResource_def all_dims Let_def)
qed

text \<open>
  What the condition of \<open>version_injected\<close> excludes: a second definition of the variable shadows the
  version. A variable that was taken from a reference gets a value beside the reference.
\<close>

lemma version_shadowed:
  "environment (injectIntoContainer v (c\<lparr>Container_Env :=
     [\<lparr>EnvVar_Name = OPCVersionEnvVarKey, EnvVar_Value = a, EnvVar_ValueFrom = None\<rparr>,
      \<lparr>EnvVar_Name = OPCVersionEnvVarKey, EnvVar_Value = b, EnvVar_ValueFrom = None\<rparr>]\<rparr>)) OPCVersionEnvVarKey =
     Some \<lparr>EnvVar_Name = OPCVersionEnvVarKey, EnvVar_Value = b, EnvVar_ValueFrom = None\<rparr>"
  by (simp add: injectIntoContainer_def environment_def)

lemma value_beside_reference:
  "Container_Env (injectIntoContainer v (c\<lparr>Container_Env :=
     [\<lparr>EnvVar_Name = OPCVersionEnvVarKey, EnvVar_Value = [], EnvVar_ValueFrom = Some ref\<rparr>]\<rparr>)) =
     [\<lparr>EnvVar_Name = OPCVersionEnvVarKey, EnvVar_Value = v, EnvVar_ValueFrom = Some ref\<rparr>]"
  by (simp add: injectIntoContainer_def)

section \<open>Examples\<close>

definition example_pod :: Pod where
  "example_pod =
     \<lparr>pod_Meta = ObjectMeta_zero\<lparr>om_Labels := [(EnabledLabelKey, ''enabled'')],
        om_Annotations := annotate (deployment ''p1'' ''prod'') [(''team'', ''a'')]\<rparr>,
      pod_ServiceAccountName = ''default'',
      pod_Containers = [\<lparr>Container_Name = ''main'', Container_Image = ''tentacle'', Container_Env = []\<rparr>],
      pod_InitContainers = []\<rparr>"

lemma example_pod_scope: "getPodScope example_pod = deployment ''p1'' ''prod''"
  by code_simp

definition access_defaulter :: "server PodCustomDefaulter" where
  "access_defaulter = \<lparr>pcd_engine = fst (snd (snd access_run)), pcd_version = ''1.2''\<rparr>"

definition example_admission :: "error option \<times> Pod \<times> string \<times> bool option" where
  "example_admission = Default access_defaulter example_pod"

lemma example_admission_eq: "Default access_defaulter example_pod =
    (fst example_admission, fst (snd example_admission), fst (snd (snd example_admission)), snd (snd (snd example_admission)))"
  by (simp add: example_admission_def)

lemma example_pod_enabled: "shouldRunOnPod example_pod" by code_simp

theorem pod_gets_granted_account_witness:
  "\<exists>pod' plan. Default access_defaulter example_pod = (None, pod', ''success'', Some True) \<and>
     ba_Plan (fst (snd access_run)) = Some plan \<and>
     granted (server_view (snd (snd (snd access_run)))) (pl_TargetNamespaces plan) (wsaAdapter access_wsa)
       (pod_ServiceAccountName pod')"
  unfolding access_defaulter_def
proof (rule pod_gets_granted_account[OF access_pipeline access_eq _ access_no_clash _ _ _ example_pod_enabled])
  show "ba_Resources access_batch \<noteq> []" by (simp add: access_batch_def NewBatch_def)
  show "\<forall>r \<in> cluster_resources (server_view access_server). no_wildcard [r]"
    by (simp add: access_resources no_wildcard_def all_dims access_scope WildcardValue_def)
  show "wsaAdapter access_wsa \<in> cluster_resources (server_view access_server)" by (simp add: access_resources)
  show "wsa_matches (wsaAdapter access_wsa) (getPodScope example_pod)" unfolding example_pod_scope by (rule access_matches)
  show "\<not> IsEmpty (getPodScope example_pod)"
    unfolding example_pod_scope by (simp add: IsEmpty_def deployment_def Scope_zero_def)
qed

theorem pod_scope_roundtrip_witness:
  "getPodScope example_pod = deployment ''p1'' ''prod'' \<and>
   getPodScope (example_pod\<lparr>pod_Meta := (pod_Meta example_pod)\<lparr>om_Annotations :=
     map_put ''note'' ''x'' (om_Annotations (pod_Meta example_pod))\<rparr>\<rparr>) = deployment ''p1'' ''prod''"
proof (rule pod_scope_roundtrip)
  show "om_Annotations (pod_Meta example_pod) = annotate (deployment ''p1'' ''prod'') [(''team'', ''a'')]"
    by (simp add: example_pod_def)
  show "''note'' \<notin> {ProjectAnnotationKey, ProjectGroupAnnotationKey, EnvironmentAnnotationKey, TenantAnnotationKey,
      StepAnnotationKey, SpaceAnnotationKey}"
    by (simp add: annotation_key_defs)
qed

theorem version_injected_witness:
  "map environment (pod_Containers (fst (snd example_admission))) =
     [[OPCVersionEnvVarKey \<mapsto> \<lparr>EnvVar_Name = OPCVersionEnvVarKey, EnvVar_Value = ''1.2'', EnvVar_ValueFrom = None\<rparr>]]"
proof -
  have "\<forall>c \<in> set (pod_Containers example_pod @ pod_InitContainers example_pod).
      count_list (map EnvVar_Name (Container_Env c)) OPCVersionEnvVarKey \<le> 1"
    by (simp add: example_pod_def)
  note v = version_injected[OF example_admission_eq example_pod_enabled this]
  from v have "length (pod_Containers (fst (snd example_admission))) = 1"
    "pod_InitContainers (fst (snd example_admission)) = []"
    by (auto simp: example_pod_def dest!: arg_cong[where f = length])
  with v show ?thesis
    by (simp add: example_pod_def access_defaulter_def environment_def version_entry_def)
qed

theorem default_idempotent_witness:
  "Default access_defaulter (fst (snd example_admission)) = example_admission"
  using default_idempotent[OF example_admission_eq] by simp

theorem webhook_changes_only_witness:
  "engine_GetServiceAccountForScope (fst (snd (snd access_run))) (deployment ''p1'' ''prod'') =
     (pod_ServiceAccountName (fst (snd example_admission)), None)"
proof -
  have "pod_ServiceAccountName (fst (snd example_admission)) \<noteq> pod_ServiceAccountName example_pod" by code_simp
  with webhook_changes_only[OF example_admission_eq] show ?thesis
    by (simp add: example_pod_scope access_defaulter_def)
qed

theorem validated_iff_restricted_witness:
  "ValidateCreate access_wsa = ([], None) \<and> (\<exists>s. \<not> wsa_matches (NewWSAResource access_wsa) s)"
proof -
  have "no_wildcard [NewWSAResource access_wsa]"
    using access_scope by (simp add: no_wildcard_def all_dims NewWSAResource_def WildcardValue_def)
  moreover have "ValidateCreate access_wsa = ([], None)" by code_simp
  ultimately show ?thesis using validated_iff_restricted by blast
qed

end
