(* ===== verification/Replicas.thy ===== *)
theory Replicas
  imports Webhooks
begin

text \<open>
  Several replicas: the leader processes batches, the others refresh their engines, and the webhook
  of every one of them admits pods. Shown: the answers of the webhook are the same on all
  replicas, whatever the leader has written into the statuses of the resources meanwhile.
\<close>

section \<open>The resolver depends on names and scopes only\<close>

definition subsumed :: "WSAResource list \<Rightarrow> WSAResource list \<Rightarrow> bool" where
  "subsumed rs rs' \<longleftrightarrow> (\<forall>r \<in> set rs. \<exists>r' \<in> set rs'.
     scopeSlices r' = scopeSlices r \<and> GetNamespacedName r' = GetNamespacedName r)"

definition alike :: "WSAResource list \<Rightarrow> WSAResource list \<Rightarrow> bool" where
  "alike rs rs' \<longleftrightarrow> subsumed rs rs' \<and> subsumed rs' rs"

lemma subsumedI:
  assumes "\<And>r. r \<in> set rs \<Longrightarrow> \<exists>r' \<in> set rs'. same_spec r r'"
  shows "subsumed rs rs'"
  unfolding subsumed_def
proof
  fix r assume "r \<in> set rs"
  then obtain r' where "r' \<in> set rs'" "same_spec r r'" using assms by blast
  with same_spec_fields(3,4)[OF this(2)]
  show "\<exists>r' \<in> set rs'. scopeSlices r' = scopeSlices r \<and> GetNamespacedName r' = GetNamespacedName r"
    by (auto simp: scopeSlices_def)
qed

lemma alike_sym: "alike rs rs' \<Longrightarrow> alike rs' rs"
  by (simp add: alike_def)

lemma alike_vocabulary:
  assumes "alike rs rs'" "d < MaxDimensionIndex"
  shows "set (vocab_of rs ! d) = set (vocab_of rs' ! d)"
proof -
  have "set (vocab_of xs ! d) \<subseteq> set (vocab_of ys ! d)" if s: "subsumed xs ys" for xs ys
  proof
    fix x assume "x \<in> set (vocab_of xs ! d)"
    then obtain r where "r \<in> set xs" "x \<in> set (scopeSlices r ! d)" by (auto simp: vocabulary_nth[OF assms(2)])
    with s obtain r' where "r' \<in> set ys" "x \<in> set (scopeSlices r' ! d)" unfolding subsumed_def by fastforce
    then show "x \<in> set (vocab_of ys ! d)" by (auto simp: vocabulary_nth[OF assms(2)])
  qed
  with assms(1) show ?thesis unfolding alike_def by blast
qed

lemma alike_covers:
  assumes "alike rs rs'" "scopeSlices r = scopeSlices r'"
  shows "covers (vocab_of rs) r s = covers (vocab_of rs') r' s"
  using alike_vocabulary[OF assms(1)] assms(2) by (simp add: covers_def)

lemma alike_keys:
  assumes "alike rs rs'"
  shows "GetNamespacedName ` covering rs s = GetNamespacedName ` covering rs' s"
proof -
  have "GetNamespacedName ` covering xs s \<subseteq> GetNamespacedName ` covering ys s" if a: "alike xs ys" for xs ys
  proof
    fix k assume "k \<in> GetNamespacedName ` covering xs s"
    then obtain r where r: "r \<in> set xs" "covers (vocab_of xs) r s" "k = GetNamespacedName r" by (auto simp: covering_def)
    then obtain r' where "r' \<in> set ys" "scopeSlices r' = scopeSlices r" "GetNamespacedName r' = k"
      using a unfolding alike_def subsumed_def by metis
    with alike_covers[OF a, of r r' s] r(2) show "k \<in> GetNamespacedName ` covering ys s"
      by (auto simp: covering_def)
  qed
  from this[OF assms] this[OF alike_sym[OF assms]] show ?thesis by blast
qed

lemma alike_group:
  assumes "alike rs rs'" "keys_distinct rs" "keys_distinct rs'"
  shows "covering rs t = covering rs s \<longleftrightarrow> covering rs' t = covering rs' s"
  using covering_key_image[OF assms(2), of t s] covering_key_image[OF assms(3), of t s] alike_keys[OF assms(1)] by simp

lemma resolver_alike:
  assumes "order_ok \<omega>" "order_ok \<omega>'" "names_valid rs" "names_valid rs'" "alike rs rs'"
  shows "GetServiceAccountForScope (resolver \<omega> rs) p = GetServiceAccountForScope (resolver \<omega>' rs') p"
proof -
  have known: "GetKnownScopeCombination (vocab_of rs) p = GetKnownScopeCombination (vocab_of rs') p"
    using alike_vocabulary[OF assms(5)] by (simp add: GetKnownScopeCombination_def)
  have empty: "covering rs s = {} \<longleftrightarrow> covering rs' s = {}" for s using alike_keys[OF assms(5), of s] by auto
  have "account_of \<omega> rs s = account_of \<omega>' rs' s" if c: "covering rs s \<noteq> {}" for s
  proof -
    have "set (group_of \<omega> (scopeMap_of \<omega> rs) s) = set (group_of \<omega>' (scopeMap_of \<omega>' rs') s)"
      unfolding set_group_of[OF assms(1,3) c] set_group_of[OF assms(2,4) c[unfolded empty]]
      using alike_group[OF assms(5) names_validD[OF assms(3)] names_validD[OF assms(4)]] by simp
    then show ?thesis unfolding account_of_def by (rule groupName_cong[OF assms(1,2)])
  qed
  then show ?thesis
    unfolding ComputeScopes_snd GetServiceAccountForScope_eq[OF assms(1)] GetServiceAccountForScope_eq[OF assms(2)] known Let_def
    using empty by simp
qed

section \<open>Leader and followers\<close>

text \<open>Two clusters whose resources differ in their statuses at most, whatever else they hold.\<close>

definition same_specs :: "cluster \<Rightarrow> cluster \<Rightarrow> bool" where
  "same_specs m m' \<longleftrightarrow> (\<forall>k \<in> {KWorkloadServiceAccount, KClusterWorkloadServiceAccount}. \<forall>n.
     map_option erase (m (k, n)) = map_option erase (m' (k, n)))"

lemma same_specs_sym: "same_specs m m' \<Longrightarrow> same_specs m' m"
  by (simp add: same_specs_def)

definition only_resources :: "cluster \<Rightarrow> cluster" where
  "only_resources m i = (if fst i \<in> {KWorkloadServiceAccount, KClusterWorkloadServiceAccount} then m i else None)"

lemma only_resources_same: "same_specs m m' \<longleftrightarrow> same_cluster (only_resources m) (only_resources m')"
  by (auto simp: same_specs_def same_cluster_def only_resources_def)

lemma only_resources_resources: "cluster_resources (only_resources m) = cluster_resources m"
  by (simp add: cluster_resources_def only_resources_def)

context pipeline
begin

lemma same_specs_resource:
  assumes "same_specs (view c) (view d)" "res \<in> cluster_resources (view c)"
  shows "\<exists>res' \<in> cluster_resources (view d). same_spec res res'"
proof -
  have "obj_id x = i" if "only_resources (view c) i = Some x" for i x
    using that view_id[of c i x] by (auto simp: only_resources_def split: if_splits)
  moreover have "obj_id x = i" if "only_resources (view d) i = Some x" for i x
    using that view_id[of d i x] by (auto simp: only_resources_def split: if_splits)
  moreover have "res \<in> cluster_resources (only_resources (view c))" using assms(2) by (simp only: only_resources_resources)
  ultimately obtain res' where "res' \<in> cluster_resources (only_resources (view d))" "same_spec res res'"
    by (rule same_cluster_resources[OF assms(1)[unfolded only_resources_same]])
  then show ?thesis by (auto simp: only_resources_resources)
qed

lemma follower:
  assumes "processBatch so batch e c = (None, batch', e', c')" "ba_Resources batch \<noteq> []"
    and f: "api_client_current (e_client ef) view" "engine_reachable ef" "order_ok \<omega>'"
    and "RefreshScopeMappings \<omega>' ef d = (None, ef', d')" "same_specs (view c) (view d)"
  shows "engine_GetServiceAccountForScope ef' p = engine_GetServiceAccountForScope e' p"
  using assms(1,2)
proof (rule processed)
  fix rs nss q bx cx cy plan
  assume ex: "executed c None rs nss q bx cx e' cy"
  obtain rs' where rs': "set rs' = cluster_resources (view d)" "names_valid rs'"
    and e: "e_ScopeComputation ef' = NewScopeComputationService (vocab_of rs') (scopeToSA_of \<omega>' (scopeMap_of \<omega>' rs'))"
    using published_resolver[OF f(1) engine_reachable_ok[OF f(2)]] assms(6) by blast
  have "subsumed rs rs'"
  proof (rule subsumedI)
    fix r assume "r \<in> set rs"
    then obtain r0 where "r0 \<in> cluster_resources (view c)" "same_spec r0 r" using executed_resources(2)[OF ex] by blast
    moreover from this(1) obtain r' where "r' \<in> set rs'" "same_spec r0 r'"
      using same_specs_resource[OF assms(7)] rs'(1) by blast
    ultimately show "\<exists>r' \<in> set rs'. same_spec r r'" using same_spec_sym same_spec_trans by blast
  qed
  moreover have "subsumed rs' rs"
  proof (rule subsumedI)
    fix r assume "r \<in> set rs'"
    then obtain r0 where "r0 \<in> cluster_resources (view c)" "same_spec r r0"
      using same_specs_resource[OF same_specs_sym[OF assms(7)]] rs'(1) by blast
    moreover from this(1) obtain r' where "r' \<in> set rs" "same_spec r0 r'" using executed_resources(1)[OF ex] by blast
    ultimately show "\<exists>r' \<in> set rs. same_spec r r'" using same_spec_trans by blast
  qed
  ultimately have "alike rs rs'" by (simp add: alike_def)
  moreover have "names_valid rs" using ex by (simp add: executed_def)
  ultimately have "engine_GetServiceAccountForScope e' p = GetServiceAccountForScope (resolver \<omega>' rs') p"
    unfolding executed_resolver[OF ex] using resolver_alike[OF order f(3) _ rs'(2)] by blast
  then show ?thesis by (simp only: engine_GetServiceAccountForScope_def e ComputeScopes_snd)
qed

end

text \<open>
  C5. Replicas admit alike: after the leader has processed a batch without an error, the webhook of every
  replica that has refreshed from the same resources answers every pod as the leader's webhook does. The
  statuses that the leader wrote, the order in which the API server lists resources and the
  iteration order of maps make no difference.
\<close>

theorem followers_admit_alike:
  assumes "pipeline e view so \<omega>" and "processBatch so batch e c = (None, batch', e', c')"
    and "ba_Resources batch \<noteq> []"
    and "api_client_current (e_client ef) view" and "engine_reachable ef" and "order_ok \<omega>'"
    and "RefreshScopeMappings \<omega>' ef d = (None, ef', d')" and "same_specs (view c) (view d)"
  shows "Default \<lparr>pcd_engine = ef', pcd_version = v\<rparr> pod = Default \<lparr>pcd_engine = e', pcd_version = v\<rparr> pod"
proof -
  have "engine_GetServiceAccountForScope ef' (getPodScope pod) = engine_GetServiceAccountForScope e' (getPodScope pod)"
    by (rule pipeline.follower[OF assms])
  moreover have "injectVersionEnvironmentVariable \<lparr>pcd_engine = ef', pcd_version = v\<rparr> pod =
      injectVersionEnvironmentVariable \<lparr>pcd_engine = e', pcd_version = v\<rparr> pod"
    by (simp add: injectVersionEnvironmentVariable_def)
  ultimately show ?thesis by (simp add: Default_def Let_def)
qed

section \<open>Example\<close>

text \<open>A follower that refreshes after the batch, when the leader has already reported conditions.\<close>

definition after_batch :: server where
  "after_batch = snd (snd (snd access_run))"

definition follower_refresh :: "error option \<times> server InMemoryEngine \<times> server" where
  "follower_refresh = RefreshScopeMappings order_rev access_engine after_batch"

abbreviation resource_objects :: "server \<Rightarrow> object list" where
  "resource_objects s \<equiv> filter (\<lambda>x. obj_kind x \<in> {KWorkloadServiceAccount, KClusterWorkloadServiceAccount}) (srv_objects s)"

lemma server_view_resources:
  assumes "fst i \<in> {KWorkloadServiceAccount, KClusterWorkloadServiceAccount}"
  shows "server_view s i = (if valid_id i then find (\<lambda>x. obj_id x = i) (resource_objects s) else None)"
proof -
  have "find (\<lambda>x. obj_id x = i) xs =
      find (\<lambda>x. obj_id x = i) (filter (\<lambda>x. obj_kind x \<in> {KWorkloadServiceAccount, KClusterWorkloadServiceAccount}) xs)" for xs
    using assms by (induction xs) auto
  then show ?thesis by (simp add: server_view_def)
qed

lemma same_specs_server:
  assumes "map erase (resource_objects s) = map erase (resource_objects s')"
  shows "same_specs (server_view s) (server_view s')"
proof -
  have e: "map_option erase (find (\<lambda>x. obj_id x = i) xs) = find (\<lambda>x. obj_id x = i) (map erase xs)" for i xs
    by (induction xs) (simp_all add: erase_keeps)
  have "map_option erase (server_view s i) = map_option erase (server_view s' i)"
    if "fst i \<in> {KWorkloadServiceAccount, KClusterWorkloadServiceAccount}" for i
    unfolding server_view_resources[OF that] if_distrib[of "map_option erase"] e assms by simp
  then show ?thesis by (simp add: same_specs_def)
qed

lemma after_batch_facts:
  "map erase (resource_objects access_server) = map erase (resource_objects after_batch)"
  "resource_objects access_server \<noteq> resource_objects after_batch"
  by code_simp+

lemma follower_refresh_ok:
  "RefreshScopeMappings order_rev access_engine after_batch = (None, fst (snd follower_refresh), snd (snd follower_refresh))"
proof -
  have "case fst (listResources access_engine after_batch) of Inl _ \<Rightarrow> False | Inr _ \<Rightarrow> True" by code_simp
  then have "fst follower_refresh = None"
    unfolding follower_refresh_def RefreshScopeMappings_def computeStateFromCluster_def
    by (cases "listResources access_engine after_batch") (auto simp: case_prod_beta Let_def split: sum.splits)
  then show ?thesis unfolding follower_refresh_def by (metis prod.collapse)
qed

theorem followers_admit_alike_witness:
  "resource_objects access_server \<noteq> resource_objects after_batch \<and>
   Default \<lparr>pcd_engine = fst (snd follower_refresh), pcd_version = ''1.2''\<rparr> example_pod = example_admission"
proof -
  have "example_admission = Default \<lparr>pcd_engine = fst (snd (snd access_run)), pcd_version = ''1.2''\<rparr> example_pod"
    by (simp add: example_admission_def access_defaulter_def)
  moreover have "engine_reachable access_engine" unfolding access_engine_def by (rule engine_reachable.explicit)
  moreover have "ba_Resources access_batch \<noteq> []" by (simp add: access_batch_def NewBatch_def)
  moreover have "api_client_current (e_client access_engine) server_view"
    using srv.api_client_current_axioms by (simp add: access_engine_def NewInMemoryEngineWithNamespaces_def)
  ultimately show ?thesis
    using followers_admit_alike[OF access_pipeline access_eq _ _ _ order_ok_rev follower_refresh_ok
        same_specs_server[OF after_batch_facts(1)], of "''1.2''" example_pod] after_batch_facts(2) by simp
qed

end
