(* ===== verification/Collector.thy ===== *)
theory Collector
  imports BatchTypes
begin

text \<open>
  \<^verbatim>\<open>internal/reconciliation/debouncer.go\<close> and \<^verbatim>\<open>internal/reconciliation/collector.go\<close>: events are
  collected per resource, and a debouncer decides when the collected ones become a batch for the
  orchestrator. A buffered channel is the list of its contents together with its capacity; a
  send that would block yields \<open>None\<close>. The goroutines that share the collector are actions of a
  transition system, interleaved at the granularity of the mutex. Shown: no event is lost, also
  under back pressure; a batch has one event per resource; when collected events are certain to
  be sent, and when they are not.
\<close>

section \<open>The debouncer\<close>

text \<open>
  The goroutine's local variables \<^verbatim>\<open>startedTime\<close> and the ticker (running or stopped) are fields. The
  callback is a parameter of the tick.
\<close>

record BasicDebouncer =
  db_timeout :: nat
  db_timeChan :: "nat list"
  db_startedTime :: "nat option"
  db_ticking :: bool

definition timeChan_capacity :: nat where
  "timeChan_capacity = 100"

definition NewDebouncer :: "nat \<Rightarrow> BasicDebouncer" where
  "NewDebouncer timeout =
     \<lparr>db_timeout = timeout, db_timeChan = [], db_startedTime = None, db_ticking = False\<rparr>"

definition Debounce :: "nat \<Rightarrow> BasicDebouncer \<Rightarrow> BasicDebouncer option" where
  "Debounce now m =
     (if length (db_timeChan m) < timeChan_capacity then Some (m\<lparr>db_timeChan := db_timeChan m @ [now]\<rparr>)
      else None)"

text \<open>The two cases of the goroutine's \<^verbatim>\<open>select\<close>: a timestamp arrives, the ticker fires.\<close>

definition debouncer_timestamp :: "BasicDebouncer \<Rightarrow> BasicDebouncer option" where
  "debouncer_timestamp m =
     (case db_timeChan m of
        [] \<Rightarrow> None
      | timestamp # rest \<Rightarrow>
          (let m' = m\<lparr>db_timeChan := rest\<rparr>
           in if db_startedTime m' = None
              then Some (m'\<lparr>db_startedTime := Some timestamp, db_ticking := True\<rparr>)
              else Some m'))"

definition debouncer_tick :: "('s \<Rightarrow> 's option) \<Rightarrow> BasicDebouncer \<times> 's \<Rightarrow> (BasicDebouncer \<times> 's) option" where
  "debouncer_tick callback st =
     (let (m, s) = st
      in if db_ticking m then
           (case callback s of
              None \<Rightarrow> None
            | Some s' \<Rightarrow> Some (m\<lparr>db_ticking := False, db_startedTime := None\<rparr>, s'))
         else None)"

section \<open>The collector\<close>

record EventCollector =
  ec_eventMap :: "(NamespacedName, EventInfo) gomap"
  ec_maxBatchSize :: int
  ec_batchReadyCh :: "EventInfo list list"
  ec_batchTriggerCh :: nat
  ec_eventDebouncer :: BasicDebouncer

definition batchReadyCh_capacity :: nat where
  "batchReadyCh_capacity = 10"

definition batchTriggerCh_capacity :: nat where
  "batchTriggerCh_capacity = 1024"

definition NewEventCollector :: "nat \<Rightarrow> int \<Rightarrow> EventCollector" where
  "NewEventCollector debounceInterval maxBatchSize =
     \<lparr>ec_eventMap = [], ec_maxBatchSize = maxBatchSize, ec_batchReadyCh = [], ec_batchTriggerCh = 0,
      ec_eventDebouncer = NewDebouncer debounceInterval\<rparr>"

abbreviation event_key :: "EventInfo \<Rightarrow> NamespacedName" where
  "event_key event \<equiv> GetNamespacedName (ev_Resource event)"

text \<open>\<^verbatim>\<open>batchTriggerCh <- struct{}{}\<close>, also the callback of the debouncer.\<close>

definition send_trigger :: "EventCollector \<Rightarrow> EventCollector option" where
  "send_trigger ec =
     (if ec_batchTriggerCh ec < batchTriggerCh_capacity
      then Some (ec\<lparr>ec_batchTriggerCh := ec_batchTriggerCh ec + 1\<rparr>) else None)"

definition AddEvent :: "nat \<Rightarrow> EventInfo \<Rightarrow> EventCollector \<Rightarrow> EventCollector option" where
  "AddEvent now event ec =
     (let ec1 = ec\<lparr>ec_eventMap := map_put (event_key event) event (ec_eventMap ec)\<rparr>
      in case Debounce now (ec_eventDebouncer ec1) of
           None \<Rightarrow> None
         | Some d \<Rightarrow>
             (let ec2 = ec1\<lparr>ec_eventDebouncer := d\<rparr>
              in if int (length (ec_eventMap ec2)) \<ge> ec_maxBatchSize ec2 then send_trigger ec2 else Some ec2))"

definition collectEventsIntoBatch :: "go_order \<Rightarrow> EventCollector \<Rightarrow> EventInfo list option \<times> EventCollector" where
  "collectEventsIntoBatch \<omega> ec =
     (if length (ec_eventMap ec) = 0 then (None, ec)
      else (Some (map snd (go_range (o_key \<omega>) (ec_eventMap ec))), ec\<lparr>ec_eventMap := []\<rparr>))"

definition merge_event :: "EventInfo \<Rightarrow> (NamespacedName, EventInfo) gomap \<Rightarrow> (NamespacedName, EventInfo) gomap" where
  "merge_event event m =
     (case map_of m (event_key event) of
        None \<Rightarrow> map_put (event_key event) event m
      | Some existing \<Rightarrow>
          if ev_Generation event > ev_Generation existing then map_put (event_key event) event m else m)"

definition sendBatch :: "EventInfo list \<Rightarrow> EventCollector \<Rightarrow> EventCollector" where
  "sendBatch batch ec =
     (if length (ec_batchReadyCh ec) < batchReadyCh_capacity
      then ec\<lparr>ec_batchReadyCh := ec_batchReadyCh ec @ [batch]\<rparr>
      else ec\<lparr>ec_eventMap := fold merge_event batch (ec_eventMap ec)\<rparr>)"

definition FlushEvents :: "go_order \<Rightarrow> EventCollector \<Rightarrow> EventCollector" where
  "FlushEvents \<omega> ec =
     (case collectEventsIntoBatch \<omega> ec of
        (None, ec') \<Rightarrow> ec'
      | (Some batch, ec') \<Rightarrow> sendBatch batch ec')"

section \<open>The goroutines that share the collector\<close>

text \<open>
  \<^verbatim>\<open>FlushEvents\<close> takes the mutex twice, so other goroutines may run between collecting a batch and
  sending it: such a batch is in flight. Batches that the orchestrator has received and the events
  that were ever added are kept as history.
\<close>

record collector_state =
  cs_ec :: EventCollector
  cs_inflight :: "EventInfo list list"
  cs_received :: "EventInfo list list"
  cs_added :: "EventInfo list"

datatype collector_action =
    Add nat EventInfo            \<comment> \<open>a controller or the orchestrator adds an event\<close>
  | Timestamp                    \<comment> \<open>the debouncer receives a timestamp\<close>
  | Tick                         \<comment> \<open>the ticker of the debouncer fires\<close>
  | Trigger go_order             \<comment> \<open>\<open>Start\<close> receives a trigger and collects\<close>
  | Flush go_order               \<comment> \<open>the orchestrator collects\<close>
  | Send nat                     \<comment> \<open>a batch in flight is sent\<close>
  | Receive                      \<comment> \<open>the orchestrator receives a batch\<close>

definition collect_action :: "go_order \<Rightarrow> collector_state \<Rightarrow> collector_state" where
  "collect_action \<omega> s =
     (case collectEventsIntoBatch \<omega> (cs_ec s) of
        (None, ec') \<Rightarrow> s\<lparr>cs_ec := ec'\<rparr>
      | (Some batch, ec') \<Rightarrow> s\<lparr>cs_ec := ec', cs_inflight := cs_inflight s @ [batch]\<rparr>)"

fun collector_exec :: "collector_action \<Rightarrow> collector_state \<Rightarrow> collector_state option" where
  "collector_exec (Add now event) s =
     (case AddEvent now event (cs_ec s) of
        None \<Rightarrow> None | Some ec' \<Rightarrow> Some (s\<lparr>cs_ec := ec', cs_added := cs_added s @ [event]\<rparr>))"
| "collector_exec Timestamp s =
     (case debouncer_timestamp (ec_eventDebouncer (cs_ec s)) of
        None \<Rightarrow> None | Some d \<Rightarrow> Some (s\<lparr>cs_ec := (cs_ec s)\<lparr>ec_eventDebouncer := d\<rparr>\<rparr>))"
| "collector_exec Tick s =
     (case debouncer_tick send_trigger (ec_eventDebouncer (cs_ec s), cs_ec s) of
        None \<Rightarrow> None | Some (d, ec') \<Rightarrow> Some (s\<lparr>cs_ec := ec'\<lparr>ec_eventDebouncer := d\<rparr>\<rparr>))"
| "collector_exec (Trigger \<omega>) s =
     (if ec_batchTriggerCh (cs_ec s) > 0
      then Some (collect_action \<omega> (s\<lparr>cs_ec := (cs_ec s)\<lparr>ec_batchTriggerCh := ec_batchTriggerCh (cs_ec s) - 1\<rparr>\<rparr>))
      else None)"
| "collector_exec (Flush \<omega>) s = Some (collect_action \<omega> s)"
| "collector_exec (Send i) s =
     (if i < length (cs_inflight s)
      then Some (s\<lparr>cs_ec := sendBatch (cs_inflight s ! i) (cs_ec s),
                   cs_inflight := take i (cs_inflight s) @ drop (Suc i) (cs_inflight s)\<rparr>)
      else None)"
| "collector_exec Receive s =
     (case ec_batchReadyCh (cs_ec s) of
        [] \<Rightarrow> None
      | batch # rest \<Rightarrow>
          Some (s\<lparr>cs_ec := (cs_ec s)\<lparr>ec_batchReadyCh := rest\<rparr>, cs_received := cs_received s @ [batch]\<rparr>))"

definition collector_init :: "nat \<Rightarrow> int \<Rightarrow> collector_state" where
  "collector_init debounceInterval maxBatchSize =
     \<lparr>cs_ec = NewEventCollector debounceInterval maxBatchSize, cs_inflight = [], cs_received = [], cs_added = []\<rparr>"

text \<open>The runtime may pick any iteration order for a range over the map, but it visits every entry once.\<close>

fun action_ok :: "collector_action \<Rightarrow> bool" where
  "action_ok (Trigger \<omega>) = order_ok \<omega>"
| "action_ok (Flush \<omega>) = order_ok \<omega>"
| "action_ok _ = True"

inductive collector_reachable :: "collector_state \<Rightarrow> bool" where
  init: "collector_reachable (collector_init interval maxBatchSize)"
| step: "collector_reachable s \<Longrightarrow> action_ok a \<Longrightarrow> collector_exec a s = Some s' \<Longrightarrow> collector_reachable s'"

fun collector_run :: "collector_action list \<Rightarrow> collector_state \<Rightarrow> collector_state option" where
  "collector_run [] s = Some s"
| "collector_run (a # as) s = (case collector_exec a s of None \<Rightarrow> None | Some s' \<Rightarrow> collector_run as s')"

lemma collector_run_reachable:
  "collector_reachable s \<Longrightarrow> list_all action_ok as \<Longrightarrow> collector_run as s = Some s' \<Longrightarrow> collector_reachable s'"
  by (induction as arbitrary: s) (auto split: option.splits intro: collector_reachable.step)

section \<open>Well-formed collectors\<close>

text \<open>
  The map files every event under its own key, batches have one event per resource, the channels
  respect their capacities, and every event around was added.
\<close>

definition batch_ok :: "EventInfo list \<Rightarrow> bool" where
  "batch_ok batch \<longleftrightarrow> batch \<noteq> [] \<and> distinct (map event_key batch)"

definition event_map_ok :: "(NamespacedName, EventInfo) gomap \<Rightarrow> bool" where
  "event_map_ok m \<longleftrightarrow> map_wf m \<and> (\<forall>k ev. map_of m k = Some ev \<longrightarrow> event_key ev = k)"

definition ec_ok :: "EventCollector \<Rightarrow> bool" where
  "ec_ok ec \<longleftrightarrow> event_map_ok (ec_eventMap ec) \<and>
     length (ec_batchReadyCh ec) \<le> batchReadyCh_capacity \<and>
     ec_batchTriggerCh ec \<le> batchTriggerCh_capacity \<and>
     length (db_timeChan (ec_eventDebouncer ec)) \<le> timeChan_capacity \<and>
     (db_startedTime (ec_eventDebouncer ec) \<noteq> None \<longleftrightarrow> db_ticking (ec_eventDebouncer ec))"

definition events_around :: "collector_state \<Rightarrow> EventInfo set" where
  "events_around s = ran (map_of (ec_eventMap (cs_ec s))) \<union> \<Union> (set ` set (cs_inflight s)) \<union>
     \<Union> (set ` set (ec_batchReadyCh (cs_ec s))) \<union> \<Union> (set ` set (cs_received s))"

definition collector_ok :: "collector_state \<Rightarrow> bool" where
  "collector_ok s \<longleftrightarrow> ec_ok (cs_ec s) \<and> (\<forall>b \<in> set (cs_inflight s). batch_ok b) \<and>
     (\<forall>b \<in> set (ec_batchReadyCh (cs_ec s)). batch_ok b) \<and> (\<forall>b \<in> set (cs_received s). batch_ok b) \<and>
     events_around s \<subseteq> set (cs_added s)"

lemma event_map_put: "event_map_ok m \<Longrightarrow> event_map_ok (map_put (event_key ev) ev m)"
  by (auto simp: event_map_ok_def map_of_put)

lemma event_map_merge_event: "event_map_ok m \<Longrightarrow> event_map_ok (merge_event ev m)"
  by (simp add: merge_event_def event_map_put split: option.splits)

lemma event_map_merge: "event_map_ok m \<Longrightarrow> event_map_ok (fold merge_event batch m)"
  by (induction batch arbitrary: m) (simp_all add: event_map_merge_event)

lemma events_of_put: "ran (map_of (map_put k ev m)) \<subseteq> insert ev (ran (map_of m))"
  by (auto simp: map_of_put ran_def)

lemma events_of_merge: "ran (map_of (fold merge_event batch m)) \<subseteq> set batch \<union> ran (map_of m)"
proof (induction batch arbitrary: m)
  case (Cons ev batch)
  have "ran (map_of (merge_event ev m)) \<subseteq> insert ev (ran (map_of m))"
    using events_of_put[of "event_key ev" ev m] by (auto simp: merge_event_def split: option.splits)
  with Cons.IH[of "merge_event ev m"] show ?case by auto
qed simp

text \<open>What is collected is what was in the map, one event per key.\<close>

lemma collected_batch:
  assumes "order_ok \<omega>" "event_map_ok m"
  shows "set (map snd (go_range (o_key \<omega>) m)) = ran (map_of m)"
    and "m \<noteq> [] \<Longrightarrow> batch_ok (map snd (go_range (o_key \<omega>) m))"
proof -
  note perm = order_okD(4)[OF assms(1)]
  show "set (map snd (go_range (o_key \<omega>) m)) = ran (map_of m)"
    by (auto simp: set_go_range[OF perm] ran_def image_iff)
  have "map event_key (map snd (go_range (o_key \<omega>) m)) = map fst (go_range (o_key \<omega>) m)"
    using assms(2) by (auto simp: set_go_range[OF perm] event_map_ok_def simp del: map_fst_go_range)
  moreover have "distinct (map fst (go_range (o_key \<omega>) m))"
    using assms(2) distinct_go_range[OF perm] unfolding event_map_ok_def by blast
  moreover have "m \<noteq> [] \<Longrightarrow> go_range (o_key \<omega>) m \<noteq> []"
    by (simp add: go_range_def permuting_Nil_iff[OF perm])
  ultimately show "m \<noteq> [] \<Longrightarrow> batch_ok (map snd (go_range (o_key \<omega>) m))"
    unfolding batch_ok_def by (metis map_is_Nil_conv)
qed

lemma collect_action_ok:
  assumes "collector_ok s" "order_ok \<omega>"
  shows "collector_ok (collect_action \<omega> s)"
    and "events_around (collect_action \<omega> s) = events_around s" and "cs_added (collect_action \<omega> s) = cs_added s"
proof -
  note b = collected_batch[OF assms(2), of "ec_eventMap (cs_ec s)"]
  have m: "event_map_ok (ec_eventMap (cs_ec s))" using assms(1) by (simp add: collector_ok_def ec_ok_def)
  show added: "cs_added (collect_action \<omega> s) = cs_added s"
    by (simp add: collect_action_def collectEventsIntoBatch_def)
  show ev: "events_around (collect_action \<omega> s) = events_around s"
    using b(1)[OF m]
    by (auto simp: collect_action_def collectEventsIntoBatch_def events_around_def)
  show "collector_ok (collect_action \<omega> s)"
    using assms(1) b(2)[OF m] added ev
    by (auto simp: collector_ok_def ec_ok_def collect_action_def collectEventsIntoBatch_def event_map_ok_def)
qed

lemma AddEvent_cases:
  assumes "AddEvent now event ec = Some ec'"
  obtains n where "ec' = ec\<lparr>ec_eventMap := map_put (event_key event) event (ec_eventMap ec),
      ec_eventDebouncer := (ec_eventDebouncer ec)\<lparr>db_timeChan := db_timeChan (ec_eventDebouncer ec) @ [now]\<rparr>,
      ec_batchTriggerCh := n\<rparr>" "length (db_timeChan (ec_eventDebouncer ec)) < timeChan_capacity"
    "n = ec_batchTriggerCh ec \<or> n = ec_batchTriggerCh ec + 1 \<and> n \<le> batchTriggerCh_capacity"
  using assms that[of "ec_batchTriggerCh ec"] that[of "ec_batchTriggerCh ec + 1"]
  by (cases ec) (auto simp: AddEvent_def Debounce_def send_trigger_def Let_def split: if_splits option.splits)

text \<open>The debouncer's own steps: how the timestamps, the ticker and the triggers change.\<close>

lemma Timestamp_cases:
  assumes "collector_exec Timestamp s = Some s'" "ec_ok (cs_ec s)"
  obtains d where "s' = s\<lparr>cs_ec := (cs_ec s)\<lparr>ec_eventDebouncer := d\<rparr>\<rparr>"
    "db_timeChan (ec_eventDebouncer (cs_ec s)) \<noteq> []" "db_timeChan d = tl (db_timeChan (ec_eventDebouncer (cs_ec s)))"
    "db_ticking d" "db_startedTime d \<noteq> None"
  using assms that
  by (auto simp: debouncer_timestamp_def ec_ok_def Let_def split: option.splits list.splits if_splits)

lemma Tick_cases:
  assumes "collector_exec Tick s = Some s'"
  obtains d where "s' = s\<lparr>cs_ec := (cs_ec s)\<lparr>ec_batchTriggerCh := ec_batchTriggerCh (cs_ec s) + 1, ec_eventDebouncer := d\<rparr>\<rparr>"
    "db_timeChan d = db_timeChan (ec_eventDebouncer (cs_ec s))" "\<not> db_ticking d" "db_startedTime d = None"
    "ec_batchTriggerCh (cs_ec s) < batchTriggerCh_capacity" "db_ticking (ec_eventDebouncer (cs_ec s))"
  using assms that
  by (auto simp: debouncer_tick_def send_trigger_def Let_def split: option.splits if_splits)

lemma collector_exec_ok:
  assumes "collector_ok s" "action_ok a" "collector_exec a s = Some s'"
  shows "collector_ok s'"
proof (cases a)
  case (Add now event)
  then obtain ec' where "AddEvent now event (cs_ec s) = Some ec'"
    and s': "s' = s\<lparr>cs_ec := ec', cs_added := cs_added s @ [event]\<rparr>"
    using assms(3) by (auto split: option.splits)
  from this(1) show ?thesis
  proof (rule AddEvent_cases)
    fix n
    assume ec': "ec' = (cs_ec s)\<lparr>ec_eventMap := map_put (event_key event) event (ec_eventMap (cs_ec s)),
      ec_eventDebouncer := (ec_eventDebouncer (cs_ec s))\<lparr>db_timeChan := db_timeChan (ec_eventDebouncer (cs_ec s)) @ [now]\<rparr>,
      ec_batchTriggerCh := n\<rparr>"
      and n: "length (db_timeChan (ec_eventDebouncer (cs_ec s))) < timeChan_capacity"
      "n = ec_batchTriggerCh (cs_ec s) \<or> n = ec_batchTriggerCh (cs_ec s) + 1 \<and> n \<le> batchTriggerCh_capacity"
    have "ec_ok ec'"
      using assms(1) n event_map_put by (auto simp: collector_ok_def ec_ok_def ec')
    moreover have "events_around s' \<subseteq> insert event (events_around s)"
      using events_of_put[of "event_key event" event "ec_eventMap (cs_ec s)"]
      by (auto simp: events_around_def s' ec')
    ultimately show ?thesis
      using assms(1) by (auto simp: collector_ok_def s' ec')
  qed
next
  case Timestamp
  have "ec_ok (cs_ec s)" using assms(1) by (simp add: collector_ok_def)
  with assms(3)[unfolded Timestamp] show ?thesis
    by (rule Timestamp_cases) (use assms(1) in \<open>simp add: collector_ok_def ec_ok_def events_around_def, linarith\<close>)
next
  case Tick
  from assms(3)[unfolded Tick] show ?thesis
    by (rule Tick_cases) (use assms(1) in \<open>simp add: collector_ok_def ec_ok_def events_around_def\<close>)
next
  case (Trigger \<omega>)
  let ?s = "s\<lparr>cs_ec := (cs_ec s)\<lparr>ec_batchTriggerCh := ec_batchTriggerCh (cs_ec s) - 1\<rparr>\<rparr>"
  have "collector_ok ?s" using assms(1) by (auto simp: collector_ok_def ec_ok_def events_around_def)
  with Trigger assms(2,3) show ?thesis by (auto intro: collect_action_ok(1) split: if_splits)
next
  case (Flush \<omega>)
  with assms show ?thesis by (auto intro: collect_action_ok(1))
next
  case (Send i)
  then have i: "i < length (cs_inflight s)" and s': "s' = s\<lparr>cs_ec := sendBatch (cs_inflight s ! i) (cs_ec s),
      cs_inflight := take i (cs_inflight s) @ drop (Suc i) (cs_inflight s)\<rparr>"
    using assms(3) by (auto split: if_splits)
  have mem: "cs_inflight s ! i \<in> set (cs_inflight s)" using i by simp
  have rest: "set (take i (cs_inflight s) @ drop (Suc i) (cs_inflight s)) \<subseteq> set (cs_inflight s)"
    by (auto dest: in_set_takeD in_set_dropD)
  have "events_around s' \<subseteq> events_around s"
    using mem rest events_of_merge[of "cs_inflight s ! i" "ec_eventMap (cs_ec s)"]
    by (auto simp: s' sendBatch_def events_around_def)
  moreover have "ec_ok (cs_ec s')"
    using assms(1) event_map_merge by (auto simp: s' collector_ok_def ec_ok_def sendBatch_def)
  ultimately show ?thesis
    using assms(1) mem rest by (auto simp: s' collector_ok_def sendBatch_def)
next
  case Receive
  then have "events_around s' = events_around s" using assms(3) by (auto simp: events_around_def split: list.splits)
  with Receive assms(1,3) show ?thesis
    by (auto simp: collector_ok_def ec_ok_def split: list.splits)
qed

lemma collector_reachable_ok: "collector_reachable s \<Longrightarrow> collector_ok s"
proof (induction rule: collector_reachable.induct)
  case (init interval maxBatchSize)
  show ?case
    by (simp add: collector_init_def collector_ok_def ec_ok_def NewEventCollector_def NewDebouncer_def
        events_around_def event_map_ok_def)
next
  case (step s a s')
  then show ?case by (blast intro: collector_exec_ok)
qed


section \<open>No event is lost\<close>

text \<open>
  What is asked of an event may be about its resource and about how new it is: it is kept when the event
  is replaced by one of the same resource and at least the same generation.
\<close>

definition about_resource :: "(EventInfo \<Rightarrow> bool) \<Rightarrow> bool" where
  "about_resource P \<longleftrightarrow> (\<forall>x y. P x \<longrightarrow> event_key y = event_key x \<longrightarrow> ev_Generation x \<le> ev_Generation y \<longrightarrow> P y)"

lemma about_resource_simps [simp]:
  "about_resource (\<lambda>x. event_key x = k)"
  "about_resource (\<lambda>x. event_key x = k \<and> n \<le> ev_Generation x)"
  by (auto simp: about_resource_def)

lemma merge_event_keeps:
  assumes "event_map_ok m" "about_resource P" "x \<in> insert ev (ran (map_of m))" "P x"
  shows "\<exists>y \<in> ran (map_of (merge_event ev m)). P y"
proof (cases "map_of m (event_key ev)")
  case None
  then have "x \<in> ran (map_of (merge_event ev m))"
    using assms(3) by (auto simp: merge_event_def map_of_put ran_def) (metis option.distinct(1))
  with assms(4) show ?thesis by blast
next
  case (Some old)
  have key: "event_key old = event_key ev" using assms(1) Some by (simp add: event_map_ok_def)
  let ?newer = "ev_Generation ev > ev_Generation old"
  have kept: "(if ?newer then ev else old) \<in> ran (map_of (merge_event ev m))"
    using Some by (auto simp: merge_event_def map_of_put ran_def)
  have other: "x \<in> ran (map_of (merge_event ev m))" if "map_of m k = Some x" "k \<noteq> event_key ev" for k
    using that Some by (auto simp: merge_event_def map_of_put ran_def)
  from assms(3) consider "x = ev" | "x = old" | k where "map_of m k = Some x" "k \<noteq> event_key ev"
    using Some by (auto simp: ran_def) (metis option.inject)
  then show ?thesis
  proof cases
    case 1
    have "P (if ?newer then ev else old)" using assms(2,4) 1 key by (auto simp: about_resource_def)
    with kept show ?thesis by blast
  next
    case 2
    have "P (if ?newer then ev else old)" using assms(2,4) 2 key by (auto simp: about_resource_def)
    with kept show ?thesis by blast
  next
    case 3
    with other assms(4) show ?thesis by blast
  qed
qed

lemma merge_keeps:
  assumes "event_map_ok m" "about_resource P" "x \<in> set batch \<union> ran (map_of m)" "P x"
  shows "\<exists>y \<in> ran (map_of (fold merge_event batch m)). P y"
  using assms
proof (induction batch arbitrary: m x)
  case (Cons ev batch)
  have ok: "event_map_ok (merge_event ev m)" by (rule event_map_merge_event[OF Cons.prems(1)])
  show ?case
  proof (cases "x \<in> set batch")
    case True
    with Cons.IH[OF ok Cons.prems(2) _ Cons.prems(4)] show ?thesis by simp
  next
    case False
    then have "x \<in> insert ev (ran (map_of m))" using Cons.prems(3) by simp
    from merge_event_keeps[OF Cons.prems(1,2) this Cons.prems(4)] obtain y where
      "y \<in> ran (map_of (merge_event ev m))" "P y" by blast
    with Cons.IH[OF ok Cons.prems(2), of y] show ?thesis by simp
  qed
qed auto

lemma exec_keeps:
  assumes "collector_ok s" "action_ok a" "collector_exec a s = Some s'" "about_resource P"
    and "\<exists>x \<in> events_around s. P x" and "\<And>now e. a = Add now e \<Longrightarrow> \<exists>x. P x \<and> event_key x = event_key e \<Longrightarrow> P e"
  shows "\<exists>x \<in> events_around s'. P x"
proof -
  from assms(5) obtain x where x: "x \<in> events_around s" "P x" by blast
  have same: ?thesis if "events_around s \<subseteq> events_around s'" using that x by blast
  show ?thesis
  proof (cases a)
    case (Add now event)
    then obtain ec' where add: "AddEvent now event (cs_ec s) = Some ec'"
      and s': "s' = s\<lparr>cs_ec := ec', cs_added := cs_added s @ [event]\<rparr>"
      using assms(3) by (auto split: option.splits)
    from add have em: "ec_eventMap ec' = map_put (event_key event) event (ec_eventMap (cs_ec s))"
      "ec_batchReadyCh ec' = ec_batchReadyCh (cs_ec s)"
      by (auto elim!: AddEvent_cases)
    show ?thesis
    proof (cases "event_key x = event_key event")
      case True
      have "P event" using assms(6)[OF Add] x(2) True by blast
      moreover have "event \<in> events_around s'"
        by (auto simp: events_around_def s' em map_of_put ran_def)
      ultimately show ?thesis by blast
    next
      case False
      have "event_map_ok (ec_eventMap (cs_ec s))" using assms(1) by (simp add: collector_ok_def ec_ok_def)
      then have "x \<in> ran (map_of (ec_eventMap (cs_ec s))) \<Longrightarrow> x \<in> ran (map_of (ec_eventMap ec'))"
        using False by (auto simp: em map_of_put ran_def event_map_ok_def)
      with x(1) have "x \<in> events_around s'" by (auto simp: events_around_def s' em(2))
      with x(2) show ?thesis by blast
    qed
  next
    case (Trigger \<omega>)
    let ?s = "s\<lparr>cs_ec := (cs_ec s)\<lparr>ec_batchTriggerCh := ec_batchTriggerCh (cs_ec s) - 1\<rparr>\<rparr>"
    have "collector_ok ?s" "events_around ?s = events_around s"
      using assms(1) by (auto simp: collector_ok_def ec_ok_def events_around_def)
    with Trigger assms(2,3) collect_action_ok(2)[of ?s \<omega>] show ?thesis by (intro same) (auto split: if_splits)
  next
    case (Flush \<omega>)
    with assms(1-3) collect_action_ok(2)[of s \<omega>] show ?thesis by (intro same) auto
  next
    case (Send i)
    then have i: "i < length (cs_inflight s)" and s': "s' = s\<lparr>cs_ec := sendBatch (cs_inflight s ! i) (cs_ec s),
        cs_inflight := take i (cs_inflight s) @ drop (Suc i) (cs_inflight s)\<rparr>"
      using assms(3) by (auto split: if_splits)
    have split: "set (cs_inflight s) = insert (cs_inflight s ! i) (set (take i (cs_inflight s) @ drop (Suc i) (cs_inflight s)))"
      by (subst id_take_nth_drop[OF i]) auto
    have m: "event_map_ok (ec_eventMap (cs_ec s))" using assms(1) by (simp add: collector_ok_def ec_ok_def)
    show ?thesis
    proof (cases "length (ec_batchReadyCh (cs_ec s)) < batchReadyCh_capacity")
      case True
      then show ?thesis by (intro same) (use split in \<open>auto simp: events_around_def s' sendBatch_def\<close>)
    next
      case False
      show ?thesis
      proof (cases "x \<in> set (cs_inflight s ! i) \<union> ran (map_of (ec_eventMap (cs_ec s)))")
        case True
        from merge_keeps[OF m assms(4) this x(2)] show ?thesis
          using False by (auto simp: events_around_def s' sendBatch_def)
      next
        case False': False
        with x(1) split have "x \<in> events_around s'"
          using False by (auto simp: events_around_def s' sendBatch_def)
        with x(2) show ?thesis by blast
      qed
    qed
  next
    case Timestamp
    have "ec_ok (cs_ec s)" using assms(1) by (simp add: collector_ok_def)
    with assms(3)[unfolded Timestamp] have "events_around s' = events_around s"
      by (rule Timestamp_cases) (simp add: events_around_def)
    then show ?thesis by (intro same) simp
  next
    case Tick
    from assms(3)[unfolded Tick] have "events_around s' = events_around s"
      by (rule Tick_cases) (simp add: events_around_def)
    then show ?thesis by (intro same) simp
  next
    case Receive
    with assms(3) have "events_around s' = events_around s"
      by (auto simp: events_around_def split: list.splits)
    then show ?thesis by (intro same) simp
  qed
qed

lemma exec_added:
  "collector_exec a s = Some s' \<Longrightarrow> cs_added s' = cs_added s @ (case a of Add now event \<Rightarrow> [event] | _ \<Rightarrow> [])"
  by (cases a) (auto simp: collect_action_def split: option.splits if_splits list.splits prod.splits)

lemma AddEvent_collects:
  "AddEvent now event ec = Some ec' \<Longrightarrow> map_of (ec_eventMap ec') (event_key event) = Some event"
  by (auto elim!: AddEvent_cases simp: map_of_put)

text \<open>The same state when the first \<open>n\<close> batches that were received are forgotten.\<close>

definition since :: "nat \<Rightarrow> collector_state \<Rightarrow> collector_state" where
  "since n s = s\<lparr>cs_received := drop n (cs_received s)\<rparr>"

lemma exec_since:
  assumes "collector_exec a s = Some s'" "n \<le> length (cs_received s)"
  shows "collector_exec a (since n s) = Some (since n s')" "n \<le> length (cs_received s')"
  using assms by (cases a; auto simp: since_def collect_action_def split: option.splits if_splits list.splits prod.splits)+

lemma since_ok: "collector_ok s \<Longrightarrow> collector_ok (since n s)"
  by (auto simp: collector_ok_def since_def events_around_def dest!: in_set_dropD)

lemma run_keeps:
  assumes "collector_ok s" "list_all action_ok as" "collector_run as s = Some s'" "n \<le> length (cs_received s)"
    and "about_resource P" "\<exists>x \<in> events_around (since n s). P x"
    and "\<And>e. e \<in> set (drop (length (cs_added s)) (cs_added s')) \<Longrightarrow> \<exists>x. P x \<and> event_key x = event_key e \<Longrightarrow> P e"
  shows "(\<exists>x \<in> events_around (since n s'). P x) \<and> collector_ok s' \<and> (\<exists>es. cs_added s' = cs_added s @ es)"
  using assms(1-4,6,7)
proof (induction as arbitrary: s)
  case (Cons a as)
  then obtain s1 where s1: "collector_exec a s = Some s1" "collector_run as s1 = Some s'" by (auto split: option.splits)
  have ok: "action_ok a" "list_all action_ok as" using Cons.prems(2) by simp_all
  have ok1: "collector_ok s1" by (rule collector_exec_ok[OF Cons.prems(1) ok(1) s1(1)])
  note n = exec_since[OF s1(1) Cons.prems(4)]
  note add = exec_added[OF s1(1)]
  obtain es where es: "cs_added s' = cs_added s1 @ es"
  proof -
    have "\<exists>es. cs_added s' = cs_added t @ es" if "collector_run bs t = Some s'" for bs t
      using that
    proof (induction bs arbitrary: t)
      case (Cons b bs)
      then obtain u where "collector_exec b t = Some u" "collector_run bs u = Some s'" by (auto split: option.splits)
      with Cons.IH exec_added show ?case by fastforce
    qed simp
    with s1(2) that show ?thesis by blast
  qed
  have "\<exists>x \<in> events_around (since n s1). P x"
  proof (rule exec_keeps[OF since_ok[OF Cons.prems(1)] ok(1) n(1) assms(5) Cons.prems(5)])
    fix now e assume "a = Add now e" "\<exists>x. P x \<and> event_key x = event_key e"
    then show "P e" using Cons.prems(6)[of e] by (simp add: es add)
  qed
  from Cons.IH[OF ok1 ok(2) s1(2) n(2) this] Cons.prems(6) show ?case by (auto simp: es add)
qed auto

text \<open>
  C9. No change is forgotten: after an event was added, whatever the interleaving of the controllers, the
  debouncer, the collector and the orchestrator, and however often a full channel sends a batch back, an
  event of its resource is waiting, in flight, in the channel, or in a batch that the orchestrator has received
  since. As long as no event of an older generation is added for the resource (deleting and recreating
  it starts the generations anew), one of these is at least as new. Batches never have two events of
  one resource, and the channels stay within their capacities.
\<close>

theorem no_event_lost:
  assumes "collector_reachable s" and "collector_exec (Add now ev) s = Some s1"
    and "list_all action_ok as" and "collector_run as s1 = Some s2"
  shows "(\<exists>x \<in> events_around (since (length (cs_received s)) s2). event_key x = event_key ev) \<and>
    ((\<forall>e \<in> set (drop (length (cs_added s1)) (cs_added s2)). event_key e = event_key ev \<longrightarrow> ev_Generation ev \<le> ev_Generation e) \<longrightarrow>
      (\<exists>x \<in> events_around (since (length (cs_received s)) s2). event_key x = event_key ev \<and> ev_Generation ev \<le> ev_Generation x)) \<and>
    collector_ok s2"
proof -
  let ?n = "length (cs_received s)"
  have ok: "collector_ok s1" using collector_exec_ok[OF collector_reachable_ok[OF assms(1)] _ assms(2)] by simp
  have n: "?n \<le> length (cs_received s1)" using exec_since(2)[OF assms(2)] by simp
  have ev: "ev \<in> events_around (since ?n s1)"
    using assms(2) by (auto simp: events_around_def since_def ran_def dest!: AddEvent_collects split: option.splits)
  note keeps = run_keeps[OF ok assms(3,4) n]
  have 1: "(\<exists>x \<in> events_around (since ?n s2). event_key x = event_key ev) \<and> collector_ok s2"
    using keeps[OF about_resource_simps(1)[of "event_key ev"]] ev by fastforce
  have "\<exists>x \<in> events_around (since ?n s2). event_key x = event_key ev \<and> ev_Generation ev \<le> ev_Generation x"
    if "\<forall>e \<in> set (drop (length (cs_added s1)) (cs_added s2)). event_key e = event_key ev \<longrightarrow> ev_Generation ev \<le> ev_Generation e"
    using keeps[OF about_resource_simps(2)[of "event_key ev" "ev_Generation ev"]] ev that by fastforce
  with 1 show ?thesis by blast
qed


section \<open>Collected events are sent\<close>

text \<open>
  Something will make the collector flush: a timestamp on its way to the debouncer, a running
  ticker, or a trigger in the channel.
\<close>

definition armed :: "EventCollector \<Rightarrow> bool" where
  "armed ec \<longleftrightarrow> db_timeChan (ec_eventDebouncer ec) \<noteq> [] \<or> db_ticking (ec_eventDebouncer ec) \<or> ec_batchTriggerCh ec > 0"

text \<open>The actions of the debouncer and the collector alone, without the ones of the environment.\<close>

fun internal :: "collector_action \<Rightarrow> bool" where
  "internal Timestamp = True"
| "internal Tick = True"
| "internal (Trigger _) = True"
| "internal (Send _) = True"
| "internal _ = False"

lemma triggered_events_sent:
  assumes "ec_batchTriggerCh (cs_ec s) > 0" "ec_eventMap (cs_ec s) \<noteq> []"
    and "length (ec_batchReadyCh (cs_ec s)) < batchReadyCh_capacity"
  shows "\<exists>s'. collector_run [Trigger \<omega>, Send (length (cs_inflight s))] s = Some s' \<and>
    ec_batchReadyCh (cs_ec s') = ec_batchReadyCh (cs_ec s) @ [map snd (go_range (o_key \<omega>) (ec_eventMap (cs_ec s)))] \<and>
    ec_eventMap (cs_ec s') = []"
  using assms by (simp add: collect_action_def collectEventsIntoBatch_def sendBatch_def)

lemma ticking_events_sent:
  assumes "db_ticking (ec_eventDebouncer (cs_ec s))" "ec_batchTriggerCh (cs_ec s) = 0" "ec_eventMap (cs_ec s) \<noteq> []"
    "length (ec_batchReadyCh (cs_ec s)) < batchReadyCh_capacity"
  shows "\<exists>s'. collector_run [Tick, Trigger \<omega>, Send (length (cs_inflight s))] s = Some s' \<and>
    ec_batchReadyCh (cs_ec s') = ec_batchReadyCh (cs_ec s) @ [map snd (go_range (o_key \<omega>) (ec_eventMap (cs_ec s)))] \<and>
    ec_eventMap (cs_ec s') = []"
  using assms
  by (simp add: debouncer_tick_def send_trigger_def batchTriggerCh_capacity_def collect_action_def
      collectEventsIntoBatch_def sendBatch_def)

lemma run_Cons: "collector_exec a s = Some s1 \<Longrightarrow> collector_run (a # as) s = collector_run as s1"
  by simp

text \<open>Which steps these are depends on how far the debouncer has come.\<close>

lemma armed_run:
  assumes "collector_reachable s" and "order_ok \<omega>" and "armed (cs_ec s)" and "ec_eventMap (cs_ec s) \<noteq> []"
    and "length (ec_batchReadyCh (cs_ec s)) < batchReadyCh_capacity"
  shows "\<exists>as s'. list_all internal as \<and> list_all action_ok as \<and> length as \<le> 4 \<and> collector_run as s = Some s' \<and>
    ec_batchReadyCh (cs_ec s') = ec_batchReadyCh (cs_ec s) @ [map snd (go_range (o_key \<omega>) (ec_eventMap (cs_ec s)))] \<and>
    ec_eventMap (cs_ec s') = []"
proof -
  let ?b = "map snd (go_range (o_key \<omega>) (ec_eventMap (cs_ec s)))"
  let ?goal = "\<lambda>as. \<exists>s'. collector_run as s = Some s' \<and>
    ec_batchReadyCh (cs_ec s') = ec_batchReadyCh (cs_ec s) @ [?b] \<and> ec_eventMap (cs_ec s') = []"
  note ok = collector_reachable_ok[OF assms(1), unfolded collector_ok_def, THEN conjunct1]
  have "\<exists>as. list_all internal as \<and> list_all action_ok as \<and> length as \<le> 4 \<and> ?goal as"
  proof (cases "ec_batchTriggerCh (cs_ec s) > 0")
    case True
    from triggered_events_sent[OF this assms(4,5)] assms(2) show ?thesis
      by (intro exI[of _ "[Trigger \<omega>, Send (length (cs_inflight s))]"] conjI) simp_all
  next
    case False
    then have no_trigger: "ec_batchTriggerCh (cs_ec s) = 0" by simp
    show ?thesis
    proof (cases "db_ticking (ec_eventDebouncer (cs_ec s))")
      case True
      from ticking_events_sent[OF this no_trigger assms(4,5)] assms(2) show ?thesis
        by (intro exI[of _ "[Tick, Trigger \<omega>, Send (length (cs_inflight s))]"] conjI) simp_all
    next
      case False
      with assms(3) no_trigger obtain t ts where t: "db_timeChan (ec_eventDebouncer (cs_ec s)) = t # ts"
        by (auto simp: armed_def neq_Nil_conv)
      with False ok obtain s1 where s1: "collector_exec Timestamp s = Some s1"
        "db_ticking (ec_eventDebouncer (cs_ec s1))" "ec_batchTriggerCh (cs_ec s1) = 0"
        "ec_eventMap (cs_ec s1) = ec_eventMap (cs_ec s)"
        "ec_batchReadyCh (cs_ec s1) = ec_batchReadyCh (cs_ec s)"
        by (auto simp: debouncer_timestamp_def ec_ok_def no_trigger)
      from ticking_events_sent[OF s1(2,3), of \<omega>] s1(4,5) assms(2,4,5)
      show ?thesis
        by (intro exI[of _ "[Timestamp, Tick, Trigger \<omega>, Send (length (cs_inflight s1))]"] conjI) (simp_all only: run_Cons[OF s1(1)], simp_all)
    qed
  qed
  then show ?thesis by blast
qed

text \<open>
  Progress: as long as the collector is armed and the channel to the orchestrator has room, at
  most four steps of the debouncer and the collector put every collected event into the channel as
  one batch, in whatever order the runtime ranges over the map.
\<close>

theorem armed_events_sent:
  assumes "collector_reachable s" and "order_ok \<omega>" and "armed (cs_ec s)" and "ec_eventMap (cs_ec s) \<noteq> []"
    and "length (ec_batchReadyCh (cs_ec s)) < batchReadyCh_capacity"
  shows "\<exists>as s' batch. list_all internal as \<and> list_all action_ok as \<and> length as \<le> 4 \<and>
    collector_run as s = Some s' \<and> ec_batchReadyCh (cs_ec s') = ec_batchReadyCh (cs_ec s) @ [batch] \<and>
    set batch = ran (map_of (ec_eventMap (cs_ec s))) \<and> ec_eventMap (cs_ec s') = []"
proof -
  have "event_map_ok (ec_eventMap (cs_ec s))"
    using collector_reachable_ok[OF assms(1)] by (simp add: collector_ok_def ec_ok_def)
  with armed_run[OF assms] collected_batch(1)[OF assms(2)] show ?thesis by metis
qed

text \<open>Adding an event arms the collector.\<close>

lemma AddEvent_arms:
  assumes "AddEvent now event ec = Some ec'"
  shows "armed ec'"
  using assms by (auto elim!: AddEvent_cases simp: armed_def)

text \<open>
  C36. Back pressure is the only way to leave events waiting with nothing that will flush them: a
  step from a collector that is armed or empty to one that is neither is the sending of a batch into
  a full channel.
\<close>

theorem disarmed_only_by_backpressure:
  assumes "collector_reachable s" and "collector_exec a s = Some s'"
    and "ec_eventMap (cs_ec s) = [] \<or> armed (cs_ec s)" and "ec_eventMap (cs_ec s') \<noteq> []" and "\<not> armed (cs_ec s')"
  shows "\<exists>i. a = Send i \<and> length (ec_batchReadyCh (cs_ec s)) = batchReadyCh_capacity"
proof (cases a)
  case (Add now event)
  with assms(2) obtain ec' where "AddEvent now event (cs_ec s) = Some ec'" "cs_ec s' = ec'" by (auto split: option.splits)
  then have "armed (cs_ec s')" by (simp add: AddEvent_arms)
  with assms(5) show ?thesis by blast
next
  case Timestamp
  have "ec_ok (cs_ec s)" using collector_reachable_ok[OF assms(1)] by (simp add: collector_ok_def)
  with assms(2)[unfolded Timestamp] have "armed (cs_ec s')" by (rule Timestamp_cases) (simp add: armed_def)
  with assms(5) show ?thesis by blast
next
  case Tick
  from assms(2)[unfolded Tick] have "armed (cs_ec s')" by (rule Tick_cases) (simp add: armed_def)
  with assms(5) show ?thesis by blast
next
  case (Send i)
  with assms(2-5) have full: "\<not> length (ec_batchReadyCh (cs_ec s)) < batchReadyCh_capacity"
    by (auto simp: sendBatch_def armed_def split: if_splits)
  have "length (ec_batchReadyCh (cs_ec s)) \<le> batchReadyCh_capacity"
    using collector_reachable_ok[OF assms(1)] by (simp add: collector_ok_def ec_ok_def)
  with full Send show ?thesis by simp
next
  case Receive
  with assms(2-5) show ?thesis by (auto simp: armed_def split: list.splits)
qed (use assms(2,4) in \<open>auto simp: collect_action_def collectEventsIntoBatch_def split: if_splits\<close>)

section \<open>Examples\<close>

definition example_event :: "string \<Rightarrow> EventInfo" where
  "example_event name = NewEventInfo 0 (NewWSAResource (example_wsa ''team'' name (scope_of [''p1''] []) no_permissions))
     EventTypeUpdate"

definition flushed :: "collector_action list" where
  "flushed = [Add 0 (example_event ''a''), Timestamp, Tick, Trigger order_id, Send 0]"

definition stall_run :: "collector_action list" where
  "stall_run = concat (replicate 11 flushed) @ replicate 10 Receive"

definition stalled :: "collector_state" where
  "stalled = the (collector_run stall_run (collector_init 500 100))"

lemma stalled_reachable: "collector_reachable stalled"
proof -
  have "collector_run stall_run (collector_init 500 100) \<noteq> None" by code_simp
  then have "collector_run stall_run (collector_init 500 100) = Some stalled" by (simp add: stalled_def)
  moreover have "list_all action_ok stall_run"
    by (simp add: stall_run_def flushed_def eval_nat_numeral)
  ultimately show ?thesis using collector_run_reachable collector_reachable.init by blast
qed

text \<open>
  C37. A batch that comes back from a full channel can stall: in a reachable state the channel is empty
  again, nothing is in flight, an event waits in the map, and neither the debouncer nor the
  collector can take a step; only a new event or a trigger of the orchestrator would send it.
\<close>

theorem merged_back_events_stall:
  "collector_reachable stalled \<and> ec_eventMap (cs_ec stalled) \<noteq> [] \<and> ec_batchReadyCh (cs_ec stalled) = [] \<and>
   cs_inflight stalled = [] \<and> (\<forall>a. internal a \<longrightarrow> collector_exec a stalled = None)"
proof -
  have 1: "ec_eventMap (cs_ec stalled) \<noteq> []" by code_simp
  have 2: "ec_batchReadyCh (cs_ec stalled) = []" by code_simp
  have 3: "cs_inflight stalled = []" by code_simp
  have 4: "ec_batchTriggerCh (cs_ec stalled) = 0" by code_simp
  have 5: "db_timeChan (ec_eventDebouncer (cs_ec stalled)) = []" by code_simp
  have 6: "\<not> db_ticking (ec_eventDebouncer (cs_ec stalled))" by code_simp
  have "collector_exec a stalled = None" if "internal a" for a
    using that 3 4 5 6 by (cases a) (simp_all add: debouncer_timestamp_def debouncer_tick_def)
  with stalled_reachable 1 2 3 show ?thesis by blast
qed


lemma run_reachable:
  assumes "collector_run as (collector_init 500 100) \<noteq> None" "list_all action_ok as"
  shows "collector_reachable (the (collector_run as (collector_init 500 100)))"
  using assms collector_run_reachable[OF collector_reachable.init] by fastforce

theorem merged_back_events_stall_witness:
  "collector_exec Tick stalled = None \<and> ec_eventMap (cs_ec stalled) \<noteq> []"
  using merged_back_events_stall internal.simps(2) by blast

theorem no_event_lost_witness:
  "\<exists>x \<in> events_around (since 0 stalled). event_key x = event_key (example_event ''a'') \<and>
     ev_Generation (example_event ''a'') \<le> ev_Generation x"
proof -
  let ?s = "collector_init 500 100"
  have "collector_exec (Add 0 (example_event ''a'')) ?s \<noteq> None" by code_simp
  then obtain s1 where s1: "collector_exec (Add 0 (example_event ''a'')) ?s = Some s1" by blast
  have "collector_run stall_run ?s \<noteq> None" by code_simp
  then have "collector_run stall_run ?s = Some stalled" by (simp add: stalled_def)
  moreover have "stall_run = Add 0 (example_event ''a'') # tl stall_run"
    by (simp add: stall_run_def flushed_def eval_nat_numeral)
  ultimately have run: "collector_run (tl stall_run) s1 = Some stalled" using s1 by (metis collector_run.simps(2) option.simps(5))
  have ok: "list_all action_ok (tl stall_run)" by (simp add: stall_run_def flushed_def eval_nat_numeral)
  have "cs_added stalled = replicate 11 (example_event ''a'')" by code_simp
  then have "\<forall>e \<in> set (drop (length (cs_added s1)) (cs_added stalled)). e = example_event ''a''" by simp
  with no_event_lost[OF collector_reachable.init s1 ok run] show ?thesis by (auto simp: collector_init_def)
qed

definition one_event :: collector_state where
  "one_event = the (collector_run [Add 0 (example_event ''a'')] (collector_init 500 100))"

theorem armed_events_sent_witness:
  "\<exists>as s' batch. list_all internal as \<and> length as \<le> 4 \<and> collector_run as one_event = Some s' \<and>
     ec_batchReadyCh (cs_ec s') = [batch] \<and> set batch = {example_event ''a''}"
proof -
  have m: "ec_eventMap (cs_ec one_event) = [(event_key (example_event ''a''), example_event ''a'')]" by code_simp
  have 1: "armed (cs_ec one_event)" unfolding armed_def by code_simp
  have 3: "ec_batchReadyCh (cs_ec one_event) = []" by code_simp
  have "collector_run [Add 0 (example_event ''a'')] (collector_init 500 100) \<noteq> None" by code_simp
  then have "collector_reachable one_event" unfolding one_event_def by (rule run_reachable) simp
  from armed_events_sent[OF this order_ok_rev 1] obtain as s' batch where
    "list_all internal as" "length as \<le> 4" "collector_run as one_event = Some s'"
    "ec_batchReadyCh (cs_ec s') = [batch]" "set batch = ran (map_of (ec_eventMap (cs_ec one_event)))"
    using m 3 by (auto simp: batchReadyCh_capacity_def)
  then show ?thesis using m by auto
qed

definition before_stall :: collector_state where
  "before_stall = the (collector_run (concat (replicate 10 flushed) @ butlast flushed) (collector_init 500 100))"

theorem disarmed_only_by_backpressure_witness:
  "\<exists>s' i. collector_exec (Send 0) before_stall = Some s' \<and> Send 0 = Send i \<and>
     length (ec_batchReadyCh (cs_ec before_stall)) = batchReadyCh_capacity"
proof -
  have "collector_run (concat (replicate 10 flushed) @ butlast flushed) (collector_init 500 100) \<noteq> None" by code_simp
  then have r: "collector_reachable before_stall"
    unfolding before_stall_def by (rule run_reachable) (simp add: flushed_def eval_nat_numeral)
  have "collector_exec (Send 0) before_stall \<noteq> None" by code_simp
  then obtain s' where s': "collector_exec (Send 0) before_stall = Some s'" by blast
  have 1: "ec_eventMap (cs_ec before_stall) = []" by code_simp
  have "ec_eventMap (cs_ec (the (collector_exec (Send 0) before_stall))) \<noteq> []" by code_simp
  then have 2: "ec_eventMap (cs_ec s') \<noteq> []" unfolding s' option.sel .
  have "\<not> armed (cs_ec (the (collector_exec (Send 0) before_stall)))" unfolding armed_def by code_simp
  then have 3: "\<not> armed (cs_ec s')" unfolding s' option.sel .
  from disarmed_only_by_backpressure[OF r s' disjI1[OF 1] 2 3] s' show ?thesis by blast
qed

end
