(* ===== verification/Orchestrator.thy ===== *)
theory Orchestrator
  imports Guarantees Collector
begin

text \<open>
  \<^verbatim>\<open>internal/reconciliation/batch_queue.go\<close> and the rest of
  \<^verbatim>\<open>internal/reconciliation/orchestrator.go\<close>: the retry queue on top of the rate limited work queue of
  \<^verbatim>\<open>client-go\<close> (a parameter, with its contract as a locale), retries, and what happens when they are
  used up. Batches are processed one at a time here; theory \<open>Race\<close> lets those of the two loops
  overlap. Shown: the retry counters stay within the limit, the queue never hands out a batch
  it does not know, every batch is settled after at most four attempts, and a batch that is given
  up leaves its resources queued for another one.
\<close>

section \<open>The work queue\<close>

text \<open>
  The methods of \<^verbatim>\<open>TypedRateLimitingInterface\<close> that are used. \<^verbatim>\<open>Get\<close> blocks while there is no item;
  then it has no result.
\<close>

record 'q workqueue =
  wq_Add :: "BatchID \<Rightarrow> 'q \<Rightarrow> 'q"
  wq_AddRateLimited :: "BatchID \<Rightarrow> 'q \<Rightarrow> 'q"
  wq_Get :: "'q \<Rightarrow> ((BatchID \<times> bool) \<times> 'q) option"
  wq_Done :: "BatchID \<Rightarrow> 'q \<Rightarrow> 'q"
  wq_Forget :: "BatchID \<Rightarrow> 'q \<Rightarrow> 'q"
  wq_NumRequeues :: "BatchID \<Rightarrow> 'q \<Rightarrow> nat"
  wq_ShutDown :: "'q \<Rightarrow> 'q"

section \<open>The batch queue\<close>

text \<open>A nil pointer to a batch is \<open>None\<close>.\<close>

record 'q batchQueue =
  bq_queue :: 'q
  bq_batches :: "(BatchID, Batch) gomap"

definition NewBatchQueue :: "'q \<Rightarrow> 'q batchQueue" where
  "NewBatchQueue queue = \<lparr>bq_queue = queue, bq_batches = []\<rparr>"

definition bq_Add :: "'q workqueue \<Rightarrow> Batch option \<Rightarrow> 'q batchQueue \<Rightarrow> 'q batchQueue" where
  "bq_Add W batch q = (case batch of
     None \<Rightarrow> q
   | Some b \<Rightarrow> q\<lparr>bq_batches := map_put (ba_ID b) b (bq_batches q), bq_queue := wq_Add W (ba_ID b) (bq_queue q)\<rparr>)"

definition bq_AddRateLimited :: "'q workqueue \<Rightarrow> Batch option \<Rightarrow> 'q batchQueue \<Rightarrow> 'q batchQueue" where
  "bq_AddRateLimited W batch q = (case batch of
     None \<Rightarrow> q
   | Some b \<Rightarrow> q\<lparr>bq_batches := map_put (ba_ID b) b (bq_batches q),
                   bq_queue := wq_AddRateLimited W (ba_ID b) (bq_queue q)\<rparr>)"

definition bq_Get :: "'q workqueue \<Rightarrow> 'q batchQueue \<Rightarrow> ((Batch option \<times> bool) \<times> 'q batchQueue) option" where
  "bq_Get W q =
     (case wq_Get W (bq_queue q) of
        None \<Rightarrow> None
      | Some ((i, shutdown), queue) \<Rightarrow>
          (let q1 = q\<lparr>bq_queue := queue\<rparr>
           in if shutdown then Some ((None, True), q1)
              else (case map_of (bq_batches q1) i of
                      None \<Rightarrow> Some ((None, False), q1\<lparr>bq_queue := wq_Forget W i (wq_Done W i (bq_queue q1))\<rparr>)
                    | Some batch \<Rightarrow> Some ((Some batch, False), q1))))"

definition bq_Done :: "'q workqueue \<Rightarrow> Batch option \<Rightarrow> 'q batchQueue \<Rightarrow> 'q batchQueue" where
  "bq_Done W batch q = (case batch of
     None \<Rightarrow> q | Some b \<Rightarrow> q\<lparr>bq_queue := wq_Done W (ba_ID b) (bq_queue q)\<rparr>)"

definition bq_Forget :: "'q workqueue \<Rightarrow> Batch option \<Rightarrow> 'q batchQueue \<Rightarrow> 'q batchQueue" where
  "bq_Forget W batch q = (case batch of
     None \<Rightarrow> q
   | Some b \<Rightarrow> q\<lparr>bq_batches := AList.delete (ba_ID b) (bq_batches q),
                   bq_queue := wq_Forget W (ba_ID b) (bq_queue q)\<rparr>)"

definition bq_NumRequeues :: "'q workqueue \<Rightarrow> Batch option \<Rightarrow> 'q batchQueue \<Rightarrow> nat" where
  "bq_NumRequeues W batch q = (case batch of None \<Rightarrow> 0 | Some b \<Rightarrow> wq_NumRequeues W (ba_ID b) (bq_queue q))"

definition bq_ShutDown :: "'q workqueue \<Rightarrow> 'q batchQueue \<Rightarrow> 'q batchQueue" where
  "bq_ShutDown W q = q\<lparr>bq_queue := wq_ShutDown W (bq_queue q)\<rparr>"

section \<open>Retries\<close>

text \<open>What the orchestrator's goroutines share: engine, retry queue, collector and the world.\<close>

record ('c, 'q) orchestrator_state =
  os_engine :: "'c InMemoryEngine"
  os_queue :: "'q batchQueue"
  os_collector :: EventCollector
  os_world :: 'c

text \<open>What a program run fixes: the work queue, the orchestrator, the iteration order and the clock.\<close>

record ('c, 'q) orchestrator_env =
  env_W :: "'q workqueue"
  env_so :: "'c StageOrchestrator"
  env_\<omega> :: go_order
  env_Now :: "'c \<Rightarrow> nat"

definition newWSAClientObject :: "WSAResource \<Rightarrow> kind" where
  "newWSAClientObject res = (if IsClusterScoped res then KClusterWorkloadServiceAccount else KWorkloadServiceAccount)"

text \<open>The loop of \<^verbatim>\<open>requeueFailedResources\<close>; adding an event may block.\<close>

fun requeueFailedResources ::
  "('c, 'q) orchestrator_env \<Rightarrow> WSAResource list \<Rightarrow> EventCollector \<Rightarrow> 'c \<Rightarrow> (EventCollector \<times> 'c) option" where
  "requeueFailedResources env [] ec c = Some (ec, c)"
| "requeueFailedResources env (res # ress) ec c =
     (case client_Get (so_client (env_so env)) (newWSAClientObject res) (GetNamespacedName res) c of
        (Inl err, c') \<Rightarrow> requeueFailedResources env ress ec c'
      | (Inr obj, c') \<Rightarrow>
          (let fresh = decode_into res obj;
               event = NewEventInfo (env_Now env c') fresh EventTypeUpdate
           in case AddEvent (env_Now env c') event ec of
                None \<Rightarrow> None
              | Some ec' \<Rightarrow> requeueFailedResources env ress ec' c'))"

definition handlePermanentFailure ::
  "('c, 'q) orchestrator_env \<Rightarrow> Batch \<Rightarrow> int \<Rightarrow> error \<Rightarrow> ('c, 'q) orchestrator_state \<Rightarrow> ('c, 'q) orchestrator_state option" where
  "handlePermanentFailure env batch retryCount err st =
     (let so = env_so env;
          c1 = emitEvent so batch ''Warning'' ''ReconcileFailed''
                 (''Permanent failure after '' @ fmt_d (nat retryCount) @ '' retries: '' @ so_Error so err @
                  '' (batch '' @ ba_ID batch @ '')'') (os_world st)
      in case RebuildStateFromCluster (env_\<omega> env) (os_engine st) c1 of
           (Some rebuildErr, e', c2) \<Rightarrow> Some (st\<lparr>os_engine := e', os_world := c2\<rparr>)
         | (None, e', c2) \<Rightarrow>
             (case requeueFailedResources env (ba_Resources batch) (os_collector st) c2 of
                None \<Rightarrow> None
              | Some (ec', c3) \<Rightarrow> Some (st\<lparr>os_engine := e', os_collector := ec', os_world := c3\<rparr>)))"

definition processBatchWithRetry ::
  "('c, 'q) orchestrator_env \<Rightarrow> Batch \<Rightarrow> ('c, 'q) orchestrator_state \<Rightarrow> ('c, 'q) orchestrator_state option" where
  "processBatchWithRetry env batch st =
     (let so = env_so env; W = env_W env
      in case processBatch so batch (os_engine st) (os_world st) of
           (Some err, batch1, e1, c1) \<Rightarrow>
             (let batch2 = batch1\<lparr>ba_LastError := Some err\<rparr>;
                  retryCount = int (bq_NumRequeues W (Some batch2) (os_queue st)) + 1
              in if retryCount \<le> so_maxRetries so then
                   (let c2 = emitEvent so batch2 ''Warning'' ''RetryQueued''
                          (''Queued for retry '' @ fmt_d (nat retryCount) @ ''/'' @ fmt_d (nat (so_maxRetries so)) @
                           '': '' @ so_Error so err) c1
                    in Some (st\<lparr>os_engine := e1, os_world := c2,
                                os_queue := bq_AddRateLimited W (Some batch2) (os_queue st)\<rparr>))
                 else
                   handlePermanentFailure env batch2 retryCount err
                     (st\<lparr>os_engine := e1, os_world := c1, os_queue := bq_Forget W (Some batch2) (os_queue st)\<rparr>))
         | (None, batch1, e1, c1) \<Rightarrow>
             Some (st\<lparr>os_engine := e1, os_world := c1, os_queue := bq_Forget W (Some batch1) (os_queue st)\<rparr>))"

text \<open>One turn of the loop of \<^verbatim>\<open>processRetryQueue\<close>; the flag tells whether the loop ends.\<close>

definition processRetryQueue ::
  "('c, 'q) orchestrator_env \<Rightarrow> ('c, 'q) orchestrator_state \<Rightarrow> (bool \<times> ('c, 'q) orchestrator_state) option" where
  "processRetryQueue env st =
     (case bq_Get (env_W env) (os_queue st) of
        None \<Rightarrow> None
      | Some ((batch, shutdown), q) \<Rightarrow>
          (let st1 = st\<lparr>os_queue := q\<rparr>
           in if shutdown then Some (True, st1)
              else (case batch of
                      None \<Rightarrow> Some (False, st1)
                    | Some b \<Rightarrow>
                        (case processBatchWithRetry env b st1 of
                           None \<Rightarrow> None
                         | Some st2 \<Rightarrow> Some (False, st2\<lparr>os_queue := bq_Done (env_W env) (Some b) (os_queue st2)\<rparr>)))))"

text \<open>The cases of the loop of \<^verbatim>\<open>Start\<close> for a trigger and for a batch that was collected.\<close>

definition start_trigger :: "('c, 'q) orchestrator_env \<Rightarrow> ('c, 'q) orchestrator_state \<Rightarrow> ('c, 'q) orchestrator_state" where
  "start_trigger env st = st\<lparr>os_collector := FlushEvents (env_\<omega> env) (os_collector st)\<rparr>"

definition start_batch ::
  "('c, 'q) orchestrator_env \<Rightarrow> BatchID \<Rightarrow> ('c, 'q) orchestrator_state \<Rightarrow> ('c, 'q) orchestrator_state option" where
  "start_batch env newID st =
     (case ec_batchReadyCh (os_collector st) of
        [] \<Rightarrow> None
      | events # rest \<Rightarrow>
          processBatchWithRetry env (NewBatch newID (env_Now env (os_world st)) events)
            (st\<lparr>os_collector := (os_collector st)\<lparr>ec_batchReadyCh := rest\<rparr>\<rparr>))"


text \<open>The trigger channel has room for ten; a send to a full one is dropped.\<close>

definition triggerReconcile :: "nat \<Rightarrow> nat" where
  "triggerReconcile pending = (if pending < 10 then pending + 1 else pending)"

section \<open>What processing keeps of a batch\<close>

definition shape :: "Batch \<Rightarrow> BatchID \<times> nat" where
  "shape batch = (ba_ID batch, length (ba_Resources batch))"

lemma shape_write_back [simp]: "shape (write_back new batch) = shape batch"
  by (simp add: shape_def)

lemma updateConditions_shape: "shape (fst (updateConditions so t s r msg batch c)) = shape batch"
proof -
  have "shape (fst (fold (\<lambda>i (b, c). case UpdateCondition (so_SetStatusCondition so) (so_client so) (ba_Resources b ! i) t s r msg c of
      (err, res', c') \<Rightarrow> (write_back res' b, c')) is bc)) = shape (fst bc)" for bc "is"
    by (induction "is" arbitrary: bc) (auto simp: case_prod_beta)
  then show ?thesis by (simp add: updateConditions_def)
qed

lemma updateStageStatus_shape: "shape (fst (updateStageStatus so name r msg batch c)) = shape batch"
  by (simp add: updateStageStatus_def updateConditions_shape split: option.splits)

definition keeps_shape :: "'c Stage \<Rightarrow> bool" where
  "keeps_shape stage \<longleftrightarrow> (\<forall>b e c. shape (fst (snd (stg_Execute stage b e c))) = shape b)"

lemma runStages_shape:
  "list_all keeps_shape stages \<Longrightarrow> shape (fst (snd (runStages so stages batch e c))) = shape batch"
proof (induction stages arbitrary: batch e c)
  case (Cons stage stages)
  let ?u1 = "updateStageStatus so (stg_Name stage) ReasonInProgress ''Processing'' batch c"
  obtain b1 d1 where 1: "?u1 = (b1, d1)" by fastforce
  have i1: "shape b1 = shape batch" using updateStageStatus_shape[of so "stg_Name stage" ReasonInProgress "''Processing''" batch c] by (simp add: 1)
  let ?c1 = "emitEvent so b1 ''Normal'' ''StageStarted'' (''Stage '' @ stg_Name stage @ '' started (batch '' @ ba_ID b1 @ '')'') d1"
  obtain err b2 e2 c2 where 2: "stg_Execute stage b1 e ?c1 = (err, b2, e2, c2)" by (metis prod.exhaust)
  have "keeps_shape stage" using Cons.prems by simp
  then have i2: "shape b2 = shape b1" using 2 unfolding keeps_shape_def by (metis fst_conv snd_conv)
  show ?case
  proof (cases err)
    case None
    obtain b3 d3 where 3: "updateStageStatus so (stg_Name stage) ReasonSucceeded ''Complete'' b2 c2 = (b3, d3)" by fastforce
    let ?c3 = "emitEvent so b3 ''Normal'' ''StageCompleted'' (''Stage '' @ stg_Name stage @ '' completed (batch '' @ ba_ID b3 @
      '', duration '' @ so_Since so d3 @ '')'') d3"
    have "runStages so (stage # stages) batch e c = runStages so stages b3 e2 ?c3"
      using 1 2 3 None by (simp add: Let_def)
    moreover have "shape (fst (snd (runStages so stages b3 e2 ?c3))) = shape b3" using Cons by simp
    moreover have "shape b3 = shape b2" using updateStageStatus_shape 3 by (metis fst_conv)
    ultimately show ?thesis by (simp only: i1 i2)
  next
    case (Some er)
    obtain b3 d3 where 3: "updateStageStatus so (stg_Name stage) ReasonFailed (so_Error so er) b2 c2 = (b3, d3)" by fastforce
    have "fst (snd (runStages so (stage # stages) batch e c)) = b3"
      using 1 2 3 Some by (simp add: Let_def)
    moreover have "shape b3 = shape b2" using updateStageStatus_shape 3 by (metis fst_conv)
    ultimately show ?thesis by (simp only: i1 i2)
  qed
qed simp

lemma stagingStages_keep_shape: "list_all keeps_shape (stagingStages \<omega> cl)"
  by (auto simp: stagingStages_def keeps_shape_def shape_def updateBatchResourceVersions_def getAllResources_def planning_stage_def validation_stage_def execution_stage_def
      PlanningStage_Execute_def ValidationStage_Execute_def Let_def split: prod.splits sum.splits option.splits)

lemma processBatch_shape:
  assumes "processBatch so batch e c = (err, batch', e', c')" "list_all keeps_shape (so_stages so)"
  shows "shape batch' = shape batch"
proof (cases "ba_Resources batch = []")
  case True
  with assms(1) show ?thesis by (simp add: processBatch_def)
next
  case False
  obtain f b1 e1 c1 where 1: "runStages so (so_stages so) batch e c = (f, b1, e1, c1)" by (metis prod.exhaust)
  obtain b2 c2 where 2: "updateFinalConditions so f b1 c1 = (b2, c2)" by fastforce
  have "shape (fst (updateFinalConditions so f b1 c1)) = shape b1"
    by (simp add: updateFinalConditions_def updateConditions_shape split: option.splits)
  then have "shape b2 = shape b1" by (simp add: 2)
  moreover have "shape b1 = shape batch" using runStages_shape[OF assms(2), of so batch e c] 1 by simp
  moreover have "batch' = b2" using assms(1) False 1 2 by (auto simp: processBatch_def Let_def split: option.splits)
  ultimately show ?thesis by simp
qed

section \<open>The contract of the work queue\<close>

text \<open>
  \<^verbatim>\<open>NumRequeues\<close> counts the rate limited additions of an item since it was forgotten. \<open>waiting\<close> are the
  items that were added and not handed out yet, delayed ones included.
\<close>

locale rate_limited_queue =
  fixes W :: "'q workqueue" and waiting :: "'q \<Rightarrow> BatchID set" and fresh :: 'q
  assumes fresh_waiting: "waiting fresh = {}" and fresh_count: "wq_NumRequeues W i fresh = 0"
    and AddRateLimited_count:
      "wq_NumRequeues W i (wq_AddRateLimited W j q) = (if i = j then wq_NumRequeues W i q + 1 else wq_NumRequeues W i q)"
    and Forget_count: "wq_NumRequeues W i (wq_Forget W j q) = (if i = j then 0 else wq_NumRequeues W i q)"
    and Get_count: "wq_Get W q = Some (r, q') \<Longrightarrow> wq_NumRequeues W i q' = wq_NumRequeues W i q"
    and Done_count: "wq_NumRequeues W i (wq_Done W j q) = wq_NumRequeues W i q"
    and Get_waiting: "wq_Get W q = Some ((i, False), q') \<Longrightarrow> i \<in> waiting q \<and> waiting q' = waiting q - {i}"
    and Get_shutdown: "wq_Get W q = Some ((i, True), q') \<Longrightarrow> waiting q' \<subseteq> waiting q"
    and AddRateLimited_waiting: "waiting (wq_AddRateLimited W i q) \<subseteq> insert i (waiting q)"
    and Forget_waiting: "waiting (wq_Forget W i q) \<subseteq> waiting q"
    and Done_waiting: "waiting (wq_Done W i q) \<subseteq> waiting q"
begin

text \<open>
  Counters are within the limit, whatever waits is a batch that the queue holds under its id, and a
  batch that is not held has no counter.
\<close>

definition queue_ok :: "nat \<Rightarrow> 'q batchQueue \<Rightarrow> bool" where
  "queue_ok limit q \<longleftrightarrow>
     (\<forall>i. wq_NumRequeues W i (bq_queue q) \<le> limit) \<and>
     (\<forall>i. map_of (bq_batches q) i = None \<longrightarrow> wq_NumRequeues W i (bq_queue q) = 0) \<and>
     (\<forall>i b. map_of (bq_batches q) i = Some b \<longrightarrow> ba_ID b = i) \<and>
     waiting (bq_queue q) \<subseteq> dom (map_of (bq_batches q))"

lemma queue_ok_new: "queue_ok limit (NewBatchQueue fresh)"
  by (simp add: queue_ok_def NewBatchQueue_def fresh_waiting fresh_count)

lemma queue_ok_AddRateLimited:
  assumes "queue_ok limit q" "wq_NumRequeues W (ba_ID b) (bq_queue q) < limit"
  shows "queue_ok limit (bq_AddRateLimited W (Some b) q)"
  using assms AddRateLimited_waiting[of "ba_ID b" "bq_queue q"]
  by (auto simp: queue_ok_def bq_AddRateLimited_def AddRateLimited_count map_of_put)

lemma queue_ok_Forget:
  assumes "queue_ok limit q" "ba_ID b \<notin> waiting (bq_queue q)"
  shows "queue_ok limit (bq_Forget W (Some b) q)"
  using assms Forget_waiting[of "ba_ID b" "bq_queue q"]
  by (auto simp: queue_ok_def bq_Forget_def Forget_count delete_conv' restrict_map_def split: if_splits)

lemma queue_ok_Done: "queue_ok limit q \<Longrightarrow> queue_ok limit (bq_Done W (Some b) q)"
  using Done_waiting[of "ba_ID b" "bq_queue q"] by (auto simp: queue_ok_def bq_Done_def Done_count)

lemma queue_ok_Get:
  assumes "queue_ok limit q" "bq_Get W q = Some ((batch, shutdown), q')"
  shows "queue_ok limit q'" and "\<not> shutdown \<Longrightarrow> \<exists>b. batch = Some b \<and> ba_ID b \<notin> waiting (bq_queue q') \<and>
    map_of (bq_batches q) (ba_ID b) = Some b"
proof -
  obtain i sd queue where g: "wq_Get W (bq_queue q) = Some ((i, sd), queue)"
    using assms(2) by (auto simp: bq_Get_def split: option.splits)
  have "queue_ok limit q' \<and> (\<not> shutdown \<longrightarrow> (\<exists>b. batch = Some b \<and> ba_ID b \<notin> waiting (bq_queue q') \<and>
    map_of (bq_batches q) (ba_ID b) = Some b))"
  proof (cases sd)
    case True
    then have g': "wq_Get W (bq_queue q) = Some ((i, True), queue)" using g by simp
    with assms(2) have "q' = q\<lparr>bq_queue := queue\<rparr>" "shutdown" by (auto simp: bq_Get_def)
    then show ?thesis
      using assms(1) Get_count[OF g'] Get_shutdown[OF g'] by (auto simp: queue_ok_def)
  next
    case False
    then have g': "wq_Get W (bq_queue q) = Some ((i, False), queue)" using g by simp
    note w = Get_waiting[OF g']
    then obtain b where b: "map_of (bq_batches q) i = Some b" "ba_ID b = i" using assms(1) by (auto simp: queue_ok_def)
    with g' assms(2) have "q' = q\<lparr>bq_queue := queue\<rparr>" "batch = Some b" by (auto simp: bq_Get_def)
    then show ?thesis
      using assms(1) Get_count[OF g'] w b by (auto simp: queue_ok_def)
  qed
  then show "queue_ok limit q'" "\<not> shutdown \<Longrightarrow> \<exists>b. batch = Some b \<and> ba_ID b \<notin> waiting (bq_queue q') \<and>
    map_of (bq_batches q) (ba_ID b) = Some b" by blast+
qed

lemma queue_ok_facts:
  assumes "queue_ok limit q"
  shows "wq_NumRequeues W i (bq_queue q) \<le> limit \<and>
    (bq_Get W q = Some ((batch, shutdown), q') \<longrightarrow> shutdown \<or> batch \<noteq> None)"
proof (intro conjI impI)
  show "wq_NumRequeues W i (bq_queue q) \<le> limit" using assms by (simp add: queue_ok_def)
  assume "bq_Get W q = Some ((batch, shutdown), q')"
  from queue_ok_Get(2)[OF assms this] show "shutdown \<or> batch \<noteq> None" by blast
qed

lemma requeue_queue:
  "handlePermanentFailure env batch n err st = Some st' \<Longrightarrow> os_queue st' = os_queue st"
  by (auto simp: handlePermanentFailure_def Let_def split: prod.splits option.splits)

text \<open>
  After a batch was processed it is either held for a retry, with its counter one higher, or
  settled: not held, its counter zero. Nothing else in the queue changes.
\<close>

lemma processed_batch:
  assumes run: "processBatchWithRetry env batch st = Some st'" and W: "env_W env = W"
    and id: "list_all keeps_shape (so_stages (env_so env))"
    and limit: "so_maxRetries (env_so env) = int limit"
  obtains (retry) b where "shape b = shape batch" "os_queue st' = bq_AddRateLimited W (Some b) (os_queue st)"
      "wq_NumRequeues W (ba_ID batch) (bq_queue (os_queue st)) < limit" "os_collector st' = os_collector st"
  | (settled) b where "shape b = shape batch" "os_queue st' = bq_Forget W (Some b) (os_queue st)"
proof -
  obtain err b1 e1 c1 where p: "processBatch (env_so env) batch (os_engine st) (os_world st) = (err, b1, e1, c1)"
    by (metis prod.exhaust)
  have b1: "shape b1 = shape batch" by (rule processBatch_shape[OF p id])
  show ?thesis
  proof (cases err)
    case None
    with run p W show ?thesis by (intro settled[OF b1]) (auto simp: processBatchWithRetry_def)
  next
    case (Some er)
    let ?b = "b1\<lparr>ba_LastError := Some er\<rparr>"
    have b: "shape ?b = shape batch" using b1 by (simp add: shape_def)
    show ?thesis
    proof (cases "int (bq_NumRequeues W (Some ?b) (os_queue st)) + 1 \<le> so_maxRetries (env_so env)")
      case True
      with run p W Some limit b show ?thesis
        by (intro retry[OF b]) (auto simp: processBatchWithRetry_def Let_def bq_NumRequeues_def shape_def)
    next
      case False
      then have "handlePermanentFailure env ?b (int (bq_NumRequeues W (Some ?b) (os_queue st)) + 1) er
          (st\<lparr>os_engine := e1, os_world := c1, os_queue := bq_Forget W (Some ?b) (os_queue st)\<rparr>) = Some st'"
        using run p W Some by (auto simp: processBatchWithRetry_def Let_def)
      from requeue_queue[OF this] show ?thesis by (intro settled[OF b]) simp
    qed
  qed
qed

lemma queue_ok_processed:
  assumes "processBatchWithRetry env batch st = Some st'" "env_W env = W" "list_all keeps_shape (so_stages (env_so env))"
    "so_maxRetries (env_so env) = int limit"
    and "queue_ok limit (os_queue st)" "ba_ID batch \<notin> waiting (bq_queue (os_queue st))"
  shows "queue_ok limit (os_queue st')"
  using assms(1-4)
proof (cases rule: processed_batch)
  case (retry b)
  then show ?thesis using queue_ok_AddRateLimited[OF assms(5), of b] by (simp add: shape_def)
next
  case (settled b)
  then show ?thesis using queue_ok_Forget[OF assms(5), of b] assms(6) by (simp add: shape_def)
qed

end

section \<open>Any number of batches\<close>

text \<open>
  The orchestrator's own steps, in any order, and whatever other goroutines do to the engine, the
  collector and the world in between. New batches have new ids.
\<close>

inductive orchestrator_reachable :: "('c, 'q) orchestrator_env \<Rightarrow> 'q \<Rightarrow> ('c, 'q) orchestrator_state \<Rightarrow> bool"
  for env fresh where
  init: "os_queue st = NewBatchQueue fresh \<Longrightarrow> orchestrator_reachable env fresh st"
| batch: "orchestrator_reachable env fresh st \<Longrightarrow> map_of (bq_batches (os_queue st)) newID = None \<Longrightarrow>
    start_batch env newID st = Some st' \<Longrightarrow> orchestrator_reachable env fresh st'"
| retry: "orchestrator_reachable env fresh st \<Longrightarrow> processRetryQueue env st = Some (ends, st') \<Longrightarrow>
    orchestrator_reachable env fresh st'"
| trigger: "orchestrator_reachable env fresh st \<Longrightarrow> orchestrator_reachable env fresh (start_trigger env st)"
| others: "orchestrator_reachable env fresh st \<Longrightarrow>
    orchestrator_reachable env fresh (st\<lparr>os_engine := e, os_collector := ec, os_world := c\<rparr>)"

context rate_limited_queue
begin

lemma reachable_queue_ok:
  assumes "orchestrator_reachable env fresh st" "env_W env = W" "list_all keeps_shape (so_stages (env_so env))"
    "so_maxRetries (env_so env) = int limit"
  shows "queue_ok limit (os_queue st)"
  using assms
proof (induction rule: orchestrator_reachable.induct)
  case (init st)
  then show ?case by (simp add: queue_ok_new)
next
  case (batch st newID st')
  then have ok: "queue_ok limit (os_queue st)" by blast
  from batch.hyps(3) obtain events rest where
    p: "processBatchWithRetry env (NewBatch newID (env_Now env (os_world st)) events)
      (st\<lparr>os_collector := (os_collector st)\<lparr>ec_batchReadyCh := rest\<rparr>\<rparr>) = Some st'"
    by (auto simp: start_batch_def split: list.splits)
  have "newID \<notin> waiting (bq_queue (os_queue st))" using ok batch.hyps(2) by (auto simp: queue_ok_def)
  with queue_ok_processed[OF p] ok batch.prems show ?case by (simp add: NewBatch_def)
next
  case (retry st ends st')
  then have ok: "queue_ok limit (os_queue st)" by blast
  from retry.hyps(2) obtain b sd q where g: "bq_Get W (os_queue st) = Some ((b, sd), q)"
    using retry.prems(1) by (auto simp: processRetryQueue_def split: option.splits prod.splits)
  note q = queue_ok_Get[OF ok g]
  show ?case
  proof (cases sd)
    case True
    with g retry.hyps(2) retry.prems(1) q(1) show ?thesis by (auto simp: processRetryQueue_def)
  next
    case False
    with q(2) obtain b' where b': "b = Some b'" "ba_ID b' \<notin> waiting (bq_queue q)" by blast
    then obtain st2 where p: "processBatchWithRetry env b' (st\<lparr>os_queue := q\<rparr>) = Some st2"
      and st': "st' = st2\<lparr>os_queue := bq_Done W (Some b') (os_queue st2)\<rparr>"
      using False g retry.hyps(2) retry.prems(1) by (auto simp: processRetryQueue_def split: option.splits)
    have "queue_ok limit (os_queue st2)"
      by (rule queue_ok_processed[OF p retry.prems]) (simp_all add: q(1) b'(2))
    then show ?thesis by (simp add: st' queue_ok_Done)
  qed
qed (simp_all add: start_trigger_def)

end

text \<open>
  C18. The retry queue stays consistent: in every reachable state no batch has been requeued more often
  than the limit of three, and the queue never hands out an id whose batch it does not hold.
\<close>

theorem retries_bounded:
  assumes "rate_limited_queue W waiting fresh" and "orchestrator_reachable env fresh st" and "env_W env = W"
    and "so_stages (env_so env) = stagingStages \<omega> cl" and "so_maxRetries (env_so env) = 3"
  shows "wq_NumRequeues W i (bq_queue (os_queue st)) \<le> 3 \<and>
    (bq_Get W (os_queue st) = Some ((batch, shutdown), q) \<longrightarrow> shutdown \<or> batch \<noteq> None)"
proof -
  have ok: "rate_limited_queue.queue_ok W waiting 3 (os_queue st)"
    by (rule rate_limited_queue.reachable_queue_ok[OF assms(1-3)]) (simp_all add: assms(4,5) stagingStages_keep_shape)
  from rate_limited_queue.queue_ok_facts[OF assms(1) this] show ?thesis .
qed


section \<open>Every batch is settled\<close>

text \<open>
  The attempts at one batch, each processing what the queue held after the one before, until the
  queue no longer holds it: the number of attempts and the state they end in. The bound on their
  number is a parameter; \<open>batch_settled\<close> shows that four are enough.
\<close>

fun settle ::
  "('c, 'q) orchestrator_env \<Rightarrow> nat \<Rightarrow> Batch \<Rightarrow> ('c, 'q) orchestrator_state \<Rightarrow> (nat \<times> ('c, 'q) orchestrator_state) option" where
  "settle env 0 batch st = None"
| "settle env (Suc n) batch st =
     (case processBatchWithRetry env batch st of
        None \<Rightarrow> None
      | Some st' \<Rightarrow>
          (case map_of (bq_batches (os_queue st')) (ba_ID batch) of
             None \<Rightarrow> Some (1, st')
           | Some b \<Rightarrow> map_option (\<lambda>(k, s). (Suc k, s)) (settle env n b st')))"

text \<open>The channels of the collector have room for \<open>n\<close> more events.\<close>

definition room :: "nat \<Rightarrow> EventCollector \<Rightarrow> bool" where
  "room n ec \<longleftrightarrow> length (db_timeChan (ec_eventDebouncer ec)) + n \<le> timeChan_capacity \<and>
     ec_batchTriggerCh ec + n \<le> batchTriggerCh_capacity"

lemma AddEvent_room:
  assumes "room (Suc n) ec"
  shows "\<exists>ec'. AddEvent now event ec = Some ec' \<and> room n ec'"
  using assms by (simp add: room_def AddEvent_def Debounce_def send_trigger_def Let_def)

lemma requeue_not_blocked:
  "room (length ress) ec \<Longrightarrow> \<exists>ec' c'. requeueFailedResources env ress ec c = Some (ec', c')"
proof (induction ress arbitrary: ec c)
  case (Cons res ress)
  obtain r c1 where g: "client_Get (so_client (env_so env)) (newWSAClientObject res) (GetNamespacedName res) c = (r, c1)"
    by fastforce
  show ?case
  proof (cases r)
    case (Inl err)
    have "room (length ress) ec" using Cons.prems by (simp add: room_def)
    with Cons.IH show ?thesis by (simp add: g Inl)
  next
    case (Inr obj)
    from Cons.prems obtain ec' where "AddEvent (env_Now env c1) (NewEventInfo (env_Now env c1) (decode_into res obj) EventTypeUpdate) ec = Some ec'"
      "room (length ress) ec'" by (metis AddEvent_room[of "length ress"] length_Cons)
    with Cons.IH[of ec' c1] show ?thesis by (simp add: g Inr Let_def)
  qed
qed simp

lemma not_blocked:
  assumes "room (length (ba_Resources batch)) (os_collector st)" "list_all keeps_shape (so_stages (env_so env))"
  shows "\<exists>st'. processBatchWithRetry env batch st = Some st'"
proof -
  obtain err b1 e1 c1 where p: "processBatch (env_so env) batch (os_engine st) (os_world st) = (err, b1, e1, c1)"
    by (metis prod.exhaust)
  have "room (length (ba_Resources b1)) (os_collector st)"
    using processBatch_shape[OF p assms(2)] assms(1) by (simp add: shape_def)
  note req = requeue_not_blocked[OF this, of env]
  have "\<exists>st'. handlePermanentFailure env (b1\<lparr>ba_LastError := x\<rparr>) n er (st\<lparr>os_engine := e1, os_world := c1, os_queue := q\<rparr>) = Some st'"
    for x n er q
  proof -
    let ?c = "emitEvent (env_so env) (b1\<lparr>ba_LastError := x\<rparr>) ''Warning'' ''ReconcileFailed''
      (''Permanent failure after '' @ fmt_d (nat n) @ '' retries: '' @ so_Error (env_so env) er @ '' (batch '' @ ba_ID b1 @ '')'') c1"
    obtain re e2 c2 where rb: "RebuildStateFromCluster (env_\<omega> env) e1 ?c = (re, e2, c2)" by (metis prod.exhaust)
    obtain ec' c3 where "requeueFailedResources env (ba_Resources b1) (os_collector st) c2 = Some (ec', c3)"
      using req by blast
    with rb show ?thesis by (cases re) (simp_all add: handlePermanentFailure_def Let_def)
  qed
  then show ?thesis by (cases err) (simp_all add: processBatchWithRetry_def p Let_def)
qed

context rate_limited_queue
begin

lemma settles:
  assumes "env_W env = W" "list_all keeps_shape (so_stages (env_so env))" "so_maxRetries (env_so env) = int limit"
    and "room (length (ba_Resources batch)) (os_collector st)"
    and "wq_NumRequeues W (ba_ID batch) (bq_queue (os_queue st)) + n = limit + 1" "0 < n"
  shows "\<exists>k st'. settle env n batch st = Some (k, st') \<and> 1 \<le> k \<and> k \<le> n \<and>
    map_of (bq_batches (os_queue st')) (ba_ID batch) = None \<and>
    wq_NumRequeues W (ba_ID batch) (bq_queue (os_queue st')) = 0"
  using assms(4-)
proof (induction n arbitrary: batch st)
  case (Suc n)
  obtain st1 where st1: "processBatchWithRetry env batch st = Some st1" using not_blocked[OF Suc.prems(1) assms(2)] by blast
  from st1 assms(1-3) show ?case
  proof (cases rule: processed_batch)
    case (retry b)
    have b: "ba_ID b = ba_ID batch" "length (ba_Resources b) = length (ba_Resources batch)"
      using retry(1) by (simp_all add: shape_def)
    have held: "map_of (bq_batches (os_queue st1)) (ba_ID batch) = Some b"
      by (simp add: retry(2) bq_AddRateLimited_def map_of_put b)
    have "wq_NumRequeues W (ba_ID b) (bq_queue (os_queue st1)) = wq_NumRequeues W (ba_ID batch) (bq_queue (os_queue st)) + 1"
      by (simp add: retry(2) bq_AddRateLimited_def AddRateLimited_count b)
    moreover have "0 < n" using retry(3) Suc.prems(2) by simp
    ultimately obtain k st' where "settle env n b st1 = Some (k, st')" "1 \<le> k" "k \<le> n"
      "map_of (bq_batches (os_queue st')) (ba_ID b) = None" "wq_NumRequeues W (ba_ID b) (bq_queue (os_queue st')) = 0"
      using Suc.IH[of b st1] Suc.prems retry(4) b by auto
    then show ?thesis using st1 held b by auto
  next
    case (settled b)
    then show ?thesis using st1 Suc.prems
      by (auto simp: bq_Forget_def Forget_count shape_def delete_conv' restrict_map_def)
  qed
qed simp

end

text \<open>
  C10. Every batch is settled: a new batch is processed at least once and at most four times, after
  which the queue neither holds it nor has a counter for it; the loop of retries ends whatever the
  stages and the cluster do. (The collector must have room for the events of the resources that
  are queued again; a full channel would block the orchestrator.)
\<close>

theorem batch_settled:
  assumes "rate_limited_queue W waiting fresh" and "env_W env = W"
    and "so_stages (env_so env) = stagingStages \<omega> cl" and "so_maxRetries (env_so env) = 3"
    and "room (length (ba_Resources batch)) (os_collector st)"
    and "wq_NumRequeues W (ba_ID batch) (bq_queue (os_queue st)) = 0"
  shows "\<exists>k st'. settle env 4 batch st = Some (k, st') \<and> 1 \<le> k \<and> k \<le> 4 \<and>
    map_of (bq_batches (os_queue st')) (ba_ID batch) = None \<and>
    wq_NumRequeues W (ba_ID batch) (bq_queue (os_queue st')) = 0"
  by (rule rate_limited_queue.settles[OF assms(1,2), where limit = 3])
    (simp_all add: assms(3-) stagingStages_keep_shape)


section \<open>A batch that is given up\<close>

text \<open>The collector holds an update event with what the cluster has stored for the resource.\<close>

definition refetched :: "cluster \<Rightarrow> EventCollector \<Rightarrow> WSAResource \<Rightarrow> bool" where
  "refetched m ec res \<longleftrightarrow>
     (\<exists>event x. map_of (ec_eventMap ec) (GetNamespacedName res) = Some event \<and> ev_EventType event = EventTypeUpdate \<and>
        m (newWSAClientObject res, GetNamespacedName res) = Some x \<and> ev_Resource event = decode_into res x)"

text \<open>The resources of the loop with what each request got, in the world in which it is made.\<close>

fun requeue_reads :: "'c client \<Rightarrow> WSAResource list \<Rightarrow> 'c \<Rightarrow> (WSAResource \<times> (api_error + object)) list" where
  "requeue_reads cl [] c = []"
| "requeue_reads cl (res # ress) c =
     (case client_Get cl (newWSAClientObject res) (GetNamespacedName res) c of (r, c') \<Rightarrow> (res, r) # requeue_reads cl ress c')"

text \<open>
  An engine that answers from a set of resources: every scope resolves as they say, and only they are in the map
  that deletions wait on.
\<close>

definition rebuilt_from :: "go_order \<Rightarrow> WSAResource set \<Rightarrow> 'c InMemoryEngine \<Rightarrow> bool" where
  "rebuilt_from \<omega> live e \<longleftrightarrow>
     (\<exists>rs. set rs = live \<and> (\<forall>p. engine_GetServiceAccountForScope e p =
        GetServiceAccountForScope (NewScopeComputationService (snd (ComputeScopesForWSAs \<omega> rs))
          (fst (GenerateServiceAccountMappings \<omega> (fst (ComputeScopesForWSAs \<omega> rs))))) p)) \<and>
     (\<forall>k. IsWSAInMaps e k \<longrightarrow> k \<in> GetNamespacedName ` live)"

lemma rebuilt:
  assumes "api_client_current (e_client e) view" "engine_reachable e" "order_ok \<omega>"
    and "RebuildStateFromCluster \<omega> e c = (None, e', c')"
  shows "rebuilt_from \<omega> (cluster_resources (view c)) e' \<and> view c' = view c"
proof -
  note ok = engine_reachable_ok[OF assms(2)]
  obtain rs where rs: "set rs = cluster_resources (view c)"
    "e_ScopeComputation e' = NewScopeComputationService (vocab_of rs) (scopeToSA_of \<omega> (scopeMap_of \<omega> rs))"
    using published_resolver[OF assms(1) ok] assms(4) by metis
  have "IsWSAInMaps e' k \<longrightarrow> k \<in> GetNamespacedName ` cluster_resources (view c)" for k
    using rebuild_forgets_deleted[OF assms] by simp
  moreover obtain st where "computeStateFromCluster \<omega> e c = (Inr st, c')"
    using assms(4) by (auto elim!: RebuildStateFromCluster_cases)
  then have "view c' = view c"
    using api_client_current.listResources_current(3)[OF assms(1) engine_ok_client[OF ok]]
    by (auto elim!: computeStateFromCluster_ok)
  ultimately show ?thesis using rs by (auto simp: rebuilt_from_def engine_GetServiceAccountForScope_def ComputeScopes_snd)
qed

lemma AddEvent_map:
  "AddEvent now event ec = Some ec' \<Longrightarrow> ec_eventMap ec' = map_put (event_key event) event (ec_eventMap ec)"
  by (auto simp: AddEvent_def Let_def send_trigger_def split: option.splits if_splits)

context api_client
begin

lemma decoded:
  assumes "view c (newWSAClientObject res, GetNamespacedName res) = Some x"
  shows "GetNamespacedName (decode_into res x) = GetNamespacedName res"
    and "IsClusterScoped res \<longleftrightarrow> nn_Namespace (GetNamespacedName res) = []"
proof -
  note x = view_id[OF assms] view_valid[OF assms]
  show "GetNamespacedName (decode_into res x) = GetNamespacedName res"
    using x(1) by (cases res; cases x) (auto simp: newWSAClientObject_def om_key_def)
  show "IsClusterScoped res \<longleftrightarrow> nn_Namespace (GetNamespacedName res) = []"
    using x(2) by (cases res) (auto simp: newWSAClientObject_def valid_id_def)
qed

end

context api_client_current
begin

lemma refetched_add:
  assumes get: "view c (newWSAClientObject res, GetNamespacedName res) = Some x"
    and add: "AddEvent now (NewEventInfo now' (decode_into res x) EventTypeUpdate) ec = Some ec'"
  shows "refetched (view c) ec' res" and "refetched (view c) ec other \<Longrightarrow> refetched (view c) ec' other"
proof -
  note d = decoded[OF get]
  have m: "ec_eventMap ec' = map_put (GetNamespacedName res) (NewEventInfo now' (decode_into res x) EventTypeUpdate) (ec_eventMap ec)"
    using AddEvent_map[OF add] d(1) by (simp add: NewEventInfo_def)
  show "refetched (view c) ec' res"
    using get by (simp add: refetched_def m map_of_put NewEventInfo_def)
  show "refetched (view c) ec' other" if "refetched (view c) ec other"
  proof (cases "GetNamespacedName other = GetNamespacedName res")
    case True
    from that obtain y where y: "view c (newWSAClientObject other, GetNamespacedName other) = Some y"
      by (auto simp: refetched_def)
    from decoded(2)[OF y] d(2) True have k: "IsClusterScoped other = IsClusterScoped res" by simp
    then have "decode_into other x = decode_into res x"
      using view_id[OF get] by (cases other; cases res; cases x) (auto simp: newWSAClientObject_def)
    with get k True show ?thesis
      by (simp add: refetched_def m map_of_put NewEventInfo_def newWSAClientObject_def)
  next
    case False
    with that show ?thesis by (auto simp: refetched_def m map_of_put)
  qed
qed

lemma requeued:
  assumes "requeueFailedResources env ress ec c = Some (ec', c')" and "so_client (env_so env) = cl"
  shows "view c' = view c \<and> (\<forall>res. refetched (view c) ec res \<longrightarrow> refetched (view c) ec' res) \<and>
    (\<forall>(res, r) \<in> set (requeue_reads cl ress c). \<forall>x. r = Inr x \<longrightarrow> refetched (view c) ec' res) \<and>
    (\<forall>k. k \<notin> GetNamespacedName ` set ress \<longrightarrow> map_of (ec_eventMap ec') k = map_of (ec_eventMap ec) k)"
  using assms(1)
proof (induction ress arbitrary: ec c)
  case (Cons r ress)
  obtain g c1 where g: "client_Get cl (newWSAClientObject r) (GetNamespacedName r) c = (g, c1)" by fastforce
  have v: "view c1 = view c" by (rule Get_frame[OF g])
  show ?case
  proof (cases g)
    case (Inl err)
    with Cons.prems g assms(2) have "requeueFailedResources env ress ec c1 = Some (ec', c')" by simp
    from Cons.IH[OF this] show ?thesis using v g Inl by simp
  next
    case (Inr x)
    let ?e = "NewEventInfo (env_Now env c1) (decode_into r x) EventTypeUpdate"
    from Cons.prems g assms(2) Inr obtain ec1 where a: "AddEvent (env_Now env c1) ?e ec = Some ec1"
      and rest: "requeueFailedResources env ress ec1 c1 = Some (ec', c')"
      by (auto simp: Let_def split: option.splits)
    have x: "view c1 (newWSAClientObject r, GetNamespacedName r) = Some x" using Get_found g Inr v by simp
    note add = refetched_add[OF x a]
    have "event_key ?e = GetNamespacedName r" using decoded(1)[OF x] by (simp add: NewEventInfo_def)
    then have "map_of (ec_eventMap ec1) k = map_of (ec_eventMap ec) k" if "k \<noteq> GetNamespacedName r" for k
      using that AddEvent_map[OF a] by (simp add: map_of_put)
    with Cons.IH[OF rest] add show ?thesis unfolding v by (simp add: g Inr)
  qed
qed simp

lemma given_up:
  assumes "handlePermanentFailure env batch n err st = Some st'" and "so_client (env_so env) = cl"
    and "engine_reachable (os_engine st)" and "e_client (os_engine st) = cl" and "order_ok (env_\<omega> env)"
  shows "\<exists>msg. case RebuildStateFromCluster (env_\<omega> env) (os_engine st)
      (emitEvent (env_so env) batch ''Warning'' ''ReconcileFailed'' msg (os_world st)) of
    (Some _, _, _) \<Rightarrow> os_engine st' = os_engine st \<and> os_collector st' = os_collector st
  | (None, e', d) \<Rightarrow> os_engine st' = e' \<and> rebuilt_from (env_\<omega> env) (cluster_resources (view (os_world st'))) e' \<and>
      (\<forall>(res, r) \<in> set (requeue_reads cl (ba_Resources batch) d). \<forall>x. r = Inr x \<longrightarrow>
         refetched (view (os_world st')) (os_collector st') res) \<and>
      (\<forall>k. k \<notin> GetNamespacedName ` set (ba_Resources batch) \<longrightarrow>
         map_of (ec_eventMap (os_collector st')) k = map_of (ec_eventMap (os_collector st)) k)"
proof -
  obtain msg where h: "handlePermanentFailure env batch n err st =
    (case RebuildStateFromCluster (env_\<omega> env) (os_engine st)
        (emitEvent (env_so env) batch ''Warning'' ''ReconcileFailed'' msg (os_world st)) of
           (Some rebuildErr, e', c2) \<Rightarrow> Some (st\<lparr>os_engine := e', os_world := c2\<rparr>)
         | (None, e', c2) \<Rightarrow>
             (case requeueFailedResources env (ba_Resources batch) (os_collector st) c2 of
                None \<Rightarrow> None
              | Some (ec', c3) \<Rightarrow> Some (st\<lparr>os_engine := e', os_collector := ec', os_world := c3\<rparr>)))"
    by (simp add: handlePermanentFailure_def Let_def)
  let ?c1 = "emitEvent (env_so env) batch ''Warning'' ''ReconcileFailed'' msg (os_world st)"
  obtain re e' c2 where rb: "RebuildStateFromCluster (env_\<omega> env) (os_engine st) ?c1 = (re, e', c2)"
    by (metis prod.exhaust)
  have run: "Some st' = (case re of Some _ \<Rightarrow> Some (st\<lparr>os_engine := e', os_world := c2\<rparr>)
      | None \<Rightarrow> (case requeueFailedResources env (ba_Resources batch) (os_collector st) c2 of
                None \<Rightarrow> None
              | Some (ec', c3) \<Rightarrow> Some (st\<lparr>os_engine := e', os_collector := ec', os_world := c3\<rparr>)))"
    using assms(1) h rb by (cases re) simp_all
  show ?thesis
  proof (cases re)
    case (Some x)
    then have "st' = st\<lparr>os_engine := e', os_world := c2\<rparr>" using run by simp
    moreover have "e' = os_engine st" using rb Some by (auto elim: RebuildStateFromCluster_cases)
    ultimately show ?thesis using rb Some by (intro exI[of _ msg]) simp
  next
    case None
    then obtain ec' c3 where q: "requeueFailedResources env (ba_Resources batch) (os_collector st) c2 = Some (ec', c3)"
      and st': "st' = st\<lparr>os_engine := e', os_collector := ec', os_world := c3\<rparr>"
      using run by (auto split: option.splits)
    note rq = requeued[OF q assms(2)]
    have "rebuilt_from (env_\<omega> env) (cluster_resources (view ?c1)) e' \<and> view c2 = view ?c1"
      by (rule rebuilt[OF _ assms(3,5) rb[unfolded None]]) (simp add: assms(4) api_client_current_axioms)
    with rq have "rebuilt_from (env_\<omega> env) (cluster_resources (view (os_world st'))) e'" by (simp add: st')
    with rq show ?thesis using rb None by (intro exI[of _ msg]) (simp add: st')
  qed
qed

end

text \<open>
  C19. A batch whose third retry fails is given up and not forgotten. The queue drops it with its counter, and
  after the failure was reported, the engine's maps are rebuilt from the live resources of the cluster; then every
  resource of the batch that could be read is collected again, as an update with the object that is
  stored, and the events of other resources stay. When the rebuild fails, the engine keeps its maps and nothing
  is collected.
\<close>

theorem given_up_batch:
  assumes "rate_limited_queue (env_W env) waiting fresh" and "api_client_current (so_client (env_so env)) view"
    and "engine_reachable (os_engine st)" and "e_client (os_engine st) = so_client (env_so env)" and "order_ok (env_\<omega> env)"
    and "processBatch (env_so env) batch (os_engine st) (os_world st) = (Some err, batch', e1, c1)"
    and "so_stages (env_so env) = stagingStages \<omega> cl" and "so_maxRetries (env_so env) = 3"
    and "wq_NumRequeues (env_W env) (ba_ID batch) (bq_queue (os_queue st)) = 3"
    and "processBatchWithRetry env batch st = Some st'"
  shows "map_of (bq_batches (os_queue st')) (ba_ID batch) = None \<and>
    wq_NumRequeues (env_W env) (ba_ID batch) (bq_queue (os_queue st')) = 0 \<and>
    (\<exists>msg. case RebuildStateFromCluster (env_\<omega> env) (os_engine st)
        (emitEvent (env_so env) (batch'\<lparr>ba_LastError := Some err\<rparr>) ''Warning'' ''ReconcileFailed'' msg c1) of
      (Some _, _, _) \<Rightarrow> os_engine st' = os_engine st \<and> os_collector st' = os_collector st
    | (None, e2, d) \<Rightarrow> os_engine st' = e2 \<and> rebuilt_from (env_\<omega> env) (cluster_resources (view (os_world st'))) e2 \<and>
        (\<forall>(res, r) \<in> set (requeue_reads (so_client (env_so env)) (ba_Resources batch') d). \<forall>x. r = Inr x \<longrightarrow>
           refetched (view (os_world st')) (os_collector st') res) \<and>
        (\<forall>k. k \<notin> GetNamespacedName ` set (ba_Resources batch') \<longrightarrow>
           map_of (ec_eventMap (os_collector st')) k = map_of (ec_eventMap (os_collector st)) k))"
proof -
  let ?b = "batch'\<lparr>ba_LastError := Some err\<rparr>"
  let ?st = "st\<lparr>os_engine := e1, os_world := c1, os_queue := bq_Forget (env_W env) (Some ?b) (os_queue st)\<rparr>"
  have "shape batch' = shape batch"
    by (rule processBatch_shape[OF assms(6)]) (simp add: assms(7) stagingStages_keep_shape)
  then have id: "ba_ID batch' = ba_ID batch" by (simp add: shape_def)
  have e1: "e1 = os_engine st" by (rule failed_batch_engine[OF assms(6,7)])
  have h: "handlePermanentFailure env ?b 4 err ?st = Some st'"
    using assms(10) by (simp add: processBatchWithRetry_def assms(6,8,9) bq_NumRequeues_def id Let_def)
  have q: "os_queue st' = bq_Forget (env_W env) (Some ?b) (os_queue st)"
    using rate_limited_queue.requeue_queue[OF assms(1) h] by simp
  have "map_of (bq_batches (os_queue st')) (ba_ID batch) = None \<and>
      wq_NumRequeues (env_W env) (ba_ID batch) (bq_queue (os_queue st')) = 0"
    by (simp add: q bq_Forget_def id delete_conv' rate_limited_queue.Forget_count[OF assms(1)])
  moreover have kept: "ba_Resources ?b = ba_Resources batch'" "os_engine ?st = os_engine st" "os_collector ?st = os_collector st"
    "os_world ?st = c1"
    by (simp_all add: e1)
  note api_client_current.given_up[OF assms(2) h refl, unfolded kept, OF assms(3-5)]
  ultimately show ?thesis by blast
qed


section \<open>A work queue that fulfils the contract\<close>

text \<open>
  Items wait in order of arrival, an item that is being processed is not handed out again before it
  is done, additions after the shutdown are ignored, and the limiter counts failures. Delays have passed
  by the time of the next \<^verbatim>\<open>Get\<close>.
\<close>

record counted_queue =
  cq_waiting :: "BatchID list"
  cq_processing :: "BatchID list"
  cq_failures :: "(BatchID, nat) gomap"
  cq_shutdown :: bool

definition cq_new :: counted_queue where
  "cq_new = \<lparr>cq_waiting = [], cq_processing = [], cq_failures = [], cq_shutdown = False\<rparr>"

definition cq_count :: "BatchID \<Rightarrow> counted_queue \<Rightarrow> nat" where
  "cq_count i q = (case map_of (cq_failures q) i of None \<Rightarrow> 0 | Some n \<Rightarrow> n)"

definition cq_add :: "BatchID \<Rightarrow> counted_queue \<Rightarrow> counted_queue" where
  "cq_add i q = (if cq_shutdown q \<or> i \<in> set (cq_waiting q) then q else q\<lparr>cq_waiting := cq_waiting q @ [i]\<rparr>)"

definition cq_get :: "counted_queue \<Rightarrow> ((BatchID \<times> bool) \<times> counted_queue) option" where
  "cq_get q =
     (case find (\<lambda>i. i \<notin> set (cq_processing q)) (cq_waiting q) of
        Some i \<Rightarrow> Some ((i, False), q\<lparr>cq_waiting := removeAll i (cq_waiting q), cq_processing := i # cq_processing q\<rparr>)
      | None \<Rightarrow> if cq_shutdown q then Some (([], True), q) else None)"

definition counted_workqueue :: "counted_queue workqueue" where
  "counted_workqueue =
     \<lparr>wq_Add = cq_add,
      wq_AddRateLimited = (\<lambda>i q. cq_add i (q\<lparr>cq_failures := map_put i (cq_count i q + 1) (cq_failures q)\<rparr>)),
      wq_Get = cq_get,
      wq_Done = (\<lambda>i q. q\<lparr>cq_processing := removeAll i (cq_processing q)\<rparr>),
      wq_Forget = (\<lambda>i q. q\<lparr>cq_failures := AList.delete i (cq_failures q)\<rparr>),
      wq_NumRequeues = cq_count,
      wq_ShutDown = (\<lambda>q. q\<lparr>cq_shutdown := True\<rparr>)\<rparr>"

lemma cq_get_cases:
  assumes "cq_get q = Some (r, q')"
  obtains i where "r = (i, False)" "i \<in> set (cq_waiting q)"
      "q' = q\<lparr>cq_waiting := removeAll i (cq_waiting q), cq_processing := i # cq_processing q\<rparr>"
  | "r = ([], True)" "q' = q"
proof (cases "find (\<lambda>i. i \<notin> set (cq_processing q)) (cq_waiting q)")
  case None
  with assms that(2) show ?thesis by (simp add: cq_get_def split: if_splits)
next
  case (Some i)
  then have "i \<in> set (cq_waiting q)" unfolding find_Some_iff by auto
  with Some assms show ?thesis by (intro that(1)[of i]) (auto simp: cq_get_def)
qed

interpretation counted: rate_limited_queue counted_workqueue "set \<circ> cq_waiting" cq_new
proof
  fix i j q q' r
  let ?W = counted_workqueue
  show "(set \<circ> cq_waiting) cq_new = {}" "wq_NumRequeues ?W i cq_new = 0"
    by (simp_all add: counted_workqueue_def cq_new_def cq_count_def)
  show "wq_NumRequeues ?W i (wq_AddRateLimited ?W j q) = (if i = j then wq_NumRequeues ?W i q + 1 else wq_NumRequeues ?W i q)"
    "wq_NumRequeues ?W i (wq_Forget ?W j q) = (if i = j then 0 else wq_NumRequeues ?W i q)"
    by (auto simp: counted_workqueue_def cq_add_def cq_count_def map_of_put delete_conv')
  show "wq_NumRequeues ?W i q' = wq_NumRequeues ?W i q" if "wq_Get ?W q = Some (r, q')"
    using that by (auto simp: counted_workqueue_def cq_count_def elim!: cq_get_cases)
  show "i \<in> (set \<circ> cq_waiting) q \<and> (set \<circ> cq_waiting) q' = (set \<circ> cq_waiting) q - {i}"
    if "wq_Get ?W q = Some ((i, False), q')"
    using that by (auto simp: counted_workqueue_def elim!: cq_get_cases)
  show "(set \<circ> cq_waiting) q' \<subseteq> (set \<circ> cq_waiting) q" if "wq_Get ?W q = Some ((i, True), q')"
    using that by (auto simp: counted_workqueue_def elim!: cq_get_cases)
  show "wq_NumRequeues ?W i (wq_Done ?W j q) = wq_NumRequeues ?W i q"
    "(set \<circ> cq_waiting) (wq_AddRateLimited ?W i q) \<subseteq> insert i ((set \<circ> cq_waiting) q)"
    "(set \<circ> cq_waiting) (wq_Forget ?W i q) \<subseteq> (set \<circ> cq_waiting) q"
    "(set \<circ> cq_waiting) (wq_Done ?W i q) \<subseteq> (set \<circ> cq_waiting) q"
    by (auto simp: counted_workqueue_def cq_add_def cq_count_def)
qed

section \<open>Examples\<close>

text \<open>The target namespace is missing, so validation fails whenever the batch is processed.\<close>

definition failing_env :: "(server, counted_queue) orchestrator_env" where
  "failing_env = \<lparr>env_W = counted_workqueue, env_so = example_orchestrator order_id, env_\<omega> = order_id, env_Now = (\<lambda>_. 7)\<rparr>"

definition failing_init :: "(server, counted_queue) orchestrator_state" where
  "failing_init =
     \<lparr>os_engine = NewInMemoryEngineWithNamespaces server_client example_scheme [''gone''],
      os_queue = NewBatchQueue cq_new,
      os_collector = (NewEventCollector 1 100)\<lparr>ec_batchReadyCh := [[NewCreateOrUpdateEventInfo 0 (NewWSAResource access_wsa)]]\<rparr>,
      os_world = access_server\<rparr>"

definition failing_once :: "(server, counted_queue) orchestrator_state" where
  "failing_once = the (start_batch failing_env ''b1'' failing_init)"

definition failing_last :: "(server, counted_queue) orchestrator_state" where
  "failing_last = failing_init\<lparr>os_queue := (NewBatchQueue cq_new)
     \<lparr>bq_batches := [(''b1'', access_batch)], bq_queue := cq_new\<lparr>cq_failures := [(''b1'', 3)]\<rparr>\<rparr>\<rparr>"

definition failing_run :: "error option \<times> Batch \<times> server InMemoryEngine \<times> server" where
  "failing_run = processBatch (env_so failing_env) access_batch (os_engine failing_last) (os_world failing_last)"

definition failing_given_up :: "(server, counted_queue) orchestrator_state" where
  "failing_given_up = the (processBatchWithRetry failing_env access_batch failing_last)"

lemmas failing_wiring = failing_env_def example_orchestrator_def NewStageOrchestrator_def

theorem retries_bounded_witness:
  "wq_NumRequeues counted_workqueue ''b1'' (bq_queue (os_queue failing_once)) = 1 \<and>
   (let ((batch, shutdown), q) = the (bq_Get counted_workqueue (os_queue failing_once)) in shutdown \<or> batch \<noteq> None)"
proof -
  have "start_batch failing_env ''b1'' failing_init \<noteq> None" by code_simp
  then have "start_batch failing_env ''b1'' failing_init = Some failing_once" by (simp add: failing_once_def)
  moreover have q: "os_queue failing_init = NewBatchQueue cq_new" by (simp add: failing_init_def)
  moreover have "map_of (bq_batches (os_queue failing_init)) ''b1'' = None" by (simp add: q NewBatchQueue_def)
  ultimately have r: "orchestrator_reachable failing_env cq_new failing_once"
    by (metis orchestrator_reachable.batch orchestrator_reachable.init)
  obtain b sd q where g: "bq_Get counted_workqueue (os_queue failing_once) = Some ((b, sd), q)"
  proof -
    have "bq_Get counted_workqueue (os_queue failing_once) \<noteq> None" by code_simp
    then show ?thesis using that by (metis option.exhaust prod.exhaust)
  qed
  have "wq_NumRequeues counted_workqueue ''b1'' (bq_queue (os_queue failing_once)) = 1" by code_simp
  moreover have "sd \<or> b \<noteq> None"
    using retries_bounded[OF counted.rate_limited_queue_axioms r, of order_id server_client "''b1''" b sd q] g
    by (simp add: failing_wiring)
  ultimately show ?thesis using g by simp
qed

theorem batch_settled_witness:
  "\<exists>k st'. settle failing_env 4 access_batch failing_init = Some (k, st') \<and> 1 \<le> k \<and> k \<le> 4 \<and>
    map_of (bq_batches (os_queue st')) (ba_ID access_batch) = None \<and>
    wq_NumRequeues counted_workqueue (ba_ID access_batch) (bq_queue (os_queue st')) = 0"
proof (rule batch_settled[OF counted.rate_limited_queue_axioms])
  show "room (length (ba_Resources access_batch)) (os_collector failing_init)"
    "wq_NumRequeues counted_workqueue (ba_ID access_batch) (bq_queue (os_queue failing_init)) = 0"
    by code_simp+
qed (simp_all add: failing_wiring)

theorem given_up_batch_witness:
  "map_of (bq_batches (os_queue failing_given_up)) ''b1'' = None \<and>
   map ev_Resource (map snd (ec_eventMap (os_collector failing_given_up))) \<noteq> []"
proof -
  have "processBatchWithRetry failing_env access_batch failing_last \<noteq> None" by code_simp
  then have ok: "processBatchWithRetry failing_env access_batch failing_last = Some failing_given_up"
    by (simp add: failing_given_up_def)
  have "fst failing_run \<noteq> None" by code_simp
  then obtain err where run: "processBatch (env_so failing_env) access_batch (os_engine failing_last) (os_world failing_last) =
      (Some err, fst (snd failing_run), fst (snd (snd failing_run)), snd (snd (snd failing_run)))"
    unfolding failing_run_def by (metis option.exhaust prod.collapse)
  have "api_client_current (so_client (env_so failing_env)) server_view"
    using srv.api_client_current_axioms by (simp add: failing_wiring)
  moreover have "rate_limited_queue (env_W failing_env) (set \<circ> cq_waiting) cq_new"
    using counted.rate_limited_queue_axioms by (simp add: failing_wiring)
  moreover have "wq_NumRequeues (env_W failing_env) (ba_ID access_batch) (bq_queue (os_queue failing_last)) = 3" by code_simp
  moreover have "engine_reachable (os_engine failing_last)" "e_client (os_engine failing_last) = server_client"
    using engine_reachable.explicit[of server_client example_scheme "[''gone'']"]
    by (simp_all add: failing_last_def failing_init_def NewInMemoryEngineWithNamespaces_def)
  ultimately have "map_of (bq_batches (os_queue failing_given_up)) (ba_ID access_batch) = None"
    using given_up_batch[OF _ _ _ _ _ run _ _ _ ok, of "set \<circ> cq_waiting" cq_new server_view order_id server_client]
    by (simp add: failing_wiring)
  moreover have "map ev_Resource (map snd (ec_eventMap (os_collector failing_given_up))) \<noteq> []" by code_simp
  ultimately show ?thesis by (simp add: access_batch_def NewBatch_def)
qed

end
