(* ===== verification/Controllers.thy ===== *)
theory Controllers
  imports Guarantees Collector
begin

text \<open>
  \<^verbatim>\<open>internal/controller\<close>: the two reconcilers, which queue events and guard deletion with a finalizer
  (\<^verbatim>\<open>helpers.go\<close>, \<^verbatim>\<open>finalizer_helpers.go\<close>). Both run the same code on the two kinds of resources. An
  event keeps the resource as it was when it was queued; what a patch makes of its metadata
  afterwards (\<^verbatim>\<open>client.Patch\<close> writes into the object it is given) is never read from an event.
  Shown: a queued resource carries the finalizer; the finalizer goes only when the engine no
  longer knows the resource; after a batch or a rebuild deletion completes; and the case in which
  the finalizer does not protect.
\<close>

section \<open>The finalizer\<close>

text \<open>The functions of \<^verbatim>\<open>controllerutil\<close>; the flags that two of them return are not used.\<close>

record controllerutil =
  cu_ContainsFinalizer :: "object \<Rightarrow> string \<Rightarrow> bool"
  cu_AddFinalizer :: "object \<Rightarrow> string \<Rightarrow> object"
  cu_RemoveFinalizer :: "object \<Rightarrow> string \<Rightarrow> object"

definition ServiceAccountCleanupFinalizer :: string where
  "ServiceAccountCleanupFinalizer = ''octopus.com/serviceaccount-cleanup''"

definition containsCleanupFinalizer :: "controllerutil \<Rightarrow> object \<Rightarrow> bool" where
  "containsCleanupFinalizer cu obj = cu_ContainsFinalizer cu obj ServiceAccountCleanupFinalizer"

definition addCleanupFinalizer :: "controllerutil \<Rightarrow> object \<Rightarrow> object" where
  "addCleanupFinalizer cu obj = cu_AddFinalizer cu obj ServiceAccountCleanupFinalizer"

definition removeCleanupFinalizer :: "controllerutil \<Rightarrow> object \<Rightarrow> object" where
  "removeCleanupFinalizer cu obj = cu_RemoveFinalizer cu obj ServiceAccountCleanupFinalizer"

section \<open>Helpers\<close>

text \<open>In seconds.\<close>

definition deleteCheckRequeueDelay :: int where
  "deleteCheckRequeueDelay = 2"

text \<open>The nil pointer for a resource that does not exist is \<open>None\<close>.\<close>

definition fetchResource :: "'c client \<Rightarrow> NamespacedName \<Rightarrow> kind \<Rightarrow> 'c \<Rightarrow> (error + object option) \<times> 'c" where
  "fetchResource cl req k c =
     (case client_Get cl k req c of
        (Inl NotFound, c') \<Rightarrow> (Inr None, c')
      | (Inl err, c') \<Rightarrow> (Inl (Api err), c')
      | (Inr resource, c') \<Rightarrow> (Inr (Some resource), c'))"

definition handleDeletion ::
  "controllerutil \<Rightarrow> 'c client \<Rightarrow> 'c InMemoryEngine \<Rightarrow> object \<Rightarrow> 'c \<Rightarrow> (bool \<times> error option) \<times> 'c" where
  "handleDeletion cu cl engine resource c =
     (if \<not> containsCleanupFinalizer cu resource then ((False, None), c)
      else
        (let wsaKey = om_key (obj_meta resource)
         in if IsWSAInMaps engine wsaKey then ((True, None), c)
            else
              (let original = resource; resource' = removeCleanupFinalizer cu resource
               in case client_Patch cl original resource' c of
                    (Inl err, c') \<Rightarrow> ((False, Some (Api err)), c')
                  | (Inr _, c') \<Rightarrow> ((False, None), c'))))"

definition isBeingDeleted :: "object \<Rightarrow> bool" where
  "isBeingDeleted obj \<longleftrightarrow> om_DeletionTimestamp (obj_meta obj) \<noteq> None"

text \<open>The second result is the object that the caller's pointer holds afterwards.\<close>

definition ensureFinalizer ::
  "controllerutil \<Rightarrow> 'c client \<Rightarrow> object \<Rightarrow> 'c \<Rightarrow> (error option \<times> object) \<times> 'c" where
  "ensureFinalizer cu cl resource c =
     (if containsCleanupFinalizer cu resource then ((None, resource), c)
      else
        (let original = resource; resource' = addCleanupFinalizer cu resource
         in case client_Patch cl original resource' c of
              (Inl err, c') \<Rightarrow> ((Some (Api err), resource'), c')
            | (Inr stored, c') \<Rightarrow> ((None, stored), c')))"

section \<open>The reconcilers\<close>

record Result =
  result_RequeueAfter :: int

definition Result_zero :: Result where
  "Result_zero = \<lparr>result_RequeueAfter = 0\<rparr>"

text \<open>The fields of a reconciler besides the engine and the collector, which others share.\<close>

record 'c reconciler =
  rc_Client :: "'c client"
  rc_Recorder :: "(WSAResource \<Rightarrow> string \<Rightarrow> string \<Rightarrow> string \<Rightarrow> 'c \<Rightarrow> 'c) option"
  rc_Now :: "'c \<Rightarrow> nat"
  rc_util :: controllerutil

text \<open>\<^verbatim>\<open>NewWSAResource\<close> or \<^verbatim>\<open>NewClusterWSAResource\<close> of a fetched object.\<close>

fun resource_of :: "object \<Rightarrow> WSAResource option" where
  "resource_of (OWorkloadServiceAccount wsa) = Some (NewWSAResource wsa)"
| "resource_of (OClusterWorkloadServiceAccount cwsa) = Some (NewClusterWSAResource cwsa)"
| "resource_of _ = None"

text \<open>No result when adding the event blocks.\<close>

definition Reconcile ::
  "kind \<Rightarrow> 'c reconciler \<Rightarrow> 'c InMemoryEngine \<Rightarrow> EventCollector \<Rightarrow> NamespacedName \<Rightarrow> 'c \<Rightarrow>
   ((Result \<times> error option) \<times> EventCollector \<times> 'c) option" where
  "Reconcile k r engine ec req c =
     (case fetchResource (rc_Client r) req k c of
        (Inl err, c1) \<Rightarrow> Some ((Result_zero, Some err), ec, c1)
      | (Inr None, c1) \<Rightarrow> Some ((Result_zero, None), ec, c1)
      | (Inr (Some wsa), c1) \<Rightarrow>
          (if isBeingDeleted wsa then
             (let deleteEvent = NewEventInfo (rc_Now r c1) (the (resource_of wsa)) EventTypeDelete
              in case AddEvent (rc_Now r c1) deleteEvent ec of
                   None \<Rightarrow> None
                 | Some ec' \<Rightarrow>
                     (case handleDeletion (rc_util r) (rc_Client r) engine wsa c1 of
                        ((_, Some err), c2) \<Rightarrow> Some ((Result_zero, Some err), ec', c2)
                      | ((requeue, None), c2) \<Rightarrow>
                          if requeue then Some ((\<lparr>result_RequeueAfter = deleteCheckRequeueDelay\<rparr>, None), ec', c2)
                          else Some ((Result_zero, None), ec', c2)))
           else
             (case ensureFinalizer (rc_util r) (rc_Client r) wsa c1 of
                ((Some err, _), c2) \<Rightarrow> Some ((Result_zero, Some err), ec, c2)
              | ((None, wsa'), c2) \<Rightarrow>
                  (let event = NewCreateOrUpdateEventInfo (rc_Now r c2) (the (resource_of wsa'))
                   in case AddEvent (rc_Now r c2) event ec of
                        None \<Rightarrow> None
                      | Some ec' \<Rightarrow>
                          (let c3 = (case rc_Recorder r of
                                       None \<Rightarrow> c2
                                     | Some event \<Rightarrow> event (the (resource_of wsa')) ''Normal'' ''Queued''
                                         ''Reconciliation queued for batch processing'' c2)
                           in Some ((Result_zero, None), ec', c3))))))"

definition WorkloadServiceAccountReconciler_Reconcile ::
  "'c reconciler \<Rightarrow> 'c InMemoryEngine \<Rightarrow> EventCollector \<Rightarrow> NamespacedName \<Rightarrow> 'c \<Rightarrow>
   ((Result \<times> error option) \<times> EventCollector \<times> 'c) option" where
  "WorkloadServiceAccountReconciler_Reconcile = Reconcile KWorkloadServiceAccount"

definition ClusterWorkloadServiceAccountReconciler_Reconcile ::
  "'c reconciler \<Rightarrow> 'c InMemoryEngine \<Rightarrow> EventCollector \<Rightarrow> NamespacedName \<Rightarrow> 'c \<Rightarrow>
   ((Result \<times> error option) \<times> EventCollector \<times> 'c) option" where
  "ClusterWorkloadServiceAccountReconciler_Reconcile = Reconcile KClusterWorkloadServiceAccount"

section \<open>The contract of the libraries\<close>

locale finalizers =
  fixes cu :: controllerutil
  assumes Contains: "cu_ContainsFinalizer cu x f \<longleftrightarrow> f \<in> set (om_Finalizers (obj_meta x))"
    and Add: "cu_AddFinalizer cu x f =
      (if f \<in> set (om_Finalizers (obj_meta x)) then x else map_meta (\<lambda>m. m\<lparr>om_Finalizers := om_Finalizers m @ [f]\<rparr>) x)"
    and Remove: "cu_RemoveFinalizer cu x f = map_meta (\<lambda>m. m\<lparr>om_Finalizers := removeAll f (om_Finalizers m)\<rparr>) x"

text \<open>
  A merge patch that differs from its original in the finalizers replaces the finalizers of the
  stored object, whatever else changed since the original was read; an object that is being deleted
  goes with its last finalizer. A failed patch may have been carried out.
\<close>

definition patched :: "object \<Rightarrow> object \<Rightarrow> cluster \<Rightarrow> cluster \<Rightarrow> bool" where
  "patched new y m m' \<longleftrightarrow>
     (\<exists>old. m (obj_id new) = Some old \<and> obj_id y = obj_id new \<and>
        om_Finalizers (obj_meta y) = om_Finalizers (obj_meta new) \<and>
        om_DeletionTimestamp (obj_meta y) = om_DeletionTimestamp (obj_meta old) \<and> labels_of y = labels_of old \<and>
        m' = (if terminating y \<and> om_Finalizers (obj_meta y) = [] then m(obj_id new := None) else m(obj_id new \<mapsto> y)))"

locale patch_client = api_client_current +
  assumes Patch_ok: "om_Finalizers (obj_meta old) \<noteq> om_Finalizers (obj_meta new) \<Longrightarrow>
      client_Patch cl old new c = (Inr y, c') \<Longrightarrow> patched new y (view c) (view c')"
    and Patch_fails: "client_Patch cl old new c = (Inl e, c') \<Longrightarrow>
      view c' = view c \<or> (\<exists>y. patched new y (view c) (view c'))"

locale controllers = finalizers "rc_util r" + patch_client "rc_Client r" view
  for r :: "'c reconciler" and view +
  assumes recorder_frame: "rc_Recorder r = Some event \<Longrightarrow> view (event res t rsn msg c) = view c"
begin

abbreviation our_finalizer :: "object \<Rightarrow> bool" where
  "our_finalizer x \<equiv> ServiceAccountCleanupFinalizer \<in> set (om_Finalizers (obj_meta x))"

lemma fetched:
  assumes "fetchResource (rc_Client r) req k c = (res, c')"
  shows "view c' = view c" and "res = Inr (Some x) \<Longrightarrow> view c (k, req) = Some x"
    and "res = Inr None \<Longrightarrow> view c (k, req) = None"
proof -
  obtain g c1 where g: "client_Get (rc_Client r) k req c = (g, c1)" by fastforce
  show "view c' = view c" "res = Inr (Some x) \<Longrightarrow> view c (k, req) = Some x" "res = Inr None \<Longrightarrow> view c (k, req) = None"
    using assms Get_frame[OF g] Get_found[of k req c] Get_absent[of k req c] g
    by (auto simp: fetchResource_def split: sum.splits api_error.splits)
qed

lemma removed:
  "om_Finalizers (obj_meta (removeCleanupFinalizer (rc_util r) x)) =
     removeAll ServiceAccountCleanupFinalizer (om_Finalizers (obj_meta x))"
  "obj_id (removeCleanupFinalizer (rc_util r) x) = obj_id x"
  by (simp_all add: removeCleanupFinalizer_def Remove om_key_def)

lemma removed_differs:
  assumes "our_finalizer x"
  shows "om_Finalizers (obj_meta x) \<noteq> om_Finalizers (obj_meta (removeCleanupFinalizer (rc_util r) x))"
proof -
  have "f \<in> set xs \<Longrightarrow> xs \<noteq> removeAll f xs" for f and xs :: "string list"
    by (metis Diff_iff set_removeAll singletonI)
  with assms show ?thesis by (simp add: removed)
qed

lemma added:
  "our_finalizer (addCleanupFinalizer (rc_util r) x)" "obj_id (addCleanupFinalizer (rc_util r) x) = obj_id x"
  "\<not> our_finalizer x \<Longrightarrow> om_Finalizers (obj_meta x) \<noteq> om_Finalizers (obj_meta (addCleanupFinalizer (rc_util r) x))"
  by (auto simp: addCleanupFinalizer_def Add om_key_def)

lemma contains: "containsCleanupFinalizer (rc_util r) x \<longleftrightarrow> our_finalizer x"
  by (simp add: containsCleanupFinalizer_def Contains)

lemma handleDeletion_cases:
  assumes "handleDeletion (rc_util r) (rc_Client r) e x c = ((requeue, err), c')"
  obtains (absent) "\<not> our_finalizer x" "\<not> requeue" "err = None" "c' = c"
  | (waits) "our_finalizer x" "IsWSAInMaps e (om_key (obj_meta x))" "requeue" "err = None" "c' = c"
  | (removes) res where "our_finalizer x" "\<not> IsWSAInMaps e (om_key (obj_meta x))" "\<not> requeue"
      "client_Patch (rc_Client r) x (removeCleanupFinalizer (rc_util r) x) c = (res, c')" "err = None \<longleftrightarrow> (\<exists>y. res = Inr y)"
  using assms by (auto simp: handleDeletion_def contains Let_def split: if_splits prod.splits sum.splits)

lemma ensureFinalizer_cases:
  assumes "ensureFinalizer (rc_util r) (rc_Client r) x c = ((err, x'), c')"
  obtains (present) "our_finalizer x" "err = None" "x' = x" "c' = c"
  | (failed) er where "\<not> our_finalizer x" "err \<noteq> None"
      "client_Patch (rc_Client r) x (addCleanupFinalizer (rc_util r) x) c = (Inl er, c')"
  | (patched) "\<not> our_finalizer x" "err = None"
      "client_Patch (rc_Client r) x (addCleanupFinalizer (rc_util r) x) c = (Inr x', c')"
  using assms by (auto simp: ensureFinalizer_def contains Let_def split: if_splits prod.splits sum.splits)

text \<open>A run of a reconciler on a resource that is there.\<close>

lemma Reconcile_cases:
  assumes "Reconcile k r e ec req c = Some ((result, err), ec', c')"
  obtains (none) "result = Result_zero" "ec' = ec" "view c' = view c" "err = None \<Longrightarrow> view c (k, req) = None"
  | (deletes) x c1 requeue where "view c1 = view c" "view c (k, req) = Some x" "terminating x"
      "AddEvent (rc_Now r c1) (NewEventInfo (rc_Now r c1) (the (resource_of x)) EventTypeDelete) ec = Some ec'"
      "handleDeletion (rc_util r) (rc_Client r) e x c1 = ((requeue, err), c')"
      "result = (if err = None \<and> requeue then \<lparr>result_RequeueAfter = deleteCheckRequeueDelay\<rparr> else Result_zero)"
  | (queues) x c1 x' c2 where "view c1 = view c" "view c (k, req) = Some x" "\<not> terminating x" "result = Result_zero"
      "ensureFinalizer (rc_util r) (rc_Client r) x c1 = ((err, x'), c2)" "view c' = view c2"
      "if err = None then AddEvent (rc_Now r c2) (NewCreateOrUpdateEventInfo (rc_Now r c2) (the (resource_of x'))) ec = Some ec'
       else ec' = ec"
proof -
  obtain f c1 where f: "fetchResource (rc_Client r) req k c = (f, c1)" by fastforce
  note fv = fetched[OF f]
  show ?thesis
  proof (cases "\<exists>x. f = Inr (Some x)")
    case False
    then have "result = Result_zero" "ec' = ec" "c' = c1" "err = None \<Longrightarrow> f = Inr None"
      using assms f by (auto simp: Reconcile_def split: sum.splits option.splits)
    with fv show ?thesis by (intro none) auto
  next
    case True
    then obtain x where x: "f = Inr (Some x)" ..
    have d: "isBeingDeleted x \<longleftrightarrow> terminating x" by (simp add: isBeingDeleted_def terminating_def)
    show ?thesis
    proof (cases "terminating x")
      case True
      obtain q er c2 where h: "handleDeletion (rc_util r) (rc_Client r) e x c1 = ((q, er), c2)" by (metis prod.exhaust)
      show ?thesis
        using assms f x True h fv(1) fv(2)[OF x]
        by (intro deletes[of c1 x q]) (auto simp: Reconcile_def d Let_def split: option.splits if_splits)
    next
      case False
      obtain er x' c2 where h: "ensureFinalizer (rc_util r) (rc_Client r) x c1 = ((er, x'), c2)" by (metis prod.exhaust)
      show ?thesis
        using assms f x False h fv(1) fv(2)[OF x] recorder_frame
        by (intro queues[of c1 x x' c2]) (auto simp: Reconcile_def d Let_def split: option.splits)
    qed
  qed
qed

lemma fetched_id: "view c (k, req) = Some x \<Longrightarrow> obj_kind x = k \<and> om_key (obj_meta x) = req"
  using view_id by fastforce

lemma patched_other: "patched new y m m' \<Longrightarrow> i \<noteq> obj_id new \<Longrightarrow> m' i = m i"
  by (auto simp: patched_def)

lemma patch_frame:
  assumes "client_Patch (rc_Client r) x y c = (res, c')" "om_Finalizers (obj_meta x) \<noteq> om_Finalizers (obj_meta y)"
  shows "view c' = view c \<or> (\<exists>z. patched y z (view c) (view c'))"
  using assms Patch_ok Patch_fails by (cases res) blast+

lemma reconcile_frame:
  assumes "Reconcile k r e ec req c = Some ((result, err), ec', c')" "i \<noteq> (k, req)"
  shows "view c' i = view c i"
  using assms(1)
proof (cases rule: Reconcile_cases)
  case none
  then show ?thesis by simp
next
  case (deletes x c1 requeue)
  from deletes(5) show ?thesis
  proof (cases rule: handleDeletion_cases)
    case (removes res)
    from patch_frame[OF removes(4) removed_differs[OF removes(1)]] show ?thesis
      using patched_other assms(2) fetched_id[OF deletes(2)] deletes(1) removed(2)[of x] by metis
  qed (simp_all add: deletes(1))
next
  case (queues x c1 x' c2)
  from queues(5) show ?thesis
  proof (cases rule: ensureFinalizer_cases)
    case present
    then show ?thesis using queues by simp
  next
    case (failed er)
    from patch_frame[OF failed(3) added(3)[OF failed(1)]] show ?thesis
      using patched_other assms(2) fetched_id[OF queues(2)] queues(1,6) added(2)[of x] by metis
  next
    case patched
    from patch_frame[OF patched(3) added(3)[OF patched(1)]] show ?thesis
      using patched_other assms(2) fetched_id[OF queues(2)] queues(1,6) added(2)[of x] by metis
  qed
qed

lemma removes_only_unknown:
  assumes "Reconcile k r e ec req c = Some ((result, err), ec', c')" and "view c (k, req) = Some x" "our_finalizer x"
    and "\<And>y. view c' (k, req) = Some y \<Longrightarrow> \<not> our_finalizer y"
  shows "terminating x \<and> \<not> IsWSAInMaps e req"
  using assms(1)
proof (cases rule: Reconcile_cases)
  case none
  then show ?thesis using assms(2-4) by simp
next
  case (deletes z c1 requeue)
  have z: "z = x" using deletes(2) assms(2) by simp
  from deletes(5) show ?thesis
  proof (cases rule: handleDeletion_cases)
    case (removes res)
    then show ?thesis using deletes(3) z fetched_id[OF assms(2)] by simp
  qed (use assms(2-4) deletes(1) z in auto)
next
  case (queues z c1 x' c2)
  have z: "z = x" using queues(2) assms(2) by simp
  from queues(5) have "c2 = c1" using assms(3) z by (cases rule: ensureFinalizer_cases) auto
  then show ?thesis using assms(2-4) queues(1,6) by auto
qed

lemma deletion_waiting:
  assumes "Reconcile k r e ec req c = Some ((result, err), ec', c')" and "view c (k, req) = Some x"
    and "terminating x" "our_finalizer x" "IsWSAInMaps e req"
  shows "view c' = view c \<and> (err = None \<longrightarrow> result_RequeueAfter result = deleteCheckRequeueDelay)"
  using assms(1)
proof (cases rule: Reconcile_cases)
  case none
  then show ?thesis using assms(2) by auto
next
  case (deletes z c1 requeue)
  have z: "z = x" using deletes(2) assms(2) by simp
  from deletes(5) show ?thesis
    by (cases rule: handleDeletion_cases) (use assms(4,5) deletes(1,6) z fetched_id[OF assms(2)] in auto)
next
  case (queues z c1 x' c2)
  then show ?thesis using assms(2,3) by simp
qed

lemma unknown_removed:
  assumes "Reconcile k r e ec req c = Some ((result, None), ec', c')" and "view c (k, req) = Some x"
    and "terminating x" "om_Finalizers (obj_meta x) = [ServiceAccountCleanupFinalizer]" "\<not> IsWSAInMaps e req"
  shows "result = Result_zero \<and> view c' = (view c)((k, req) := None)"
  using assms(1)
proof (cases rule: Reconcile_cases)
  case none
  then show ?thesis using assms(2) by auto
next
  case (deletes z c1 requeue)
  have z: "z = x" using deletes(2) assms(2) by simp
  from deletes(5) show ?thesis
  proof (cases rule: handleDeletion_cases)
    case absent
    then show ?thesis using assms(4) z by simp
  next
    case waits
    then show ?thesis using assms(5) z fetched_id[OF assms(2)] by simp
  next
    case (removes res)
    then obtain y where y: "client_Patch (rc_Client r) x (removeCleanupFinalizer (rc_util r) x) c1 = (Inr y, c')" using z by auto
    have "om_Finalizers (obj_meta x) \<noteq> om_Finalizers (obj_meta (removeCleanupFinalizer (rc_util r) x))"
      by (simp add: removed assms(4))
    from Patch_ok[OF this y] show ?thesis
      using deletes(1,6) removes(3) removed fetched_id[OF assms(2)] assms(2-4) z
      by (auto simp: patched_def terminating_def)
  qed
next
  case (queues z c1 x' c2)
  then show ?thesis using assms(2,3) by simp
qed

text \<open>The resource of an object of the cluster, its key, and its metadata.\<close>

lemma resource_of_object:
  assumes "view c (k, req) = Some x" "k \<in> {KWorkloadServiceAccount, KClusterWorkloadServiceAccount}"
  obtains res where "resource_of x = Some res" "res_object res = x" "GetNamespacedName res = req"
proof -
  have x: "obj_kind x = k" "om_key (obj_meta x) = req" "valid_id (k, req)"
    using fetched_id[OF assms(1)] view_valid[OF assms(1)] by simp_all
  show ?thesis
    using assms(2) x that by (cases x) (auto simp: NewWSAResource_def NewClusterWSAResource_def om_key_def valid_id_def)
qed

lemma deletion_collected:
  assumes "Reconcile k r e ec req c = Some ((result, None), ec', c')"
    and "k \<in> {KWorkloadServiceAccount, KClusterWorkloadServiceAccount}" "view c (k, req) = Some x" "terminating x"
  shows "\<exists>event. map_of (ec_eventMap ec') req = Some event \<and> ev_EventType event = EventTypeDelete"
  using assms(1)
proof (cases rule: Reconcile_cases)
  case (deletes z c1 requeue)
  then have z: "z = x" using assms(3) by simp
  obtain res where res: "resource_of x = Some res" "GetNamespacedName res = req"
    using resource_of_object[OF assms(3,2)] by blast
  let ?ev = "NewEventInfo (rc_Now r c1) res EventTypeDelete"
  have "ec_eventMap ec' = map_put (event_key ?ev) ?ev (ec_eventMap ec)"
    using deletes(4) z res by (auto simp: AddEvent_def Let_def send_trigger_def split: option.splits if_splits)
  then show ?thesis by (simp add: map_of_put NewEventInfo_def res(2))
qed (use assms(3,4) in auto)

lemma queued_event:
  assumes "Reconcile k r e ec req c = Some ((result, None), ec', c')" and "view c (k, req) = Some x" "\<not> terminating x"
    and "k \<in> {KWorkloadServiceAccount, KClusterWorkloadServiceAccount}"
  shows "\<exists>now event y. AddEvent now event ec = Some ec' \<and> event_key event = req \<and>
    ev_EventType event = (if om_Generation (obj_meta y) = 1 then EventTypeCreate else EventTypeUpdate) \<and>
    view c' (k, req) = Some y \<and> our_finalizer y \<and> resource_of y = Some (ev_Resource event)"
  using assms(1)
proof (cases rule: Reconcile_cases)
  case none
  then show ?thesis using assms(2) by auto
next
  case (deletes z c1 requeue)
  then show ?thesis using assms(2,3) by simp
next
  case (queues z c1 x' c2)
  have z: "z = x" using queues(2) assms(2) by simp
  have x': "view c2 (k, req) = Some x' \<and> our_finalizer x'"
    using queues(5)
  proof (cases rule: ensureFinalizer_cases)
    case present
    then show ?thesis using queues(1,2) by simp
  next
    case (failed er)
    then show ?thesis by simp
  next
    case patched
    note p = Patch_ok[OF added(3)[OF patched(1)] patched(3)]
    have "obj_id z = (k, req)" using fetched_id[OF queues(2)] by simp
    with p added[of z] show ?thesis by (auto simp: patched_def)
  qed
  from resource_of_object[OF conjunct1[OF x'] assms(4)] obtain res where
    res: "resource_of x' = Some res" "res_object res = x'" "GetNamespacedName res = req" by blast
  let ?ev = "NewCreateOrUpdateEventInfo (rc_Now r c2) res"
  have "AddEvent (rc_Now r c2) ?ev ec = Some ec'" using queues(7) res(1) by simp
  moreover have "event_key ?ev = req" "ev_Resource ?ev = res"
    by (simp_all add: NewCreateOrUpdateEventInfo_def NewEventInfo_def Let_def res(3))
  moreover have "GetGeneration res = om_Generation (obj_meta x')" using res(2) by (cases res) auto
  ultimately show ?thesis
    using x' res(1) queues(6)
    by (intro exI[of _ "rc_Now r c2"] exI[of _ ?ev] exI[of _ x']) (simp add: NewCreateOrUpdateEventInfo_def NewEventInfo_def Let_def)
qed

lemma queued_protected:
  assumes "Reconcile k r e ec req c = Some ((result, None), ec', c')" and "view c (k, req) = Some x" "\<not> terminating x"
    and "k \<in> {KWorkloadServiceAccount, KClusterWorkloadServiceAccount}"
  shows "\<exists>event y. map_of (ec_eventMap ec') req = Some event \<and>
    ev_EventType event = (if om_Generation (obj_meta y) = 1 then EventTypeCreate else EventTypeUpdate) \<and>
    view c' (k, req) = Some y \<and> our_finalizer y \<and> resource_of y = Some (ev_Resource event)"
proof -
  obtain now event y where "AddEvent now event ec = Some ec'" "event_key event = req"
    "ev_EventType event = (if om_Generation (obj_meta y) = 1 then EventTypeCreate else EventTypeUpdate)"
    "view c' (k, req) = Some y" "our_finalizer y" "resource_of y = Some (ev_Resource event)"
    using queued_event[OF assms] by blast
  then show ?thesis using AddEvent_collects by blast
qed

lemma live_resource:
  assumes "view c (k, req) = Some x" "\<not> terminating x" "resource_of x = Some res"
    "k \<in> {KWorkloadServiceAccount, KClusterWorkloadServiceAccount}"
  shows "res \<in> cluster_resources (view c)"
proof -
  from resource_of_object[OF assms(1,4)] assms(3) have "res_object res = x" by auto
  with assms(1,2) fetched_id[OF assms(1)] show ?thesis by (simp add: cluster_resources_iff[OF view_id])
qed

lemma terminating_not_live:
  assumes "view c (k, req) = Some x" "terminating x" "k \<in> {KWorkloadServiceAccount, KClusterWorkloadServiceAccount}"
  shows "req \<notin> GetNamespacedName ` cluster_resources (view c)"
proof
  assume "req \<in> GetNamespacedName ` cluster_resources (view c)"
  then obtain res where res: "res \<in> cluster_resources (view c)" "GetNamespacedName res = req" by blast
  then have v: "view c (obj_id (res_object res)) = Some (res_object res)" "\<not> terminating (res_object res)"
    by (simp_all add: cluster_resources_iff[OF view_id])
  have "valid_id (k, req)" "valid_id (obj_id (res_object res))" using view_valid[OF assms(1)] view_valid[OF v(1)] by simp_all
  then have "obj_id (res_object res) = (k, req)"
    using res(2) assms(3) by (cases res) (auto simp: valid_id_def om_key_def)
  with v assms(1,2) show False by simp
qed

end


section \<open>Guarantees of the reconcilers\<close>

text \<open>
  C6. The finalizer guards deletion: whatever requests fail, a reconciler changes no object but the
  one of its request; and it takes the cleanup finalizer from an object, or an object with its
  finalizer away, only when that object is the one of its request, is being deleted, and the engine's maps no
  longer know it.
\<close>

theorem finalizer_guards:
  assumes "controllers r view" and "Reconcile k r e ec req c = Some ((result, err), ec', c')"
  shows "(\<forall>j. j \<noteq> (k, req) \<longrightarrow> view c' j = view c j) \<and>
    (\<forall>i x. view c i = Some x \<and> ServiceAccountCleanupFinalizer \<in> set (om_Finalizers (obj_meta x)) \<and>
       (\<forall>y. view c' i = Some y \<longrightarrow> ServiceAccountCleanupFinalizer \<notin> set (om_Finalizers (obj_meta y))) \<longrightarrow>
       i = (k, req) \<and> terminating x \<and> \<not> IsWSAInMaps e req)"
proof -
  note frame = controllers.reconcile_frame[OF assms]
  have "i = (k, req) \<and> terminating x \<and> \<not> IsWSAInMaps e req"
    if "view c i = Some x" "ServiceAccountCleanupFinalizer \<in> set (om_Finalizers (obj_meta x))"
      "\<And>y. view c' i = Some y \<Longrightarrow> ServiceAccountCleanupFinalizer \<notin> set (om_Finalizers (obj_meta y))" for i x
  proof -
    have "i = (k, req)" using frame[of i] that by metis
    with controllers.removes_only_unknown[OF assms] that show ?thesis by blast
  qed
  with frame show ?thesis by blast
qed

text \<open>
  C20. While the engine still knows a resource that is being deleted, reconciling it changes nothing in
  the cluster, has a delete event collected unless the resource could not be read, and asks to be called
  again in two seconds.
\<close>

theorem deletion_waits:
  assumes "controllers r view" and "Reconcile k r e ec req c = Some ((result, None), ec', c')"
    and "k \<in> {KWorkloadServiceAccount, KClusterWorkloadServiceAccount}"
    and "view c (k, req) = Some x" and "terminating x"
    and "ServiceAccountCleanupFinalizer \<in> set (om_Finalizers (obj_meta x))" and "IsWSAInMaps e req"
  shows "view c' = view c \<and> result_RequeueAfter result = 2 \<and>
    (\<exists>event. map_of (ec_eventMap ec') req = Some event \<and> ev_EventType event = EventTypeDelete)"
proof -
  have "\<exists>event. map_of (ec_eventMap ec') req = Some event \<and> ev_EventType event = EventTypeDelete"
    by (rule controllers.deletion_collected[OF assms(1-5)])
  with controllers.deletion_waiting[OF assms(1,2,4-7)] show ?thesis by (simp add: deleteCheckRequeueDelay_def)
qed

text \<open>
  C12. Deletion completes: when a batch was processed without an error after the resource's deletion had
  been asked for, the next reconciliation that succeeds removes the last finalizer, the object
  goes, and nothing else changes.
\<close>

theorem deletion_completes:
  assumes "pipeline e view so \<omega>" and "controllers r view"
    and "processBatch so batch e c = (None, batch', e', c1)" and "ba_Resources batch \<noteq> []"
    and "k \<in> {KWorkloadServiceAccount, KClusterWorkloadServiceAccount}"
    and "view c (k, req) = Some x" and "terminating x"
    and "view c2 (k, req) = Some y" and "terminating y"
    and "om_Finalizers (obj_meta y) = [ServiceAccountCleanupFinalizer]"
    and "Reconcile k r e' ec req c2 = Some ((result, None), ec', c3)"
  shows "view c3 = (view c2)((k, req) := None) \<and> result_RequeueAfter result = 0"
proof -
  have "\<not> IsWSAInMaps e' req"
    using pipeline.processed_known[OF assms(1,3,4)] controllers.terminating_not_live[OF assms(2,6,7,5)] by blast
  from controllers.unknown_removed[OF assms(2,11,8-10) this] show ?thesis by (simp add: Result_zero_def)
qed

text \<open>
  A resource is protected before it is processed: when reconciling a live resource succeeds, the
  object in the cluster has the cleanup finalizer and what was collected is an event with
  exactly this object, a creation when its generation is one.
\<close>

theorem collected_with_finalizer:
  assumes "controllers r view" and "Reconcile k r e ec req c = Some ((result, None), ec', c')"
    and "view c (k, req) = Some x" and "\<not> terminating x"
    and "k \<in> {KWorkloadServiceAccount, KClusterWorkloadServiceAccount}"
  shows "\<exists>event y. map_of (ec_eventMap ec') req = Some event \<and>
    ev_EventType event = (if om_Generation (obj_meta y) = 1 then EventTypeCreate else EventTypeUpdate) \<and>
    view c' (k, req) = Some y \<and> ServiceAccountCleanupFinalizer \<in> set (om_Finalizers (obj_meta y)) \<and>
    resource_of y = Some (ev_Resource event)"
  by (rule controllers.queued_protected[OF assms])

text \<open>
  C39. A new leader does not wait: with an engine that was just constructed, or that only followed the
  cluster by refreshing, a resource that is being deleted loses its finalizer and goes at the
  first reconciliation, while all its accounts, roles and bindings are as they were.
\<close>

theorem new_leader_does_not_wait:
  assumes "controllers r view"
    and "e0 = NewInMemoryEngine cl sch re cache \<or> e0 = NewInMemoryEngineWithNamespaces cl sch nss"
    and "e = e0 \<or> RefreshScopeMappings \<omega> e0 d = (err, e, d')"
    and "view c (k, req) = Some x" and "terminating x"
    and "om_Finalizers (obj_meta x) = [ServiceAccountCleanupFinalizer]"
    and "Reconcile k r e ec req c = Some ((result, None), ec', c')"
  shows "view c' = (view c)((k, req) := None)"
proof -
  have "e_saToWsaMap e0 = []"
    using assms(2) by (auto simp: NewInMemoryEngine_def NewInMemoryEngineWithNamespaces_def)
  then have "e_saToWsaMap e = []" using assms(3) by (auto elim!: RefreshScopeMappings_cases)
  then have "\<not> IsWSAInMaps e req" by (simp add: IsWSAInMaps_def)
  from controllers.unknown_removed[OF assms(1,7,4-6) this] show ?thesis by simp
qed

section \<open>The reconcilers on the in-memory server\<close>

definition go_controllerutil :: controllerutil where
  "go_controllerutil =
     \<lparr>cu_ContainsFinalizer = (\<lambda>x f. f \<in> set (om_Finalizers (obj_meta x))),
      cu_AddFinalizer = (\<lambda>x f. if f \<in> set (om_Finalizers (obj_meta x)) then x
         else map_meta (\<lambda>m. m\<lparr>om_Finalizers := om_Finalizers m @ [f]\<rparr>) x),
      cu_RemoveFinalizer = (\<lambda>x f. map_meta (\<lambda>m. m\<lparr>om_Finalizers := removeAll f (om_Finalizers m)\<rparr>) x)\<rparr>"

interpretation util: finalizers go_controllerutil
  by unfold_locales (simp_all add: go_controllerutil_def)

lemma do_Patch_cases:
  assumes "do_Patch new s = (q, s')"
  shows "q = Inl NotFound \<and> s' = s \<or> (\<exists>y. q = Inr y \<and> patched new y (server_view s) (server_view s'))"
proof (cases "server_view s (obj_id new)")
  case None
  with assms show ?thesis by (simp add: do_Patch_def)
next
  case (Some old)
  let ?y = "map_meta (\<lambda>m. m\<lparr>om_Finalizers := om_Finalizers (obj_meta new)\<rparr>) old"
  have id: "obj_id old = obj_id new" by (rule server_view_id[OF Some])
  then have y: "obj_id ?y = obj_id new" by (simp add: om_key_def)
  have "valid_id (obj_id ?y)" using Some y by (auto simp: server_view_def split: if_splits)
  then have "server_view (store_object ?y s) = (server_view s)(obj_id new \<mapsto> ?y)" using view_store_object y by metis
  moreover have "q = Inr ?y" "s' = (if terminating ?y \<and> om_Finalizers (obj_meta ?y) = [] then without (obj_id ?y) s else store_object ?y s)"
    using assms Some by (auto simp: do_Patch_def Let_def)
  ultimately show ?thesis
    using Some y by (auto simp: patched_def view_without intro!: exI[of _ old])
qed

interpretation srv_patch: patch_client server_client server_view
proof
  fix s s' :: server and old new y :: object and e
  show "patched new y (server_view s) (server_view s')" if "client_Patch server_client old new s = (Inr y, s')"
    using that do_Patch_cases[of new]
    by (simp add: server_client_def) (elim server_write_cases; fastforce)
  show "server_view s' = server_view s \<or> (\<exists>y. patched new y (server_view s) (server_view s'))"
    if "client_Patch server_client old new s = (Inl e, s')"
  proof -
    from that have "server_write (do_Patch new) s = (Inl e, s')" by (simp add: server_client_def)
    then show ?thesis
    proof (cases rule: server_write_cases)
      case (1 s1)
      with do_Patch_cases[OF 1(2)] show ?thesis by auto
    next
      case (3 s1 msg)
      then show ?thesis using do_Patch_cases[of new s1] by (metis prod.collapse)
    qed simp
  qed
qed

definition server_reconciler :: "server reconciler" where
  "server_reconciler = \<lparr>rc_Client = server_client, rc_Recorder = Some (\<lambda>res t rsn msg s. s), rc_Now = (\<lambda>_. 9),
     rc_util = go_controllerutil\<rparr>"

interpretation srv_controllers: controllers server_reconciler server_view
  using util.finalizers_axioms srv_patch.patch_client_axioms
  by (auto simp: controllers_def controllers_axioms_def server_reconciler_def)

section \<open>Examples\<close>

definition dying_wsa :: "string \<Rightarrow> WorkloadServiceAccount" where
  "dying_wsa name = access_wsa\<lparr>wsaMeta := (wsaMeta access_wsa)\<lparr>om_Name := name, om_DeletionTimestamp := Some 5,
     om_Finalizers := [ServiceAccountCleanupFinalizer]\<rparr>\<rparr>"

definition dying_server :: server where
  "dying_server = server_with [ONamespace (ObjectMeta_zero\<lparr>om_Name := ''team''\<rparr>),
     OWorkloadServiceAccount access_wsa, OWorkloadServiceAccount (dying_wsa ''b'')]"

definition dying_batch :: Batch where
  "dying_batch = NewBatch ''b2'' 0 [NewEventInfo 0 (NewWSAResource (dying_wsa ''b'')) EventTypeDelete]"

definition dying_run :: "error option \<times> Batch \<times> server InMemoryEngine \<times> server" where
  "dying_run = processBatch (example_orchestrator order_id) dying_batch access_engine dying_server"

abbreviation quiet :: EventCollector where
  "quiet \<equiv> NewEventCollector 1 100"

definition dying_done :: "(Result \<times> error option) \<times> EventCollector \<times> server" where
  "dying_done = the (Reconcile KWorkloadServiceAccount server_reconciler (fst (snd (snd dying_run))) quiet (key ''team'' ''b'')
     (snd (snd (snd dying_run))))"

lemma dying_done_eq:
  assumes "Reconcile k r e ec req c \<noteq> None" "d = the (Reconcile k r e ec req c)" "snd (fst d) = None"
  shows "Reconcile k r e ec req c = Some ((fst (fst d), None), fst (snd d), snd (snd d))"
  using assms by (metis option.collapse prod.collapse)

theorem deletion_completes_witness:
  "server_view (snd (snd (snd dying_run))) (KWorkloadServiceAccount, key ''team'' ''b'') \<noteq> None \<and>
   server_view (snd (snd dying_done)) =
     (server_view (snd (snd (snd dying_run))))((KWorkloadServiceAccount, key ''team'' ''b'') := None)"
proof -
  have "fst dying_run = None" by code_simp
  then have run: "processBatch (example_orchestrator order_id) dying_batch access_engine dying_server =
      (None, fst (snd dying_run), fst (snd (snd dying_run)), snd (snd (snd dying_run)))"
    unfolding dying_run_def by (metis prod.collapse)
  have 1: "ba_Resources dying_batch \<noteq> []" by (simp add: dying_batch_def NewBatch_def)
  have 2: "server_view dying_server (KWorkloadServiceAccount, key ''team'' ''b'') = Some (OWorkloadServiceAccount (dying_wsa ''b''))"
    by code_simp
  have "Reconcile KWorkloadServiceAccount server_reconciler (fst (snd (snd dying_run))) quiet (key ''team'' ''b'')
     (snd (snd (snd dying_run))) \<noteq> None" by code_simp
  from dying_done_eq[OF this dying_done_def] have 3:
    "snd (fst dying_done) = None \<Longrightarrow> Reconcile KWorkloadServiceAccount server_reconciler (fst (snd (snd dying_run))) quiet
      (key ''team'' ''b'') (snd (snd (snd dying_run))) = Some ((fst (fst dying_done), None), fst (snd dying_done), snd (snd dying_done))" .
  have 4: "snd (fst dying_done) = None" by code_simp
  have "server_view (snd (snd (snd dying_run))) (KWorkloadServiceAccount, key ''team'' ''b'') \<noteq> None" by code_simp
  then obtain y where y: "server_view (snd (snd (snd dying_run))) (KWorkloadServiceAccount, key ''team'' ''b'') = Some y" by blast
  have "map_option (\<lambda>y. (om_DeletionTimestamp (obj_meta y), om_Finalizers (obj_meta y)))
      (server_view (snd (snd (snd dying_run))) (KWorkloadServiceAccount, key ''team'' ''b'')) = Some (Some 5, [ServiceAccountCleanupFinalizer])"
    by code_simp
  then have fin: "terminating y" "om_Finalizers (obj_meta y) = [ServiceAccountCleanupFinalizer]"
    by (simp_all add: y terminating_def)
  have "terminating (OWorkloadServiceAccount (dying_wsa ''b''))" by (simp add: terminating_def dying_wsa_def)
  from deletion_completes[OF access_pipeline srv_controllers.controllers_axioms run 1 _ 2 this y fin 3[OF 4]] y
  show ?thesis by simp
qed

definition waiting_server :: server where
  "waiting_server = server_with [OWorkloadServiceAccount (dying_wsa ''a'')]"

definition waiting_done :: "(Result \<times> error option) \<times> EventCollector \<times> server" where
  "waiting_done = the (Reconcile KWorkloadServiceAccount server_reconciler (fst (snd (snd access_run))) quiet (key ''team'' ''a'') waiting_server)"

theorem deletion_waits_witness:
  "server_view (snd (snd waiting_done)) = server_view waiting_server \<and> result_RequeueAfter (fst (fst waiting_done)) = 2 \<and>
   (\<exists>event. map_of (ec_eventMap (fst (snd waiting_done))) (key ''team'' ''a'') = Some event \<and> ev_EventType event = EventTypeDelete)"
proof -
  have a: "Reconcile KWorkloadServiceAccount server_reconciler (fst (snd (snd access_run))) quiet (key ''team'' ''a'') waiting_server \<noteq> None"
    by code_simp
  have b: "snd (fst waiting_done) = None" by code_simp
  note 1 = dying_done_eq[OF a waiting_done_def b]
  have 2: "server_view waiting_server (KWorkloadServiceAccount, key ''team'' ''a'') = Some (OWorkloadServiceAccount (dying_wsa ''a''))"
    by code_simp
  have 3: "IsWSAInMaps (fst (snd (snd access_run))) (key ''team'' ''a'')" by code_simp
  show ?thesis
    by (rule deletion_waits[OF srv_controllers.controllers_axioms 1 _ 2 _ _ 3])
      (simp_all add: terminating_def dying_wsa_def)
qed

theorem new_leader_does_not_wait_witness:
  "\<exists>result ec' c'. Reconcile KWorkloadServiceAccount server_reconciler access_engine quiet (key ''team'' ''a'') waiting_server =
     Some ((result, None), ec', c') \<and>
   server_view c' = (server_view waiting_server)((KWorkloadServiceAccount, key ''team'' ''a'') := None)"
proof -
  let ?R = "Reconcile KWorkloadServiceAccount server_reconciler access_engine quiet (key ''team'' ''a'') waiting_server"
  have a: "?R \<noteq> None" by code_simp
  have b: "snd (fst (the ?R)) = None" by code_simp
  note 1 = dying_done_eq[OF a refl b]
  have 2: "server_view waiting_server (KWorkloadServiceAccount, key ''team'' ''a'') = Some (OWorkloadServiceAccount (dying_wsa ''a''))"
    by code_simp
  have "server_view (snd (snd (the ?R))) = (server_view waiting_server)((KWorkloadServiceAccount, key ''team'' ''a'') := None)"
    by (rule new_leader_does_not_wait[OF srv_controllers.controllers_axioms disjI2[OF access_engine_def] disjI1[OF refl] 2 _ _ 1])
      (simp_all add: terminating_def dying_wsa_def)
  with 1 show ?thesis by blast
qed

definition released :: "(Result \<times> error option) \<times> EventCollector \<times> server" where
  "released = the (Reconcile KWorkloadServiceAccount server_reconciler access_engine quiet (key ''team'' ''a'') waiting_server)"

theorem finalizer_guards_witness:
  "server_view (snd (snd released)) (KWorkloadServiceAccount, key ''team'' ''a'') = None \<and>
   \<not> IsWSAInMaps access_engine (key ''team'' ''a'')"
proof -
  let ?i = "(KWorkloadServiceAccount, key ''team'' ''a'')"
  have a: "Reconcile KWorkloadServiceAccount server_reconciler access_engine quiet (key ''team'' ''a'') waiting_server \<noteq> None"
    by code_simp
  have b: "snd (fst released) = None" by code_simp
  note 1 = dying_done_eq[OF a released_def b]
  have 2: "server_view waiting_server ?i = Some (OWorkloadServiceAccount (dying_wsa ''a''))" by code_simp
  have 3: "server_view (snd (snd released)) ?i = None" by code_simp
  have 4: "ServiceAccountCleanupFinalizer \<in> set (om_Finalizers (obj_meta (OWorkloadServiceAccount (dying_wsa ''a''))))"
    by (simp add: dying_wsa_def)
  have "ServiceAccountCleanupFinalizer \<notin> set (om_Finalizers (obj_meta y))" if "server_view (snd (snd released)) ?i = Some y" for y
    using 3 that by (simp only: option.distinct)
  note 5 = this
  note g = finalizer_guards[where view = server_view and c = waiting_server and c' = "snd (snd released)",
      OF srv_controllers.controllers_axioms 1]
  from g 2 3 4 5 show ?thesis by blast
qed

definition collected_done :: "(Result \<times> error option) \<times> EventCollector \<times> server" where
  "collected_done = the (Reconcile KWorkloadServiceAccount server_reconciler access_engine quiet (key ''team'' ''a'') access_server)"

theorem collected_with_finalizer_witness:
  "\<exists>event y. map_of (ec_eventMap (fst (snd collected_done))) (key ''team'' ''a'') = Some event \<and>
     server_view (snd (snd collected_done)) (KWorkloadServiceAccount, key ''team'' ''a'') = Some y \<and>
     ServiceAccountCleanupFinalizer \<in> set (om_Finalizers (obj_meta y)) \<and> resource_of y = Some (ev_Resource event)"
proof -
  have a: "Reconcile KWorkloadServiceAccount server_reconciler access_engine quiet (key ''team'' ''a'') access_server \<noteq> None"
    by code_simp
  have b: "snd (fst collected_done) = None" by code_simp
  note 1 = dying_done_eq[OF a collected_done_def b]
  have 2: "server_view access_server (KWorkloadServiceAccount, key ''team'' ''a'') = Some (OWorkloadServiceAccount access_wsa)"
    by code_simp
  have 3: "\<not> terminating (OWorkloadServiceAccount access_wsa)" by (simp add: terminating_def access_defs)
  note p = collected_with_finalizer[where view = server_view, OF srv_controllers.controllers_axioms 1 2 3]
  obtain event y where "map_of (ec_eventMap (fst (snd collected_done))) (key ''team'' ''a'') = Some event"
    "server_view (snd (snd collected_done)) (KWorkloadServiceAccount, key ''team'' ''a'') = Some y"
    "ServiceAccountCleanupFinalizer \<in> set (om_Finalizers (obj_meta y))" "resource_of y = Some (ev_Resource event)"
    using p by (elim meta_impE exE conjE) (simp only: insert_iff simp_thms)
  then show ?thesis by (intro exI conjI)
qed

end
