(* ===== verification/StateSync.thy ===== *)
theory StateSync
  imports Collector
begin

text \<open>
  \<^verbatim>\<open>internal/reconciliation/state_syncer.go\<close> and the reconciler of
  \<^verbatim>\<open>internal/controller/state_sync_controller.go\<close>: how a replica that is not the leader keeps its
  scope mappings current. The loop of \<^verbatim>\<open>Start\<close>, the debouncer and the callers of \<^verbatim>\<open>Trigger\<close> are actions of
  a transition system. Shown: a replica that reports ready answers from a successful refresh; no
  trigger is lost; a pending one leads to a refresh; after the election the engine is left
  to the reconciliation; and what happens when a refresh fails.
\<close>

section \<open>The syncer\<close>

text \<open>\<^verbatim>\<open>triggerCh\<close> and \<^verbatim>\<open>rebuildCh\<close> are channels of capacity one, so numbers up to one.\<close>

record StateSyncer =
  ss_debouncer :: BasicDebouncer
  ss_triggerCh :: nat
  ss_rebuildCh :: nat
  ss_synced :: bool

definition NewStateSyncer :: "nat \<Rightarrow> StateSyncer" where
  "NewStateSyncer debounceInterval =
     \<lparr>ss_debouncer = NewDebouncer debounceInterval, ss_triggerCh = 0, ss_rebuildCh = 0, ss_synced = False\<rparr>"

text \<open>The callback of the debouncer: a send that is dropped when the channel is full.\<close>

definition rebuild_callback :: "StateSyncer \<Rightarrow> StateSyncer option" where
  "rebuild_callback s = (if ss_rebuildCh s < 1 then Some (s\<lparr>ss_rebuildCh := ss_rebuildCh s + 1\<rparr>) else Some s)"

definition Trigger_sync :: "StateSyncer \<Rightarrow> StateSyncer" where
  "Trigger_sync s = (if ss_triggerCh s < 1 then s\<lparr>ss_triggerCh := ss_triggerCh s + 1\<rparr> else s)"

definition rebuild ::
  "go_order \<Rightarrow> 'c InMemoryEngine \<Rightarrow> StateSyncer \<Rightarrow> 'c \<Rightarrow> error option \<times> 'c InMemoryEngine \<times> StateSyncer \<times> 'c" where
  "rebuild \<omega> e s c =
     (case RefreshScopeMappings \<omega> e c of
        (Some err, e', c') \<Rightarrow> (Some err, e', s, c')
      | (None, e', c') \<Rightarrow> (None, e', s\<lparr>ss_synced := True\<rparr>, c'))"

definition HasSynced :: "StateSyncer \<Rightarrow> bool" where
  "HasSynced s = ss_synced s"

definition ReadyzCheck :: "StateSyncer \<Rightarrow> error option" where
  "ReadyzCheck s = (if \<not> HasSynced s then Some (Errorf ''in-memory state has not been built yet'' None) else None)"

definition StateSyncReconciler_Reconcile :: "StateSyncer \<Rightarrow> StateSyncer" where
  "StateSyncReconciler_Reconcile s = Trigger_sync s"

section \<open>The replica\<close>

datatype phase = NotStarted | Running | Stopped

text \<open>The phases in the order in which \<^verbatim>\<open>Start\<close> goes through them.\<close>

fun phase_rank :: "phase \<Rightarrow> nat" where
  "phase_rank NotStarted = 0" | "phase_rank Running = 1" | "phase_rank Stopped = 2"

instantiation phase :: linorder
begin

definition less_eq_phase :: "phase \<Rightarrow> phase \<Rightarrow> bool" where "p \<le> q \<longleftrightarrow> phase_rank p \<le> phase_rank q"

definition less_phase :: "phase \<Rightarrow> phase \<Rightarrow> bool" where "p < q \<longleftrightarrow> phase_rank p < phase_rank q"

instance
proof
  fix p q :: phase
  show "p \<le> q \<Longrightarrow> q \<le> p \<Longrightarrow> p = q" by (cases p; cases q) (simp_all add: less_eq_phase_def)
qed (auto simp: less_eq_phase_def less_phase_def)

end

lemma Stopped_le [simp]: "Stopped \<le> p \<longleftrightarrow> p = Stopped"
  by (cases p) (simp_all add: less_eq_phase_def)

text \<open>
  Besides the syncer: the engine of the replica, the cluster, whether the replica was elected, and what
  \<^verbatim>\<open>Start\<close> is doing. Two fields are history: whether a trigger came in after the last successful refresh began,
  and whether the last refresh failed.
\<close>

record 'c replica =
  rp_syncer :: StateSyncer
  rp_engine :: "'c InMemoryEngine"
  rp_world :: 'c
  rp_elected :: bool
  rp_phase :: phase
  rp_stale :: bool
  rp_failed :: bool

datatype 'c sync_action =
    Start go_order       \<comment> \<open>\<^verbatim>\<open>Start\<close> builds the initial state\<close>
  | Announce             \<comment> \<open>the state sync reconciler calls \<^verbatim>\<open>Trigger\<close>\<close>
  | Take nat             \<comment> \<open>the loop receives from \<^verbatim>\<open>triggerCh\<close>\<close>
  | Stamp                \<comment> \<open>the debouncer receives a timestamp\<close>
  | Fire                 \<comment> \<open>the ticker of the debouncer fires\<close>
  | Rebuild go_order     \<comment> \<open>the loop receives from \<^verbatim>\<open>rebuildCh\<close>\<close>
  | Elect                \<comment> \<open>the manager closes \<^verbatim>\<open>elected\<close>\<close>
  | StandDown            \<comment> \<open>the loop sees the election and returns\<close>
  | World 'c             \<comment> \<open>the cluster changes\<close>

definition do_rebuild :: "go_order \<Rightarrow> 'c replica \<Rightarrow> error option \<times> 'c replica" where
  "do_rebuild \<omega> r =
     (case rebuild \<omega> (rp_engine r) (rp_syncer r) (rp_world r) of
        (err, e', s', c') \<Rightarrow>
          (err, r\<lparr>rp_engine := e', rp_syncer := s', rp_world := c',
                  rp_stale := (if err = None then False else rp_stale r), rp_failed := (err \<noteq> None)\<rparr>))"

fun sync_exec :: "'c sync_action \<Rightarrow> 'c replica \<Rightarrow> 'c replica option" where
  "sync_exec (Start \<omega>) r =
     (if rp_phase r \<noteq> NotStarted then None
      else (case do_rebuild \<omega> r of
              (Some err, r') \<Rightarrow> Some (r'\<lparr>rp_phase := Stopped\<rparr>)
            | (None, r') \<Rightarrow> Some (r'\<lparr>rp_phase := Running\<rparr>)))"
| "sync_exec Announce r = Some (r\<lparr>rp_syncer := StateSyncReconciler_Reconcile (rp_syncer r), rp_stale := True\<rparr>)"
| "sync_exec (Take now) r =
     (if rp_phase r = Running \<and> ss_triggerCh (rp_syncer r) > 0 then
        (case Debounce now (ss_debouncer (rp_syncer r)) of
           None \<Rightarrow> None
         | Some d \<Rightarrow> Some (r\<lparr>rp_syncer := (rp_syncer r)\<lparr>ss_triggerCh := ss_triggerCh (rp_syncer r) - 1, ss_debouncer := d\<rparr>\<rparr>))
      else None)"
| "sync_exec Stamp r =
     (if rp_phase r = NotStarted then None
      else (case debouncer_timestamp (ss_debouncer (rp_syncer r)) of
              None \<Rightarrow> None
            | Some d \<Rightarrow> Some (r\<lparr>rp_syncer := (rp_syncer r)\<lparr>ss_debouncer := d\<rparr>\<rparr>)))"
| "sync_exec Fire r =
     (if rp_phase r = NotStarted then None
      else (case debouncer_tick rebuild_callback (ss_debouncer (rp_syncer r), rp_syncer r) of
              None \<Rightarrow> None
            | Some (d, s) \<Rightarrow> Some (r\<lparr>rp_syncer := s\<lparr>ss_debouncer := d\<rparr>\<rparr>)))"
| "sync_exec (Rebuild \<omega>) r =
     (if rp_phase r = Running \<and> ss_rebuildCh (rp_syncer r) > 0 then
        Some (snd (do_rebuild \<omega> (r\<lparr>rp_syncer := (rp_syncer r)\<lparr>ss_rebuildCh := ss_rebuildCh (rp_syncer r) - 1\<rparr>\<rparr>)))
      else None)"
| "sync_exec Elect r = Some (r\<lparr>rp_elected := True\<rparr>)"
| "sync_exec StandDown r = (if rp_phase r = Running \<and> rp_elected r then Some (r\<lparr>rp_phase := Stopped\<rparr>) else None)"
| "sync_exec (World c) r = Some (r\<lparr>rp_world := c\<rparr>)"

definition new_replica :: "nat \<Rightarrow> 'c InMemoryEngine \<Rightarrow> 'c \<Rightarrow> 'c replica" where
  "new_replica debounceInterval e c =
     \<lparr>rp_syncer = NewStateSyncer debounceInterval, rp_engine = e, rp_world = c, rp_elected = False,
      rp_phase = NotStarted, rp_stale = False, rp_failed = False\<rparr>"

inductive replica_reachable :: "'c InMemoryEngine \<Rightarrow> 'c replica \<Rightarrow> bool" for e where
  new: "replica_reachable e (new_replica interval e c)"
| step: "replica_reachable e r \<Longrightarrow> sync_exec a r = Some r' \<Longrightarrow> replica_reachable e r'"

fun sync_run :: "'c sync_action list \<Rightarrow> 'c replica \<Rightarrow> 'c replica option" where
  "sync_run [] r = Some r"
| "sync_run (a # as) r = (case sync_exec a r of None \<Rightarrow> None | Some r' \<Rightarrow> sync_run as r')"

lemma sync_run_reachable: "replica_reachable e r \<Longrightarrow> sync_run as r = Some r' \<Longrightarrow> replica_reachable e r'"
  by (induction as arbitrary: r) (auto split: option.splits intro: replica_reachable.step)

section \<open>The invariant\<close>

text \<open>Something that will lead to a rebuild.\<close>

definition sync_pending :: "StateSyncer \<Rightarrow> bool" where
  "sync_pending s \<longleftrightarrow> ss_triggerCh s > 0 \<or> db_timeChan (ss_debouncer s) \<noteq> [] \<or> db_ticking (ss_debouncer s) \<or> ss_rebuildCh s > 0"

definition refreshed :: "'c InMemoryEngine \<Rightarrow> bool" where
  "refreshed e \<longleftrightarrow> (\<exists>\<omega> e0 c0 c1. RefreshScopeMappings \<omega> e0 c0 = (None, e, c1))"

definition replica_ok :: "'c InMemoryEngine \<Rightarrow> 'c replica \<Rightarrow> bool" where
  "replica_ok e r \<longleftrightarrow>
     (if ss_synced (rp_syncer r) then refreshed (rp_engine r) else rp_engine r = e) \<and>
     (rp_phase r = Running \<longrightarrow> ss_synced (rp_syncer r)) \<and>
     (rp_stale r \<longrightarrow> sync_pending (rp_syncer r) \<or> rp_failed r) \<and>
     (db_startedTime (ss_debouncer (rp_syncer r)) \<noteq> None \<longleftrightarrow> db_ticking (ss_debouncer (rp_syncer r))) \<and>
     ss_triggerCh (rp_syncer r) \<le> 1 \<and> ss_rebuildCh (rp_syncer r) \<le> 1"

lemma rebuild_cases:
  assumes "do_rebuild \<omega> r = (err, r')"
  obtains c' where "err \<noteq> None" "r' = r\<lparr>rp_world := c', rp_failed := True\<rparr>"
  | e' c' where "err = None" "RefreshScopeMappings \<omega> (rp_engine r) (rp_world r) = (None, e', c')"
      "r' = r\<lparr>rp_engine := e', rp_syncer := (rp_syncer r)\<lparr>ss_synced := True\<rparr>, rp_world := c', rp_stale := False, rp_failed := False\<rparr>"
proof -
  obtain er e' c' where f: "RefreshScopeMappings \<omega> (rp_engine r) (rp_world r) = (er, e', c')" by (metis prod.exhaust)
  show ?thesis
  proof (cases er)
    case None
    with assms f show ?thesis by (intro that(2)[of e' c']) (auto simp: do_rebuild_def rebuild_def)
  next
    case (Some x)
    then have "e' = rp_engine r" using f by (auto elim: RefreshScopeMappings_cases)
    with assms f Some show ?thesis by (intro that(1)[of c']) (auto simp: do_rebuild_def rebuild_def)
  qed
qed

lemma do_rebuild_ok:
  assumes "do_rebuild \<omega> r = (err, r')" "replica_ok e r"
  shows "replica_ok e r'" "err = None \<Longrightarrow> ss_synced (rp_syncer r')" "rp_phase r' = rp_phase r"
  using assms(1)
proof (atomize(full), cases rule: rebuild_cases)
  case (1 c')
  then show "replica_ok e r' \<and> (err = None \<longrightarrow> ss_synced (rp_syncer r')) \<and> rp_phase r' = rp_phase r"
    using assms(2) by (auto simp: replica_ok_def)
next
  case (2 e' c')
  then have "refreshed e'" by (auto simp: refreshed_def)
  with 2 show "replica_ok e r' \<and> (err = None \<longrightarrow> ss_synced (rp_syncer r')) \<and> rp_phase r' = rp_phase r"
    using assms(2) by (auto simp: replica_ok_def)
qed

lemma Trigger_sync_simps [simp]:
  "ss_debouncer (Trigger_sync s) = ss_debouncer s" "ss_rebuildCh (Trigger_sync s) = ss_rebuildCh s"
  "ss_synced (Trigger_sync s) = ss_synced s" "ss_triggerCh (Trigger_sync s) = max 1 (ss_triggerCh s)"
  by (simp_all add: Trigger_sync_def)

lemma sync_step_ok:
  assumes "replica_ok e r" "sync_exec a r = Some r'"
  shows "replica_ok e r'"
proof (cases a)
  case (Start \<omega>)
  obtain err r1 where d: "do_rebuild \<omega> r = (err, r1)" by fastforce
  note ok = do_rebuild_ok[OF d assms(1)]
  show ?thesis
  proof (cases err)
    case None
    then have "r' = r1\<lparr>rp_phase := Running\<rparr>" using assms(2) Start d by (simp split: if_splits)
    then show ?thesis using ok(1) ok(2)[OF None] by (simp add: replica_ok_def)
  next
    case (Some x)
    then have "r' = r1\<lparr>rp_phase := Stopped\<rparr>" using assms(2) Start d by (simp split: if_splits)
    then show ?thesis using ok(1) by (simp add: replica_ok_def)
  qed
next
  case Announce
  then have r': "r' = r\<lparr>rp_syncer := Trigger_sync (rp_syncer r), rp_stale := True\<rparr>"
    using assms(2) by (simp add: StateSyncReconciler_Reconcile_def)
  show ?thesis using assms(1) unfolding r' by (simp add: replica_ok_def sync_pending_def)
next
  case (Take now)
  let ?d = "ss_debouncer (rp_syncer r)"
  have r': "r' = r\<lparr>rp_syncer := (rp_syncer r)\<lparr>ss_triggerCh := ss_triggerCh (rp_syncer r) - 1,
      ss_debouncer := ?d\<lparr>db_timeChan := db_timeChan ?d @ [now]\<rparr>\<rparr>\<rparr>"
    using assms(2) Take by (auto simp: Debounce_def split: if_splits)
  show ?thesis using assms(1) unfolding r' by (simp add: replica_ok_def sync_pending_def)
next
  case Stamp
  let ?d = "ss_debouncer (rp_syncer r)"
  obtain d where d: "debouncer_timestamp ?d = Some d" and r': "r' = r\<lparr>rp_syncer := (rp_syncer r)\<lparr>ss_debouncer := d\<rparr>\<rparr>"
    using assms(2) Stamp by (auto split: if_splits option.splits)
  have "db_ticking d \<and> db_startedTime d \<noteq> None"
    using d assms(1) by (auto simp: debouncer_timestamp_def Let_def replica_ok_def split: list.splits if_splits)
  then show ?thesis using assms(1) unfolding r' by (simp add: replica_ok_def sync_pending_def)
next
  case Fire
  let ?d = "ss_debouncer (rp_syncer r)"
  have r': "r' = r\<lparr>rp_syncer := (rp_syncer r)\<lparr>ss_rebuildCh := max 1 (ss_rebuildCh (rp_syncer r)),
      ss_debouncer := ?d\<lparr>db_ticking := False, db_startedTime := None\<rparr>\<rparr>\<rparr>"
    using assms(2) Fire by (auto simp: debouncer_tick_def rebuild_callback_def split: if_splits)
  show ?thesis using assms(1) unfolding r' by (simp add: replica_ok_def sync_pending_def)
next
  case (Rebuild \<omega>)
  let ?r = "r\<lparr>rp_syncer := (rp_syncer r)\<lparr>ss_rebuildCh := ss_rebuildCh (rp_syncer r) - 1\<rparr>\<rparr>"
  obtain err r1 where d: "do_rebuild \<omega> ?r = (err, r1)" by fastforce
  then have r': "r' = r1" using assms(2) Rebuild by (auto split: if_splits)
  from d show ?thesis
  proof (cases rule: rebuild_cases)
    case (1 c')
    then show ?thesis using assms(1) unfolding r' by (simp add: replica_ok_def)
  next
    case (2 e' c')
    then have "refreshed e'" by (auto simp: refreshed_def)
    then show ?thesis using assms(1) unfolding r' 2 by (simp add: replica_ok_def split: if_splits)
  qed
next
  case Elect
  then have r': "r' = r\<lparr>rp_elected := True\<rparr>" using assms(2) by simp
  show ?thesis using assms(1) unfolding r' by (simp add: replica_ok_def)
next
  case StandDown
  then have r': "r' = r\<lparr>rp_phase := Stopped\<rparr>" using assms(2) by (simp split: if_splits)
  show ?thesis using assms(1) unfolding r' by (simp add: replica_ok_def)
next
  case (World c)
  then have r': "r' = r\<lparr>rp_world := c\<rparr>" using assms(2) by simp
  show ?thesis using assms(1) unfolding r' by (simp add: replica_ok_def)
qed

lemma replica_invariant: "replica_reachable e r \<Longrightarrow> replica_ok e r"
proof (induction rule: replica_reachable.induct)
  case (new interval c)
  then show ?case by (simp add: new_replica_def NewStateSyncer_def NewDebouncer_def replica_ok_def)
qed (rule sync_step_ok)

section \<open>Guarantees of the syncer\<close>

text \<open>
  C8. A replica that reports ready answers from a successful refresh: in every reachable state, under every
  interleaving of the syncer, its engine is exactly as some refresh from the cluster left it, and before the first
  one the readiness check fails and the engine is untouched.
\<close>

theorem ready_means_refreshed:
  assumes "replica_reachable e r"
  shows "if ReadyzCheck (rp_syncer r) = None
    then \<exists>\<omega> e0 c0 c1. RefreshScopeMappings \<omega> e0 c0 = (None, rp_engine r, c1)
    else rp_engine r = e \<and> rp_phase r \<noteq> Running"
  using replica_invariant[OF assms]
  by (auto simp: ReadyzCheck_def HasSynced_def replica_ok_def refreshed_def split: if_splits)

text \<open>
  C27. No trigger is lost: as long as a change was announced that no successful refresh has seen, a
  trigger, a timestamp, a running ticker or a request to rebuild is pending, or the last refresh failed.
  The channels never hold more than one element.
\<close>

theorem no_trigger_lost:
  assumes "replica_reachable e r" and "rp_stale r"
  shows "(sync_pending (rp_syncer r) \<or> rp_failed r) \<and> ss_triggerCh (rp_syncer r) \<le> 1 \<and> ss_rebuildCh (rp_syncer r) \<le> 1"
  using replica_invariant[OF assms(1)] assms(2) by (simp add: replica_ok_def)

text \<open>The phases are gone through in their order, and only a running syncer or its start touch the engine.\<close>

lemma step_advances: "sync_exec a r = Some r' \<Longrightarrow> rp_phase r \<le> rp_phase r'"
  by (cases a) (auto simp: less_eq_phase_def do_rebuild_def split: option.splits if_splits prod.splits)

lemma run_advances: "sync_run as r = Some r' \<Longrightarrow> rp_phase r \<le> rp_phase r'"
proof (induction as arbitrary: r)
  case (Cons a as)
  then show ?case by (auto split: option.splits dest!: step_advances intro: order_trans)
qed simp

lemma stopped_step: "sync_exec a r = Some r' \<Longrightarrow> rp_phase r = Stopped \<Longrightarrow> rp_engine r' = rp_engine r"
  by (cases a) (auto split: option.splits if_splits)

lemma stopped_run: "sync_run as r = Some r' \<Longrightarrow> rp_phase r = Stopped \<Longrightarrow> rp_engine r' = rp_engine r"
proof (induction as arbitrary: r)
  case (Cons a as)
  then obtain r1 where r1: "sync_exec a r = Some r1" "sync_run as r1 = Some r'" by (auto split: option.splits)
  have "rp_phase r1 = Stopped" using step_advances[OF r1(1)] Cons.prems(2) by simp
  with Cons.IH[OF r1(2)] stopped_step[OF r1(1) Cons.prems(2)] show ?case by simp
qed simp

lemma stopped_idle: "sync_run as r = Some r' \<Longrightarrow> rp_phase r = Stopped \<Longrightarrow> Rebuild \<omega> \<notin> set as \<and> Take now \<notin> set as \<and> Start \<omega> \<notin> set as"
proof (induction as arbitrary: r)
  case (Cons a as)
  then obtain r1 where r1: "sync_exec a r = Some r1" "sync_run as r1 = Some r'" by (auto split: option.splits)
  have "rp_phase r1 = Stopped" using step_advances[OF r1(1)] Cons.prems(2) by simp
  from Cons.IH[OF r1(2) this] r1(1) Cons.prems(2) show ?case by auto
qed simp

text \<open>
  C28. The syncer hands the engine over: a running syncer can stand down exactly when the replica has been elected,
  whatever else is pending, and whatever happens afterwards, it stays stopped, takes no trigger and starts no
  refresh, and nothing it does changes the engine.
\<close>

theorem stands_down:
  assumes "rp_phase r = Running"
  shows "if rp_elected r
    then \<exists>r1. sync_exec StandDown r = Some r1 \<and>
      (\<forall>as r2. sync_run as r1 = Some r2 \<longrightarrow> rp_phase r2 = Stopped \<and> rp_engine r2 = rp_engine r \<and>
         (\<forall>\<omega> now. Rebuild \<omega> \<notin> set as \<and> Take now \<notin> set as \<and> Start \<omega> \<notin> set as))
    else sync_exec StandDown r = None"
proof -
  let ?r = "r\<lparr>rp_phase := Stopped\<rparr>"
  have "rp_phase r2 = Stopped \<and> rp_engine r2 = rp_engine r" if "sync_run as ?r = Some r2" for as r2
    using run_advances[OF that] stopped_run[OF that] by simp
  moreover have "Rebuild \<omega> \<notin> set as \<and> Take now \<notin> set as \<and> Start \<omega> \<notin> set as" if "sync_run as ?r = Some r2" for as r2 \<omega> now
    using stopped_idle[OF that] by simp
  moreover have "sync_exec StandDown r = (if rp_elected r then Some ?r else None)" using assms by simp
  ultimately show ?thesis by auto
qed

lemma do_rebuild_fields:
  assumes "RefreshScopeMappings \<omega> (rp_engine r) (rp_world r) = (None, e', c')"
  shows "do_rebuild \<omega> r = (None, r\<lparr>rp_engine := e', rp_syncer := (rp_syncer r)\<lparr>ss_synced := True\<rparr>, rp_world := c',
    rp_stale := False, rp_failed := False\<rparr>)"
  by (simp add: do_rebuild_def rebuild_def assms)

text \<open>What the loop and the debouncer do by themselves.\<close>

fun sync_internal :: "'c sync_action \<Rightarrow> bool" where
  "sync_internal (Take _) \<longleftrightarrow> True" | "sync_internal Stamp \<longleftrightarrow> True"
| "sync_internal Fire \<longleftrightarrow> True" | "sync_internal (Rebuild _) \<longleftrightarrow> True"
| "sync_internal _ \<longleftrightarrow> False"

lemma catch_up:
  assumes ok: "replica_ok e r" and run: "rp_phase r = Running" and pend: "sync_pending (rp_syncer r)"
    and refresh: "RefreshScopeMappings \<omega> (rp_engine r) (rp_world r) = (None, e', c')"
  shows "\<exists>as r'. length as \<le> 4 \<and> list_all sync_internal as \<and> sync_run as r = Some r' \<and> rp_engine r' = e' \<and>
    \<not> rp_stale r' \<and> rp_world r' = c'"
proof -
  have rebuild: "\<exists>r'. sync_run [Rebuild \<omega>] q = Some r' \<and> rp_engine r' = e' \<and> \<not> rp_stale r' \<and> rp_world r' = c'"
    if "rp_phase q = Running" "ss_rebuildCh (rp_syncer q) > 0" "rp_engine q = rp_engine r" "rp_world q = rp_world r" for q
    using that refresh by (simp add: do_rebuild_fields)
  have fire: "\<exists>r'. sync_run [Fire, Rebuild \<omega>] q = Some r' \<and> rp_engine r' = e' \<and> \<not> rp_stale r' \<and> rp_world r' = c'"
    if "rp_phase q = Running" "db_ticking (ss_debouncer (rp_syncer q))" "rp_engine q = rp_engine r" "rp_world q = rp_world r" for q
  proof -
    obtain s where s: "rebuild_callback (rp_syncer q) = Some s" "ss_rebuildCh s > 0"
      by (cases "ss_rebuildCh (rp_syncer q) < 1") (simp_all add: rebuild_callback_def)
    define q' where "q' = q\<lparr>rp_syncer := s\<lparr>ss_debouncer := (ss_debouncer (rp_syncer q))\<lparr>db_ticking := False, db_startedTime := None\<rparr>\<rparr>\<rparr>"
    have "sync_exec Fire q = Some q'" using that(1,2) s by (simp add: debouncer_tick_def q'_def)
    moreover have "\<exists>r'. sync_run [Rebuild \<omega>] q' = Some r' \<and> rp_engine r' = e' \<and> \<not> rp_stale r' \<and> rp_world r' = c'"
      by (rule rebuild) (use that s in \<open>simp_all add: q'_def\<close>)
    ultimately show ?thesis by simp
  qed
  have stamp: "\<exists>r'. sync_run [Stamp, Fire, Rebuild \<omega>] q = Some r' \<and> rp_engine r' = e' \<and> \<not> rp_stale r' \<and> rp_world r' = c'"
    if "rp_phase q = Running" "db_timeChan (ss_debouncer (rp_syncer q)) \<noteq> []" "rp_engine q = rp_engine r"
      "rp_world q = rp_world r" "db_startedTime (ss_debouncer (rp_syncer q)) \<noteq> None \<longleftrightarrow> db_ticking (ss_debouncer (rp_syncer q))" for q
  proof -
    from that obtain t ts where "db_timeChan (ss_debouncer (rp_syncer q)) = t # ts" by (cases "db_timeChan (ss_debouncer (rp_syncer q))") auto
    with that obtain q' where "sync_exec Stamp q = Some q'" "rp_phase q' = Running" "db_ticking (ss_debouncer (rp_syncer q'))"
      "rp_engine q' = rp_engine r" "rp_world q' = rp_world r"
      by (auto simp: debouncer_timestamp_def)
    with fire[of q'] show ?thesis by auto
  qed
  have tick: "db_startedTime (ss_debouncer (rp_syncer r)) \<noteq> None \<longleftrightarrow> db_ticking (ss_debouncer (rp_syncer r))"
    using ok by (simp add: replica_ok_def)
  consider "ss_rebuildCh (rp_syncer r) > 0" | "db_ticking (ss_debouncer (rp_syncer r))"
    | "db_timeChan (ss_debouncer (rp_syncer r)) \<noteq> []" | "ss_triggerCh (rp_syncer r) > 0" "db_timeChan (ss_debouncer (rp_syncer r)) = []"
    using pend by (auto simp: sync_pending_def)
  then show ?thesis
  proof cases
    case 1
    from rebuild[OF run 1 refl refl] show ?thesis by (intro exI[of _ "[Rebuild \<omega>]"]) simp
  next
    case 2
    from fire[OF run 2 refl refl] show ?thesis by (intro exI[of _ "[Fire, Rebuild \<omega>]"]) simp
  next
    case 3
    from stamp[OF run 3 refl refl tick] show ?thesis by (intro exI[of _ "[Stamp, Fire, Rebuild \<omega>]"]) simp
  next
    case 4
    define q where "q = r\<lparr>rp_syncer := (rp_syncer r)\<lparr>ss_triggerCh := ss_triggerCh (rp_syncer r) - 1,
      ss_debouncer := (ss_debouncer (rp_syncer r))\<lparr>db_timeChan := [0]\<rparr>\<rparr>\<rparr>"
    have t: "sync_exec (Take 0) r = Some q"
      using 4 run by (simp add: q_def Debounce_def timeChan_capacity_def)
    have "\<exists>r'. sync_run [Stamp, Fire, Rebuild \<omega>] q = Some r' \<and> rp_engine r' = e' \<and> \<not> rp_stale r' \<and> rp_world r' = c'"
      by (rule stamp) (use run tick in \<open>simp_all add: q_def\<close>)
    then obtain r' where "sync_run (Take 0 # [Stamp, Fire, Rebuild \<omega>]) r = Some r'" "rp_engine r' = e'" "\<not> rp_stale r'" "rp_world r' = c'"
      using t by auto
    then show ?thesis by (intro exI[of _ "[Take 0, Stamp, Fire, Rebuild \<omega>]"]) simp
  qed
qed

text \<open>
  C17. A running replica catches up: as long as something is pending, at most four steps of its own loop and
  debouncer refresh the engine from the cluster, if the cluster can be listed; then every announced
  change has been seen.
\<close>

theorem replica_catches_up:
  assumes "replica_reachable e r" and "rp_phase r = Running" and "sync_pending (rp_syncer r)"
    and "RefreshScopeMappings \<omega> (rp_engine r) (rp_world r) = (None, e', c')"
  shows "\<exists>as r'. length as \<le> 4 \<and> list_all sync_internal as \<and> sync_run as r = Some r' \<and> rp_engine r' = e' \<and> \<not> rp_stale r'"
  using catch_up[OF replica_invariant[OF assms(1)] assms(2-4)] by blast

section \<open>Examples\<close>

lemma none_triple: "fst p = None \<Longrightarrow> p = (None, fst (snd p), snd (snd p))"
  by (cases p) simp

definition fresh_replica :: "server replica" where
  "fresh_replica = new_replica 500 example_engine two_projects_server"

lemma fresh_replica_reachable: "replica_reachable example_engine fresh_replica"
  unfolding fresh_replica_def by (rule replica_reachable.new)

definition first_steps :: "server sync_action list" where
  "first_steps = [Start order_id, Announce]"

definition running_replica :: "server replica" where
  "running_replica = the (sync_run first_steps fresh_replica)"

lemma first_steps_run:
  "case sync_run first_steps fresh_replica of None \<Rightarrow> False
   | Some r \<Rightarrow> rp_phase r = Running \<and> ReadyzCheck (rp_syncer r) = None \<and> rp_stale r \<and> ss_triggerCh (rp_syncer r) = 1 \<and>
       listResources (rp_engine r) (rp_world r) = (Inr two_projects, two_projects_server)"
  by code_simp

lemma running_replica:
  "replica_reachable example_engine running_replica" "rp_phase running_replica = Running"
  "ReadyzCheck (rp_syncer running_replica) = None" "rp_stale running_replica" "ss_triggerCh (rp_syncer running_replica) = 1"
  "listResources (rp_engine running_replica) (rp_world running_replica) = (Inr two_projects, two_projects_server)"
  using first_steps_run sync_run_reachable[OF fresh_replica_reachable, of first_steps]
  by (auto simp: running_replica_def split: option.splits)

text \<open>The listing of the second refresh is refused.\<close>

definition failing_steps :: "server sync_action list" where
  "failing_steps = [Start order_id, World (two_projects_server\<lparr>srv_faults := [Refuse ''timeout'']\<rparr>),
     Announce, Take 0, Stamp, Fire, Rebuild order_id]"

definition failed_replica :: "server replica" where
  "failed_replica = the (sync_run failing_steps fresh_replica)"

lemma failing_steps_run:
  "case sync_run failing_steps fresh_replica of None \<Rightarrow> False
   | Some r \<Rightarrow> rp_phase r = Running \<and> rp_stale r \<and> ReadyzCheck (rp_syncer r) = None \<and> ss_triggerCh (rp_syncer r) = 0 \<and>
       db_timeChan (ss_debouncer (rp_syncer r)) = [] \<and> \<not> db_ticking (ss_debouncer (rp_syncer r)) \<and>
       ss_rebuildCh (rp_syncer r) = 0"
  by code_simp

lemma failed_replica:
  "replica_reachable example_engine failed_replica" "rp_phase failed_replica = Running" "rp_stale failed_replica"
  "ReadyzCheck (rp_syncer failed_replica) = None" "ss_triggerCh (rp_syncer failed_replica) = 0"
  "db_timeChan (ss_debouncer (rp_syncer failed_replica)) = []" "\<not> db_ticking (ss_debouncer (rp_syncer failed_replica))"
  "ss_rebuildCh (rp_syncer failed_replica) = 0"
  using failing_steps_run sync_run_reachable[OF fresh_replica_reachable, of failing_steps]
  by (auto simp: failed_replica_def split: option.splits)

text \<open>
  C38. A failed refresh is not repeated: in a reachable state of a running replica an announced change
  has not been seen, nothing is pending, and neither the loop nor the debouncer can take a step, while
  the replica still reports ready; only another change will make it look again.
\<close>

theorem failed_refresh_stalls:
  "replica_reachable example_engine failed_replica \<and> rp_phase failed_replica = Running \<and> rp_stale failed_replica \<and>
   ReadyzCheck (rp_syncer failed_replica) = None \<and>
   (\<forall>a. sync_internal a \<longrightarrow> sync_exec a failed_replica = None)"
proof -
  have "sync_exec a failed_replica = None" if "sync_internal a" for a
    using that failed_replica by (cases a) (simp_all add: debouncer_timestamp_def debouncer_tick_def)
  with failed_replica show ?thesis by blast
qed

theorem failed_refresh_stalls_witness:
  "sync_exec Fire failed_replica = None"
  using failed_refresh_stalls sync_internal.simps(3) by blast

theorem ready_means_refreshed_witness:
  "\<exists>\<omega> e0 c0 c1. RefreshScopeMappings \<omega> e0 c0 = (None, rp_engine running_replica, c1)"
  using ready_means_refreshed[OF running_replica(1)] running_replica(3) by simp

theorem no_trigger_lost_witness:
  "sync_pending (rp_syncer running_replica) \<or> rp_failed running_replica"
  using no_trigger_lost[OF running_replica(1,4)] by blast

definition retired_replica :: "server replica" where
  "retired_replica = running_replica\<lparr>rp_elected := True, rp_phase := Stopped\<rparr>"

theorem stands_down_witness:
  "sync_run [StandDown] (running_replica\<lparr>rp_elected := True\<rparr>) = Some retired_replica \<and>
   (\<exists>r'. sync_run [Announce, World (server_with [])] retired_replica = Some r' \<and> rp_engine r' = rp_engine running_replica)"
proof -
  let ?r = "running_replica\<lparr>rp_elected := True\<rparr>"
  have p: "rp_phase ?r = Running" using running_replica(2) by simp
  then have d: "sync_exec StandDown ?r = Some retired_replica" by (simp add: retired_replica_def)
  obtain r' where r': "sync_run [Announce, World (server_with [])] retired_replica = Some r'" by simp
  from stands_down[OF p] have "rp_engine r2 = rp_engine ?r" if "sync_run as retired_replica = Some r2" for as r2
    using that unfolding d by auto
  from this[OF r'] have "rp_engine r' = rp_engine ?r" .
  moreover have "sync_run [StandDown] ?r = Some retired_replica" unfolding sync_run.simps d by simp
  ultimately show ?thesis using r' by simp
qed

theorem replica_catches_up_witness:
  "\<exists>as r'. length as \<le> 4 \<and> sync_run as running_replica = Some r' \<and> \<not> rp_stale r'"
proof -
  let ?R = "RefreshScopeMappings order_id (rp_engine running_replica) (rp_world running_replica)"
  have "sync_pending (rp_syncer running_replica)" using running_replica(5) by (simp add: sync_pending_def)
  moreover have "fst ?R = None"
    using running_replica(6) by (simp add: RefreshScopeMappings_def computeStateFromCluster_def case_prod_beta Let_def)
  ultimately show ?thesis using replica_catches_up[OF running_replica(1,2) _ none_triple] by blast
qed

end
