(* ===== verification/Metrics.thy ===== *)
theory Metrics
  imports Guarantees
begin

text \<open>
  \<^verbatim>\<open>internal/metrics/collector.go\<close>: the gauges that a scrape computes from the cluster and the engine.
  A channel is the list of what was sent. Shown: a scrape never panics, sends only metrics that were
  described, and none twice; and every number it reports is true: of objects in the cluster, of the scopes
  that the engine's resources cover, of the configured namespaces. (Theory \<open>Instruments\<close> has the counters and histograms that other code moves.)
\<close>

section \<open>Descriptors and metrics\<close>

text \<open>
  \<^verbatim>\<open>prometheus.NewDesc\<close> and \<^verbatim>\<open>prometheus.MustNewConstMetric\<close> of a gauge, which panics (\<open>None\<close>) when the label
  values do not fit the descriptor. All values are counts.
\<close>

record Desc =
  desc_fqName :: string
  desc_help :: string
  desc_variableLabels :: "string list"

record Metric =
  metric_Desc :: Desc
  metric_Value :: nat
  metric_Labels :: "string list"

abbreviation NewDesc :: "string \<Rightarrow> string \<Rightarrow> string list \<Rightarrow> Desc" where
  "NewDesc fqName help labels \<equiv> \<lparr>desc_fqName = fqName, desc_help = help, desc_variableLabels = labels\<rparr>"

definition MustNewConstMetric :: "Desc \<Rightarrow> nat \<Rightarrow> string list \<Rightarrow> Metric option" where
  "MustNewConstMetric desc value labels =
     (if length labels = length (desc_variableLabels desc)
      then Some \<lparr>metric_Desc = desc, metric_Value = value, metric_Labels = labels\<rparr> else None)"

record 'c OctopusMetricsCollector =
  omc_client :: "'c client"
  omc_engine :: "'c InMemoryEngine"
  wsaTotalDesc :: Desc
  cwsaTotalDesc :: Desc
  serviceAccountsTotalDesc :: Desc
  rolesTotalDesc :: Desc
  clusterRolesTotalDesc :: Desc
  roleBindingsTotalDesc :: Desc
  clusterRoleBindingsTotalDesc :: Desc
  distinctScopesTotalDesc :: Desc
  scopesWithProjectsTotalDesc :: Desc
  scopesWithProjectGroupsTotalDesc :: Desc
  scopesWithEnvironmentsTotalDesc :: Desc
  scopesWithTenantsTotalDesc :: Desc
  scopesWithStepsTotalDesc :: Desc
  scopesWithSpacesTotalDesc :: Desc
  targetNamespacesTotalDesc :: Desc

definition NewOctopusMetricsCollector :: "'c client \<Rightarrow> 'c InMemoryEngine \<Rightarrow> 'c OctopusMetricsCollector" where
  "NewOctopusMetricsCollector cli eng =
     \<lparr>omc_client = cli, omc_engine = eng,
      wsaTotalDesc = NewDesc ''octopus_wsa_total'' ''Total number of WorkloadServiceAccounts'' [''namespace''],
      cwsaTotalDesc = NewDesc ''octopus_cwsa_total'' ''Total number of ClusterWorkloadServiceAccounts'' [],
      serviceAccountsTotalDesc =
        NewDesc ''octopus_service_accounts_total'' ''Total number of Service Accounts managed by Octopus'' [''namespace''],
      rolesTotalDesc = NewDesc ''octopus_roles_total'' ''Total number of Roles managed by Octopus'' [''namespace''],
      clusterRolesTotalDesc =
        NewDesc ''octopus_cluster_roles_total'' ''Total number of ClusterRoles managed by Octopus'' [],
      roleBindingsTotalDesc =
        NewDesc ''octopus_role_bindings_total'' ''Total number of RoleBindings managed by Octopus'' [''namespace''],
      clusterRoleBindingsTotalDesc =
        NewDesc ''octopus_cluster_role_bindings_total'' ''Total number of ClusterRoleBindings managed by Octopus'' [],
      distinctScopesTotalDesc = NewDesc ''octopus_distinct_scopes_total'' ''Total number of distinct scopes'' [],
      scopesWithProjectsTotalDesc =
        NewDesc ''octopus_scopes_with_projects_total'' ''Number of scopes with Project defined'' [],
      scopesWithProjectGroupsTotalDesc =
        NewDesc ''octopus_scopes_with_project_groups_total'' ''Number of scopes with Project Group defined'' [],
      scopesWithEnvironmentsTotalDesc =
        NewDesc ''octopus_scopes_with_environments_total'' ''Number of scopes with Environment defined'' [],
      scopesWithTenantsTotalDesc =
        NewDesc ''octopus_scopes_with_tenants_total'' ''Number of scopes with Tenant defined'' [],
      scopesWithStepsTotalDesc = NewDesc ''octopus_scopes_with_steps_total'' ''Number of scopes with Step defined'' [],
      scopesWithSpacesTotalDesc = NewDesc ''octopus_scopes_with_spaces_total'' ''Number of scopes with Space defined'' [],
      targetNamespacesTotalDesc = NewDesc ''octopus_target_namespaces_total'' ''Number of target namespaces'' []\<rparr>"

definition Describe :: "'c OctopusMetricsCollector \<Rightarrow> Desc list" where
  "Describe c =
     [wsaTotalDesc c, cwsaTotalDesc c, serviceAccountsTotalDesc c, rolesTotalDesc c, clusterRolesTotalDesc c,
      roleBindingsTotalDesc c, clusterRoleBindingsTotalDesc c, distinctScopesTotalDesc c,
      scopesWithProjectsTotalDesc c, scopesWithProjectGroupsTotalDesc c, scopesWithEnvironmentsTotalDesc c,
      scopesWithTenantsTotalDesc c, scopesWithStepsTotalDesc c, scopesWithSpacesTotalDesc c,
      targetNamespacesTotalDesc c]"

section \<open>Collecting\<close>

text \<open>The loop \<^verbatim>\<open>namespaceCounts[x.Namespace]++\<close>, and the loop that sends one metric for each namespace.\<close>

definition namespaceCounts :: "('a \<Rightarrow> string) \<Rightarrow> 'a list \<Rightarrow> (string, nat) gomap" where
  "namespaceCounts ns xs =
     fold (\<lambda>x m. map_put (ns x) ((case map_of m (ns x) of Some n \<Rightarrow> n | None \<Rightarrow> 0) + 1) m) xs []"

definition sendCounts :: "go_order \<Rightarrow> Desc \<Rightarrow> (string, nat) gomap \<Rightarrow> Metric list option" where
  "sendCounts \<omega> desc counts =
     those (map (\<lambda>(namespace, count). MustNewConstMetric desc count [namespace]) (go_range (o_string \<omega>) counts))"

text \<open>The error, if any, what was sent before it, and the world; \<open>None\<close> is a panic.\<close>

type_synonym 'c collected = "(error option \<times> Metric list \<times> 'c) option"

definition collectWSAMetrics :: "go_order \<Rightarrow> 'c OctopusMetricsCollector \<Rightarrow> 'c \<Rightarrow> 'c collected" where
  "collectWSAMetrics \<omega> col c =
     (case GetWorkloadServiceAccounts (e_service (omc_engine col)) c of
        (Inl err, c') \<Rightarrow> Some (Some (Errorf ''failed to get workload service accounts'' (Some err)), [], c')
      | (Inr wsas, c') \<Rightarrow>
          (case sendCounts \<omega> (wsaTotalDesc col) (namespaceCounts (\<lambda>wsa. om_Namespace (wsaMeta wsa)) wsas) of
             None \<Rightarrow> None | Some ms \<Rightarrow> Some (None, ms, c')))"

definition collectCWSAMetrics :: "'c OctopusMetricsCollector \<Rightarrow> 'c \<Rightarrow> 'c collected" where
  "collectCWSAMetrics col c =
     (case GetClusterWorkloadServiceAccounts (e_service (omc_engine col)) c of
        (Inl err, c') \<Rightarrow> Some (Some (Errorf ''failed to get cluster workload service accounts'' (Some err)), [], c')
      | (Inr cwsas, c') \<Rightarrow>
          (case MustNewConstMetric (cwsaTotalDesc col) (length cwsas) [] of
             None \<Rightarrow> None | Some m \<Rightarrow> Some (None, [m], c')))"

definition collectServiceAccountMetrics :: "go_order \<Rightarrow> 'c OctopusMetricsCollector \<Rightarrow> 'c \<Rightarrow> 'c collected" where
  "collectServiceAccountMetrics \<omega> col c =
     (case GetServiceAccounts (e_service (omc_engine col)) c of
        (Inl err, c') \<Rightarrow> Some (Some (Errorf ''failed to get service accounts'' (Some err)), [], c')
      | (Inr sas, c') \<Rightarrow>
          (case sendCounts \<omega> (serviceAccountsTotalDesc col) (namespaceCounts (\<lambda>sa. om_Namespace (sa_Meta sa)) sas) of
             None \<Rightarrow> None | Some ms \<Rightarrow> Some (None, ms, c')))"

definition collectRoleMetrics :: "go_order \<Rightarrow> 'c OctopusMetricsCollector \<Rightarrow> 'c \<Rightarrow> 'c collected" where
  "collectRoleMetrics \<omega> col c =
     (case GetRoles_api (e_service (omc_engine col)) c of
        (Inl err, c1) \<Rightarrow> Some (Some (Errorf ''failed to get roles'' (Some err)), [], c1)
      | (Inr roles, c1) \<Rightarrow>
          (case sendCounts \<omega> (rolesTotalDesc col) (namespaceCounts (\<lambda>ro. om_Namespace (ro_Meta ro)) roles) of
             None \<Rightarrow> None
           | Some ms \<Rightarrow>
               (case GetClusterRoles_api (e_service (omc_engine col)) c1 of
                  (Inl err, c2) \<Rightarrow> Some (Some (Errorf ''failed to get cluster roles'' (Some err)), ms, c2)
                | (Inr clusterRoles, c2) \<Rightarrow>
                    (case MustNewConstMetric (clusterRolesTotalDesc col) (length clusterRoles) [] of
                       None \<Rightarrow> None | Some m \<Rightarrow> Some (None, ms @ [m], c2)))))"

definition collectRoleBindingMetrics :: "go_order \<Rightarrow> 'c OctopusMetricsCollector \<Rightarrow> 'c \<Rightarrow> 'c collected" where
  "collectRoleBindingMetrics \<omega> col c =
     (case GetRoleBindings (e_service (omc_engine col)) c of
        (Inl err, c1) \<Rightarrow> Some (Some (Errorf ''failed to get role bindings'' (Some err)), [], c1)
      | (Inr rbs, c1) \<Rightarrow>
          (case sendCounts \<omega> (roleBindingsTotalDesc col) (namespaceCounts (\<lambda>rb. om_Namespace (rb_Meta rb)) rbs) of
             None \<Rightarrow> None
           | Some ms \<Rightarrow>
               (case GetClusterRoleBindings (e_service (omc_engine col)) c1 of
                  (Inl err, c2) \<Rightarrow> Some (Some (Errorf ''failed to get cluster role bindings'' (Some err)), ms, c2)
                | (Inr clusterRoleBindings, c2) \<Rightarrow>
                    (case MustNewConstMetric (clusterRoleBindingsTotalDesc col) (length clusterRoleBindings) [] of
                       None \<Rightarrow> None | Some m \<Rightarrow> Some (None, ms @ [m], c2)))))"

text \<open>
  The counters of the two loops over the resources; \<open>count_scope\<close> is the body of a loop, with
  the six counters in the order of their declaration.
\<close>

definition count_scope :: "WorkloadServiceAccountScope \<Rightarrow> nat list \<Rightarrow> nat list" where
  "count_scope scope n =
     [if length (Projects scope) > 0 then n ! 0 + 1 else n ! 0,
      if length (ProjectGroups scope) > 0 then n ! 1 + 1 else n ! 1,
      if length (Environments scope) > 0 then n ! 2 + 1 else n ! 2,
      if length (Tenants scope) > 0 then n ! 3 + 1 else n ! 3,
      if length (Steps scope) > 0 then n ! 4 + 1 else n ! 4,
      if length (Spaces scope) > 0 then n ! 5 + 1 else n ! 5]"

definition collectScopeMetricsFromResources :: "'c OctopusMetricsCollector \<Rightarrow> 'c \<Rightarrow> 'c collected" where
  "collectScopeMetricsFromResources col c =
     (case client_List (omc_client col) KWorkloadServiceAccount [] c of
        (Inl err, c1) \<Rightarrow> Some (Some (Errorf ''failed to list workload service accounts'' (Some (Api err))), [], c1)
      | (Inr wsaList, c1) \<Rightarrow>
          (case client_List (omc_client col) KClusterWorkloadServiceAccount [] c1 of
             (Inl err, c2) \<Rightarrow>
               Some (Some (Errorf ''failed to list cluster workload service accounts'' (Some (Api err))), [], c2)
           | (Inr cwsaList, c2) \<Rightarrow>
               (let distinctScopesCount = length (GetScopeToSA (e_ScopeComputation (omc_engine col)));
                    n1 = fold (\<lambda>wsa. count_scope (wsaScope (wsaSpec wsa))) (List.map_filter as_WSA wsaList) [0, 0, 0, 0, 0, 0];
                    n2 = fold (\<lambda>cwsa. count_scope (cwsaScope (cwsaSpec cwsa))) (List.map_filter as_CWSA cwsaList) n1;
                    scopeMetrics =
                      [(distinctScopesTotalDesc col, distinctScopesCount),
                       (scopesWithProjectsTotalDesc col, n2 ! 0), (scopesWithProjectGroupsTotalDesc col, n2 ! 1),
                       (scopesWithEnvironmentsTotalDesc col, n2 ! 2), (scopesWithTenantsTotalDesc col, n2 ! 3),
                       (scopesWithStepsTotalDesc col, n2 ! 4), (scopesWithSpacesTotalDesc col, n2 ! 5)]
                in case those (map (\<lambda>(desc, value). MustNewConstMetric desc value []) scopeMetrics) of
                     None \<Rightarrow> None | Some ms \<Rightarrow> Some (None, ms, c2))))"

definition collectTargetNamespaceMetrics :: "'c OctopusMetricsCollector \<Rightarrow> Metric list option" where
  "collectTargetNamespaceMetrics col =
     (case MustNewConstMetric (targetNamespacesTotalDesc col) (length (GetTargetNamespaces (omc_engine col))) [] of
        None \<Rightarrow> None | Some m \<Rightarrow> Some [m])"

text \<open>
  The steps of a scrape one after the other. The error of a step is logged, and the next one runs: the
  first result lists what was logged.
\<close>

fun collect_all :: "('c \<Rightarrow> 'c collected) list \<Rightarrow> 'c \<Rightarrow> (error list \<times> Metric list \<times> 'c) option" where
  "collect_all [] c = Some ([], [], c)"
| "collect_all (f # fs) c =
     (case f c of
        None \<Rightarrow> None
      | Some (err, ms, c1) \<Rightarrow>
          (case collect_all fs c1 of
             None \<Rightarrow> None
           | Some (errs, ms', c2) \<Rightarrow> Some ((case err of None \<Rightarrow> errs | Some e \<Rightarrow> e # errs), ms @ ms', c2)))"

definition Collect_metrics ::
  "go_order \<Rightarrow> 'c OctopusMetricsCollector \<Rightarrow> 'c \<Rightarrow> (error list \<times> Metric list \<times> 'c) option" where
  "Collect_metrics \<omega> col c =
     (case collect_all
         [collectWSAMetrics \<omega> col, collectCWSAMetrics col, collectServiceAccountMetrics \<omega> col,
          collectRoleMetrics \<omega> col, collectRoleBindingMetrics \<omega> col, collectScopeMetricsFromResources col] c of
        None \<Rightarrow> None
      | Some (errs, ms, c') \<Rightarrow>
          (case collectTargetNamespaceMetrics col of None \<Rightarrow> None | Some ms' \<Rightarrow> Some (errs, ms @ ms', c')))"

section \<open>Counting\<close>

lemma namespaceCounts_fold:
  "map_of (fold (\<lambda>x m. map_put (ns x) ((case map_of m (ns x) of Some n \<Rightarrow> n | None \<Rightarrow> 0) + 1) m) xs m) k =
     (let old = (case map_of m k of Some n \<Rightarrow> n | None \<Rightarrow> (0::nat)); new = count_list (map ns xs) k
      in if new = 0 then map_of m k else Some (old + new))"
proof (induction xs arbitrary: m)
  case (Cons x xs)
  show ?case unfolding fold.simps comp_apply Cons.IH
    by (auto simp: map_of_put Let_def split: option.splits)
qed (simp add: Let_def)

lemma map_of_namespaceCounts:
  "map_of (namespaceCounts ns xs) k = (if count_list (map ns xs) k = 0 then None else Some (count_list (map ns xs) k))"
  unfolding namespaceCounts_def namespaceCounts_fold by (simp add: Let_def)

lemma wf_namespaceCounts: "map_wf (namespaceCounts ns xs)"
proof -
  have "map_wf m \<Longrightarrow> map_wf (fold (\<lambda>x m. map_put (ns x) ((case map_of m (ns x) of Some n \<Rightarrow> n | None \<Rightarrow> 0) + 1) m) xs m)"
    for m :: "(string, nat) gomap"
    by (induction xs arbitrary: m) (auto simp: map_wf_def distinct_update)
  then show ?thesis by (simp add: namespaceCounts_def map_wf_def)
qed

lemma count_list_card:
  assumes "distinct xs"
  shows "count_list (map f xs) k = card {x \<in> set xs. f x = k}"
proof -
  have "count_list (map f xs) k = length (filter (\<lambda>x. f x = k) xs)" by (induction xs) auto
  also have "\<dots> = card (set (filter (\<lambda>x. f x = k) xs))"
    using distinct_card[OF distinct_filter[OF assms, of "\<lambda>x. f x = k"]] by simp
  finally show ?thesis by simp
qed

lemma count_scopes_fold:
  "length n = 6 \<Longrightarrow> fold (\<lambda>x. count_scope (f x)) xs n =
     map2 (+) n (map (\<lambda>sel. length (filter (\<lambda>x. sel (f x) \<noteq> []) xs)) [Projects, ProjectGroups, Environments, Tenants, Steps, Spaces])"
proof (induction xs arbitrary: n)
  case Nil
  then obtain a b c d e g where "n = [a, b, c, d, e, g]" by (auto simp: numeral_eq_Suc length_Suc_conv)
  then show ?case by simp
next
  case (Cons x xs)
  then obtain a b c d e g where "n = [a, b, c, d, e, g]" by (auto simp: numeral_eq_Suc length_Suc_conv)
  with Cons.IH[of "count_scope (f x) n"] show ?case by (simp add: count_scope_def)
qed


lemma case_option_Some:
  "(case x of None \<Rightarrow> None | Some y \<Rightarrow> f y) = Some z \<longleftrightarrow> (\<exists>y. x = Some y \<and> f y = Some z)"
  by (cases x) simp_all

lemma those_map:
  assumes "those (map f xs) = Some ys"
  shows "list_all2 (\<lambda>x y. f x = Some y) xs ys"
  using assms by (induction xs arbitrary: ys) (auto split: option.splits)

lemma those_map_Some: "(\<And>x. x \<in> set xs \<Longrightarrow> f x = Some (g x)) \<Longrightarrow> those (map f xs) = Some (map g xs)"
  by (induction xs) auto

lemma MustNewConstMetric_Some:
  "MustNewConstMetric d v ls = Some m \<longleftrightarrow>
     length ls = length (desc_variableLabels d) \<and> m = \<lparr>metric_Desc = d, metric_Value = v, metric_Labels = ls\<rparr>"
  by (auto simp: MustNewConstMetric_def)

lemma distinct_map_filter:
  assumes "distinct xs" "\<And>x y z. f x = Some z \<Longrightarrow> f y = Some z \<Longrightarrow> x = y"
  shows "distinct (List.map_filter f xs)"
  using assms(1)
proof (induction xs)
  case (Cons x xs)
  show ?case
  proof (cases "f x")
    case (Some z)
    have "z \<notin> set (List.map_filter f xs)"
    proof
      assume "z \<in> set (List.map_filter f xs)"
      then obtain y where "y \<in> set xs" "f y = Some z" by (auto simp only: set_map_filter)
      with assms(2)[OF Some] Cons.prems show False by auto
    qed
    with Cons Some show ?thesis by (simp add: map_filter_simps(1))
  qed (use Cons in \<open>simp add: map_filter_simps(1)\<close>)
qed (simp add: map_filter_simps(2))

section \<open>What a scrape may send\<close>

text \<open>The metrics \<open>ms\<close> belong to the descriptors \<open>ds\<close>, fit them, and no two have the same labels.\<close>

definition valid_metrics :: "Desc list \<Rightarrow> Metric list \<Rightarrow> bool" where
  "valid_metrics ds ms \<longleftrightarrow>
     (\<forall>m \<in> set ms. metric_Desc m \<in> set ds \<and> length (metric_Labels m) = length (desc_variableLabels (metric_Desc m))) \<and>
     distinct (map (\<lambda>m. (metric_Desc m, metric_Labels m)) ms)"

lemma valid_Nil [simp]: "valid_metrics ds []"
  by (simp add: valid_metrics_def)

lemma valid_append:
  assumes "valid_metrics ds ms" "valid_metrics ds' ms'" "set ds \<inter> set ds' = {}"
  shows "valid_metrics (ds @ ds') (ms @ ms')"
  using assms by (auto simp: valid_metrics_def)

lemma valid_one:
  assumes "desc_variableLabels d = []"
  shows "MustNewConstMetric d v [] = Some \<lparr>metric_Desc = d, metric_Value = v, metric_Labels = []\<rparr>"
    "valid_metrics [d] [\<lparr>metric_Desc = d, metric_Value = v, metric_Labels = []\<rparr>]"
  using assms by (simp_all add: MustNewConstMetric_def valid_metrics_def)

lemma valid_sendCounts:
  assumes "order_ok \<omega>" "map_wf counts" "length (desc_variableLabels d) = 1"
  obtains ms where "sendCounts \<omega> d counts = Some ms" "valid_metrics [d] ms"
proof -
  let ?ms = "map (\<lambda>(n, v). \<lparr>metric_Desc = d, metric_Value = v, metric_Labels = [n]\<rparr>) (go_range (o_string \<omega>) counts)"
  have "sendCounts \<omega> d counts = Some ?ms"
    unfolding sendCounts_def using assms(3) by (intro those_map_Some) (auto simp: MustNewConstMetric_def)
  moreover have "distinct (map fst (go_range (o_string \<omega>) counts))"
    by (rule distinct_go_range[OF order_okD(1)[OF assms(1)] assms(2)])
  then have "distinct (map (\<lambda>p. (d, [fst p])) (go_range (o_string \<omega>) counts))"
    unfolding distinct_map by (auto simp: inj_on_def)
  then have "valid_metrics [d] ?ms"
    using assms(3) by (simp add: valid_metrics_def comp_def case_prod_beta)
  ultimately show ?thesis by (rule that)
qed

text \<open>A step of a scrape that cannot panic and sends valid metrics of \<open>ds\<close>.\<close>

definition sends :: "Desc list \<Rightarrow> ('c \<Rightarrow> 'c collected) \<Rightarrow> bool" where
  "sends ds f \<longleftrightarrow> (\<forall>c. \<exists>err ms c'. f c = Some (err, ms, c') \<and> valid_metrics ds ms)"

lemma collect_all_valid:
  assumes "list_all2 sends dss fs" "distinct (concat dss)"
  shows "\<exists>errs ms c'. collect_all fs c = Some (errs, ms, c') \<and> valid_metrics (concat dss) ms"
  using assms
proof (induction arbitrary: c rule: list_all2_induct)
  case (Cons ds dss f fs)
  obtain err ms c1 where f: "f c = Some (err, ms, c1)" "valid_metrics ds ms" using Cons.hyps(1) by (force simp: sends_def)
  obtain errs ms' c2 where "collect_all fs c1 = Some (errs, ms', c2)" "valid_metrics (concat dss) ms'" using Cons.IH[of c1] Cons.prems by auto
  moreover from this f(2) have "valid_metrics (ds @ concat dss) (ms @ ms')"
    by (intro valid_append) (use Cons.prems in auto)
  ultimately show ?case using f(1) by simp
qed simp

lemma sends_counts:
  assumes "order_ok \<omega>" "length (desc_variableLabels d) = 1"
    and "\<And>c. f c = (case get c of (Inl err, c') \<Rightarrow> Some (Some (e err), [], c')
      | (Inr xs, c') \<Rightarrow> (case sendCounts \<omega> d (namespaceCounts ns xs) of None \<Rightarrow> None | Some ms \<Rightarrow> Some (None, ms, c')))"
  shows "sends [d] f"
  unfolding sends_def
proof
  fix c
  obtain g c' where "get c = (g, c')" by fastforce
  then show "\<exists>err ms c'. f c = Some (err, ms, c') \<and> valid_metrics [d] ms"
  proof (cases g)
    case (Inr xs)
    obtain ms where "sendCounts \<omega> d (namespaceCounts ns xs) = Some ms" "valid_metrics [d] ms"
      by (rule valid_sendCounts[OF assms(1) wf_namespaceCounts assms(2)])
    then show ?thesis using \<open>get c = (g, c')\<close> Inr by (simp add: assms(3))
  qed (simp add: assms(3) \<open>get c = (g, c')\<close>)
qed

lemma sends_counts_total:
  assumes "order_ok \<omega>" "length (desc_variableLabels d) = 1" "desc_variableLabels d' = []" "d \<noteq> d'"
    and "\<And>c. f c = (case get c of (Inl err, c1) \<Rightarrow> Some (Some (e err), [], c1)
      | (Inr xs, c1) \<Rightarrow> (case sendCounts \<omega> d (namespaceCounts ns xs) of None \<Rightarrow> None
          | Some ms \<Rightarrow> (case get' c1 of (Inl err, c2) \<Rightarrow> Some (Some (e' err), ms, c2)
              | (Inr ys, c2) \<Rightarrow> (case MustNewConstMetric d' (length ys) [] of None \<Rightarrow> None | Some m \<Rightarrow> Some (None, ms @ [m], c2)))))"
  shows "sends [d, d'] f"
  unfolding sends_def
proof
  fix c
  obtain g c1 where g: "get c = (g, c1)" by fastforce
  show "\<exists>err ms c'. f c = Some (err, ms, c') \<and> valid_metrics [d, d'] ms"
  proof (cases g)
    case (Inr xs)
    obtain ms where ms: "sendCounts \<omega> d (namespaceCounts ns xs) = Some ms" "valid_metrics [d] ms"
      by (rule valid_sendCounts[OF assms(1) wf_namespaceCounts assms(2)])
    obtain g' c2 where g': "get' c1 = (g', c2)" by fastforce
    have "valid_metrics [d, d'] ms" using ms(2) by (auto simp: valid_metrics_def)
    moreover have "valid_metrics ([d] @ [d']) (ms @ [\<lparr>metric_Desc = d', metric_Value = v, metric_Labels = []\<rparr>])" for v
      by (rule valid_append[OF ms(2) valid_one(2)[OF assms(3)]]) (use assms(4) in simp)
    ultimately show ?thesis using g Inr ms(1) g' by (cases g') (simp_all add: assms(5) valid_one(1)[OF assms(3)])
  qed (simp add: assms(5) g)
qed

lemma sends_total:
  assumes "desc_variableLabels d = []"
    and "\<And>c. f c = (case get c of (Inl err, c') \<Rightarrow> Some (Some (e err), [], c')
      | (Inr xs, c') \<Rightarrow> (case MustNewConstMetric d (length xs) [] of None \<Rightarrow> None | Some m \<Rightarrow> Some (None, [m], c')))"
  shows "sends [d] f"
  by (auto simp: sends_def assms(2) valid_one[OF assms(1)] split: prod.splits sum.splits)

definition scope_descs :: "'c OctopusMetricsCollector \<Rightarrow> Desc list" where
  "scope_descs col =
     [distinctScopesTotalDesc col, scopesWithProjectsTotalDesc col, scopesWithProjectGroupsTotalDesc col,
      scopesWithEnvironmentsTotalDesc col, scopesWithTenantsTotalDesc col, scopesWithStepsTotalDesc col,
      scopesWithSpacesTotalDesc col]"

definition described :: "'c OctopusMetricsCollector \<Rightarrow> Desc list list" where
  "described col =
     [[wsaTotalDesc col], [cwsaTotalDesc col], [serviceAccountsTotalDesc col],
      [rolesTotalDesc col, clusterRolesTotalDesc col], [roleBindingsTotalDesc col, clusterRoleBindingsTotalDesc col],
      scope_descs col, [targetNamespacesTotalDesc col]]"

lemma Describe_described: "Describe col = concat (described col)"
  by (simp add: Describe_def described_def scope_descs_def)

lemma distinct_Describe: "distinct (Describe (NewOctopusMetricsCollector cl e))"
proof -
  have "distinct (map desc_fqName (Describe (NewOctopusMetricsCollector cl e)))"
    by (simp add: Describe_def NewOctopusMetricsCollector_def)
  then show ?thesis by (simp add: distinct_map)
qed

lemma sends_scopes: "sends (scope_descs (NewOctopusMetricsCollector cl e)) (collectScopeMetricsFromResources (NewOctopusMetricsCollector cl e))"
proof -
  let ?col = "NewOctopusMetricsCollector cl e"
  have labels: "\<forall>d \<in> set (scope_descs ?col). desc_variableLabels d = []" by (simp add: scope_descs_def NewOctopusMetricsCollector_def)
  have "distinct (scope_descs ?col)"
    using distinct_Describe[of cl e] by (simp add: Describe_described described_def)
  with labels show ?thesis
    by (auto simp: sends_def collectScopeMetricsFromResources_def Let_def MustNewConstMetric_def valid_metrics_def scope_descs_def
      split: prod.splits sum.splits)
qed

lemma sends_steps:
  assumes "order_ok \<omega>" and col_def: "col = NewOctopusMetricsCollector cl e"
  shows "list_all2 sends (butlast (described col))
    [collectWSAMetrics \<omega> col, collectCWSAMetrics col, collectServiceAccountMetrics \<omega> col,
     collectRoleMetrics \<omega> col, collectRoleBindingMetrics \<omega> col, collectScopeMetricsFromResources col]"
proof -
  have 1: "sends [wsaTotalDesc col] (collectWSAMetrics \<omega> col)" "sends [serviceAccountsTotalDesc col] (collectServiceAccountMetrics \<omega> col)"
    by (rule sends_counts[OF assms(1) _ collectWSAMetrics_def] sends_counts[OF assms(1) _ collectServiceAccountMetrics_def],
        simp add: col_def NewOctopusMetricsCollector_def)+
  have 2: "sends [cwsaTotalDesc col] (collectCWSAMetrics col)"
    by (rule sends_total[OF _ collectCWSAMetrics_def]) (simp add: col_def NewOctopusMetricsCollector_def)
  have 3: "sends [rolesTotalDesc col, clusterRolesTotalDesc col] (collectRoleMetrics \<omega> col)"
    by (rule sends_counts_total[OF assms(1) _ _ _ collectRoleMetrics_def]) (simp_all add: col_def NewOctopusMetricsCollector_def)
  have 4: "sends [roleBindingsTotalDesc col, clusterRoleBindingsTotalDesc col] (collectRoleBindingMetrics \<omega> col)"
    by (rule sends_counts_total[OF assms(1) _ _ _ collectRoleBindingMetrics_def]) (simp_all add: col_def NewOctopusMetricsCollector_def)
  show ?thesis using 1 2 3 4 sends_scopes[of cl e] by (simp add: described_def col_def)
qed

text \<open>
  C33. A scrape never panics, whatever the API server answers: every metric it sends has a descriptor
  that \<open>Describe\<close> announced and as many label values as that descriptor has labels, and no
  two have the same descriptor and labels, which the registry would reject.
\<close>

theorem collect_valid:
  assumes "order_ok \<omega>"
  shows "\<exists>errs ms c'. Collect_metrics \<omega> (NewOctopusMetricsCollector cl e) c = Some (errs, ms, c') \<and>
    valid_metrics (Describe (NewOctopusMetricsCollector cl e)) ms"
proof -
  let ?col = "NewOctopusMetricsCollector cl e" and ?dss = "butlast (described (NewOctopusMetricsCollector cl e))"
  have d: "distinct (concat ?dss @ [targetNamespacesTotalDesc ?col])"
    using distinct_Describe[of cl e] by (simp add: Describe_described described_def)
  then obtain errs ms c' where ms: "collect_all
      [collectWSAMetrics \<omega> ?col, collectCWSAMetrics ?col, collectServiceAccountMetrics \<omega> ?col,
       collectRoleMetrics \<omega> ?col, collectRoleBindingMetrics \<omega> ?col, collectScopeMetricsFromResources ?col] c = Some (errs, ms, c')"
    "valid_metrics (concat ?dss) ms"
    using collect_all_valid[OF sends_steps[OF assms refl, of cl e], of c] by auto
  have l: "desc_variableLabels (targetNamespacesTotalDesc ?col) = []" by (simp add: NewOctopusMetricsCollector_def)
  have "valid_metrics (concat ?dss @ [targetNamespacesTotalDesc ?col])
      (ms @ [\<lparr>metric_Desc = targetNamespacesTotalDesc ?col, metric_Value = length (GetTargetNamespaces (omc_engine ?col)), metric_Labels = []\<rparr>])"
    by (rule valid_append[OF ms(2) valid_one(2)[OF l]]) (use d in simp)
  moreover have "concat ?dss @ [targetNamespacesTotalDesc ?col] = Describe ?col"
    by (simp add: Describe_described described_def)
  ultimately show ?thesis
    unfolding Collect_metrics_def ms(1) collectTargetNamespaceMetrics_def valid_one(1)[OF l] by simp
qed

section \<open>What the numbers mean\<close>

definition objects_of :: "cluster \<Rightarrow> kind \<Rightarrow> (object \<Rightarrow> bool) \<Rightarrow> object set" where
  "objects_of m k P = {x. (\<exists>n. m (k, n) = Some x) \<and> P x}"

fun scope_of_object :: "object \<Rightarrow> WorkloadServiceAccountScope option" where
  "scope_of_object (OWorkloadServiceAccount w) = Some (wsaScope (wsaSpec w))"
| "scope_of_object (OClusterWorkloadServiceAccount w) = Some (cwsaScope (cwsaSpec w))"
| "scope_of_object _ = None"

text \<open>The number of resources of both kinds that restrict a dimension.\<close>

definition restricting :: "cluster \<Rightarrow> (WorkloadServiceAccountScope \<Rightarrow> string list) \<Rightarrow> nat" where
  "restricting m sel =
     card (objects_of m KWorkloadServiceAccount (\<lambda>x. \<exists>s. scope_of_object x = Some s \<and> sel s \<noteq> [])) +
     card (objects_of m KClusterWorkloadServiceAccount (\<lambda>x. \<exists>s. scope_of_object x = Some s \<and> sel s \<noteq> []))"

text \<open>
  The metrics that are true of a cluster, of the resources \<open>rs\<close> that the engine was last computed from, and of
  its configuration: per namespace the numbers of resources, managed accounts, roles and bindings, the
  totals of the cluster-wide kinds, how many resources restrict each dimension, how many scopes are
  covered by a resource of \<open>rs\<close>, and how many namespaces are configured, none when they are discovered.
\<close>

abbreviation metric :: "Desc \<Rightarrow> nat \<Rightarrow> string list \<Rightarrow> Metric" where
  "metric d v ls \<equiv> \<lparr>metric_Desc = d, metric_Value = v, metric_Labels = ls\<rparr>"

definition per_namespace :: "cluster \<Rightarrow> Desc \<Rightarrow> kind \<Rightarrow> (object \<Rightarrow> bool) \<Rightarrow> Metric set" where
  "per_namespace m d k P = {metric d (card (objects_of m k (\<lambda>x. P x \<and> om_Namespace (obj_meta x) = n))) [n] | n. True}"

definition configured_namespaces :: "'c InMemoryEngine \<Rightarrow> nat" where
  "configured_namespaces e = (if e_namespaceCache e \<noteq> None then 0 else length (e_targetNamespaces e))"

definition true_metrics :: "'c OctopusMetricsCollector \<Rightarrow> WSAResource list \<Rightarrow> cluster \<Rightarrow> Metric set" where
  "true_metrics col rs m =
     per_namespace m (wsaTotalDesc col) KWorkloadServiceAccount (\<lambda>_. True) \<union>
     {metric (cwsaTotalDesc col) (card (objects_of m KClusterWorkloadServiceAccount (\<lambda>_. True))) []} \<union>
     per_namespace m (serviceAccountsTotalDesc col) KServiceAccount managed \<union>
     per_namespace m (rolesTotalDesc col) KRole managed \<union>
     {metric (clusterRolesTotalDesc col) (card (objects_of m KClusterRole managed)) []} \<union>
     per_namespace m (roleBindingsTotalDesc col) KRoleBinding managed \<union>
     {metric (clusterRoleBindingsTotalDesc col) (card (objects_of m KClusterRoleBinding managed)) []} \<union>
     {metric (distinctScopesTotalDesc col) (card {s. \<exists>r \<in> set rs. covers (buildGlobalVocabulary rs) r s}) [],
      metric (scopesWithProjectsTotalDesc col) (restricting m Projects) [],
      metric (scopesWithProjectGroupsTotalDesc col) (restricting m ProjectGroups) [],
      metric (scopesWithEnvironmentsTotalDesc col) (restricting m Environments) [],
      metric (scopesWithTenantsTotalDesc col) (restricting m Tenants) [],
      metric (scopesWithStepsTotalDesc col) (restricting m Steps) [],
      metric (scopesWithSpacesTotalDesc col) (restricting m Spaces) [],
      metric (targetNamespacesTotalDesc col) (configured_namespaces (omc_engine col)) []}"

definition computed_from :: "go_order \<Rightarrow> 'c InMemoryEngine \<Rightarrow> WSAResource list \<Rightarrow> bool" where
  "computed_from \<omega> e rs \<longleftrightarrow>
     GetScopeToSA (e_ScopeComputation e) = fst (GenerateServiceAccountMappings \<omega> (fst (ComputeScopesForWSAs \<omega> rs)))"

lemma scopes_counted:
  assumes "order_ok \<omega>" "computed_from \<omega> e rs"
  shows "length (GetScopeToSA (e_ScopeComputation e)) = card {s. \<exists>r \<in> set rs. covers (buildGlobalVocabulary rs) r s}"
proof -
  let ?t = "scopeToSA_of \<omega> (scopeMap_of \<omega> rs)"
  have "dom (map_of ?t) = {s. \<exists>r \<in> set rs. covers (buildGlobalVocabulary rs) r s}"
    by (auto simp: scopeToSA_account[OF assms(1)] covering_def split: if_splits)
  moreover have "card (dom (map_of ?t)) = length ?t"
    using map_wf_scopeToSA[of \<omega> "scopeMap_of \<omega> rs"] distinct_card[of "map fst ?t"] by (simp add: map_wf_def dom_map_of_conv_image_fst)
  ultimately show ?thesis using assms(2) by (simp add: computed_from_def)
qed

text \<open>An engine that discovers its namespaces never fills the list of configured ones.\<close>

lemma engine_step_namespaces:
  "engine_step e e' \<Longrightarrow> e_targetNamespaces e' = e_targetNamespaces e \<and> e_namespaceCache e' = e_namespaceCache e"
  by (elim engine_stepE RebuildStateFromCluster_cases RefreshScopeMappings_cases)
    (auto simp: ApplyBatchPlan_def engine_SetGCTracker_def CleanupServiceAccounts_def Let_def split: ResourceManagementValue.splits)

lemma discovering_namespaces:
  "engine_reachable e \<Longrightarrow> e_namespaceCache e \<noteq> None \<Longrightarrow> e_targetNamespaces e = []"
proof (induction rule: engine_reachable.induct)
  case (step e e')
  then show ?case using engine_step_namespaces[OF step(2)] by simp
qed (simp_all add: NewInMemoryEngine_def NewInMemoryEngineWithNamespaces_def)

lemma configured_counted: "engine_reachable e \<Longrightarrow> length (GetTargetNamespaces e) = configured_namespaces e"
  using discovering_namespaces[of e] by (simp add: configured_namespaces_def GetTargetNamespaces_def)

text \<open>The items \<open>xs\<close> of a listing are, wrapped as objects, those of kind \<open>k\<close> that satisfy \<open>P\<close>.\<close>

definition current_items :: "cluster \<Rightarrow> kind \<Rightarrow> ('a \<Rightarrow> object) \<Rightarrow> (object \<Rightarrow> bool) \<Rightarrow> 'a list \<Rightarrow> bool" where
  "current_items m k wrap P xs \<longleftrightarrow> distinct xs \<and> inj wrap \<and> wrap ` set xs = objects_of m k P"

lemma current_items_card:
  assumes "current_items m k wrap P xs"
  shows "length (filter (\<lambda>x. Q (wrap x)) xs) = card (objects_of m k (\<lambda>x. P x \<and> Q x))"
proof -
  have d: "distinct xs" and i: "inj wrap" and s: "wrap ` set xs = objects_of m k P" using assms by (simp_all add: current_items_def)
  have "length (filter (\<lambda>x. Q (wrap x)) xs) = card (set (filter (\<lambda>x. Q (wrap x)) xs))"
    using distinct_card[OF distinct_filter[OF d]] by simp
  also have "\<dots> = card (wrap ` set (filter (\<lambda>x. Q (wrap x)) xs))"
    using i by (simp add: card_image inj_on_def inj_def)
  also have "wrap ` set (filter (\<lambda>x. Q (wrap x)) xs) = {y \<in> objects_of m k P. Q y}" unfolding s[symmetric] by auto
  also have "\<dots> = objects_of m k (\<lambda>x. P x \<and> Q x)" by (auto simp: objects_of_def)
  finally show ?thesis .
qed

lemma sendCounts_set:
  assumes "sendCounts \<omega> d counts = Some ms" "order_ok \<omega>"
  shows "set ms = {metric d v [n] | n v. map_of counts n = Some v}"
proof -
  let ?g = "\<lambda>(n, v). MustNewConstMetric d v [n]"
  have g: "?g p = Some y \<Longrightarrow> y = metric d (snd p) [fst p]" for p y
    by (auto simp: MustNewConstMetric_Some split: prod.splits)
  have "list_all2 (\<lambda>p y. y = metric d (snd p) [fst p]) (go_range (o_string \<omega>) counts) ms"
    by (rule list_all2_mono[OF those_map[OF assms(1)[unfolded sendCounts_def]]]) (rule g)
  then have "ms = map (\<lambda>p. metric d (snd p) [fst p]) (go_range (o_string \<omega>) counts)"
    by (auto simp: list_all2_conv_all_nth intro: nth_equalityI)
  then show ?thesis by (force simp: set_go_range[OF order_okD(1)[OF assms(2)]])
qed

lemma sent_per_namespace:
  assumes "sendCounts \<omega> d (namespaceCounts ns xs) = Some ms" "order_ok \<omega>" "current_items m k wrap P xs"
    and ns: "\<And>x. ns x = om_Namespace (obj_meta (wrap x))"
  shows "set ms = {x \<in> per_namespace m d k P. metric_Value x > 0}"
proof -
  have "count_list (map ns xs) n = length (filter (\<lambda>x. om_Namespace (obj_meta (wrap x)) = n) xs)" for n
    by (induction xs) (auto simp: ns)
  then have c: "count_list (map ns xs) n = card (objects_of m k (\<lambda>x. P x \<and> om_Namespace (obj_meta x) = n))" for n
    using current_items_card[OF assms(3)] by simp
  show ?thesis unfolding sendCounts_set[OF assms(1,2)]
    by (auto simp: map_of_namespaceCounts c per_namespace_def)
qed

text \<open>What is sent of true metrics: numbers without labels always, and those of a namespace unless they are 0.\<close>

definition reported :: "Metric \<Rightarrow> bool" where
  "reported x \<longleftrightarrow> metric_Labels x = [] \<or> metric_Value x > 0"

lemma reported_per_namespace:
  "{x \<in> per_namespace m d k P. reported x} = {x \<in> per_namespace m d k P. metric_Value x > 0}"
  by (auto simp: reported_def per_namespace_def)

text \<open>A step that changes nothing, sends only metrics of \<open>T\<close>, and all that are reported if it has no error.\<close>

definition truthful :: "('c \<Rightarrow> cluster) \<Rightarrow> (cluster \<Rightarrow> Metric set) \<Rightarrow> ('c \<Rightarrow> 'c collected) \<Rightarrow> bool" where
  "truthful view T f \<longleftrightarrow> (\<forall>c err ms c'. f c = Some (err, ms, c') \<longrightarrow>
     view c' = view c \<and> set ms \<subseteq> {x \<in> T (view c). reported x} \<and> (err = None \<longrightarrow> {x \<in> T (view c). reported x} \<subseteq> set ms))"

lemma truthfulI:
  assumes "\<And>c err ms c'. f c = Some (err, ms, c') \<Longrightarrow>
    view c' = view c \<and> set ms \<subseteq> {x \<in> T (view c). reported x} \<and> (err = None \<longrightarrow> {x \<in> T (view c). reported x} \<subseteq> set ms)"
  shows "truthful view T f"
  using assms by (simp add: truthful_def)

lemma collect_all_truthful:
  assumes "list_all2 (truthful view) Ts fs" "collect_all fs c = Some (errs, ms, c')"
  shows "view c' = view c \<and> set ms \<subseteq> {x \<in> (\<Union>T \<in> set Ts. T (view c)). reported x} \<and>
    (errs = [] \<longrightarrow> {x \<in> (\<Union>T \<in> set Ts. T (view c)). reported x} \<subseteq> set ms)"
  using assms
proof (induction arbitrary: c errs ms rule: list_all2_induct)
  case (Cons T Ts f fs)
  from Cons.prems obtain err ms1 c1 errs2 ms2 where f: "f c = Some (err, ms1, c1)"
    and fs: "collect_all fs c1 = Some (errs2, ms2, c')"
    and r: "ms = ms1 @ ms2" "errs = [] \<longleftrightarrow> err = None \<and> errs2 = []"
    by (auto split: option.splits)
  have 1: "view c1 = view c" "set ms1 \<subseteq> {x \<in> T (view c). reported x}" "err = None \<Longrightarrow> {x \<in> T (view c). reported x} \<subseteq> set ms1"
    using Cons.hyps(1) f by (simp_all add: truthful_def)
  show ?case using Cons.IH[OF fs] 1 r by auto
qed simp

text \<open>A reading call that changes nothing and returns the objects of kind \<open>k\<close> with \<open>P\<close>.\<close>

definition reads ::
  "('c \<Rightarrow> cluster) \<Rightarrow> ('c \<Rightarrow> (error + 'a list) \<times> 'c) \<Rightarrow> kind \<Rightarrow> ('a \<Rightarrow> object) \<Rightarrow> (object \<Rightarrow> bool) \<Rightarrow> bool" where
  "reads view get k wrap P \<longleftrightarrow> (\<forall>c g c'. get c = (g, c') \<longrightarrow>
     view c' = view c \<and> (\<forall>xs. g = Inr xs \<longrightarrow> current_items (view c) k wrap P xs))"

lemma current_items_length:
  assumes "current_items m k wrap P xs"
  shows "length xs = card (objects_of m k P)"
  using current_items_card[OF assms, of "\<lambda>_. True"] by simp

lemma readsD:
  assumes "reads view get k wrap P" "get c = (g, c')"
  shows "view c' = view c" "g = Inr xs \<Longrightarrow> current_items (view c) k wrap P xs"
    "g = Inr xs \<Longrightarrow> length xs = card (objects_of (view c) k P)"
proof -
  have "view c' = view c \<and> (\<forall>xs. g = Inr xs \<longrightarrow> current_items (view c) k wrap P xs)"
    using assms unfolding reads_def by blast
  then show "view c' = view c" "g = Inr xs \<Longrightarrow> current_items (view c) k wrap P xs"
    "g = Inr xs \<Longrightarrow> length xs = card (objects_of (view c) k P)"
    using current_items_length by blast+
qed

lemma truthful_counts:
  assumes "order_ok \<omega>" "reads view get k wrap P" "\<And>x. ns x = om_Namespace (obj_meta (wrap x))"
    and "\<And>c. f c = (case get c of (Inl err, c') \<Rightarrow> Some (Some (e err), [], c')
      | (Inr xs, c') \<Rightarrow> (case sendCounts \<omega> d (namespaceCounts ns xs) of None \<Rightarrow> None | Some ms \<Rightarrow> Some (None, ms, c')))"
  shows "truthful view (\<lambda>m. per_namespace m d k P) f"
proof (rule truthfulI)
  fix c err ms c' assume f: "f c = Some (err, ms, c')"
  obtain g c1 where g: "get c = (g, c1)" by fastforce
  show "view c' = view c \<and> set ms \<subseteq> {x \<in> per_namespace (view c) d k P. reported x} \<and>
      (err = None \<longrightarrow> {x \<in> per_namespace (view c) d k P. reported x} \<subseteq> set ms)"
  proof (cases g)
    case (Inr xs)
    from f Inr g have ms: "sendCounts \<omega> d (namespaceCounts ns xs) = Some ms" "c' = c1"
      by (auto simp: assms(4) split: option.splits)
    have "set ms = {x \<in> per_namespace (view c) d k P. reported x}"
      unfolding reported_per_namespace by (rule sent_per_namespace[OF ms(1) assms(1) readsD(2)[OF assms(2) g Inr] assms(3)])
    then show ?thesis using readsD(1)[OF assms(2) g] ms(2) by simp
  qed (use f g readsD(1)[OF assms(2) g] in \<open>auto simp: assms(4)\<close>)
qed

lemma truthful_total:
  assumes "reads view get k wrap P"
    and "\<And>c. f c = (case get c of (Inl err, c') \<Rightarrow> Some (Some (e err), [], c')
      | (Inr xs, c') \<Rightarrow> (case MustNewConstMetric d (length xs) [] of None \<Rightarrow> None | Some m \<Rightarrow> Some (None, [m], c')))"
  shows "truthful view (\<lambda>m. {metric d (card (objects_of m k P)) []}) f"
proof (rule truthfulI)
  fix c err ms c' assume f: "f c = Some (err, ms, c')"
  obtain g c1 where g: "get c = (g, c1)" by fastforce
  have "view c1 = view c" "\<And>xs. g = Inr xs \<Longrightarrow> length xs = card (objects_of (view c) k P)"
    by (rule readsD[OF assms(1) g])+
  then show "view c' = view c \<and> set ms \<subseteq> {x \<in> {metric d (card (objects_of (view c) k P)) []}. reported x} \<and>
      (err = None \<longrightarrow> {x \<in> {metric d (card (objects_of (view c) k P)) []}. reported x} \<subseteq> set ms)"
    using f g by (cases g) (auto simp: assms(2) MustNewConstMetric_Some reported_def split: option.splits)
qed

text \<open>A step that first counts by namespace and then a cluster-wide kind, as two steps.\<close>

lemma truthful_counts_total:
  assumes "order_ok \<omega>" "reads view get k wrap P" "\<And>x. ns x = om_Namespace (obj_meta (wrap x))" "reads view get' k' wrap' P'"
    and "\<And>c. f c = (case get c of (Inl err, c1) \<Rightarrow> Some (Some (e err), [], c1)
      | (Inr xs, c1) \<Rightarrow> (case sendCounts \<omega> d (namespaceCounts ns xs) of None \<Rightarrow> None
          | Some ms \<Rightarrow> (case get' c1 of (Inl err, c2) \<Rightarrow> Some (Some (e' err), ms, c2)
              | (Inr ys, c2) \<Rightarrow> (case MustNewConstMetric d' (length ys) [] of None \<Rightarrow> None | Some m \<Rightarrow> Some (None, ms @ [m], c2)))))"
  shows "truthful view (\<lambda>m. per_namespace m d k P \<union> {metric d' (card (objects_of m k' P')) []}) f"
proof (rule truthfulI)
  fix c err ms c' assume f: "f c = Some (err, ms, c')"
  obtain g c1 where g: "get c = (g, c1)" by fastforce
  have v1: "view c1 = view c" and i: "\<And>xs. g = Inr xs \<Longrightarrow> current_items (view c) k wrap P xs"
    by (rule readsD[OF assms(2) g])+
  show "view c' = view c \<and> set ms \<subseteq> {x \<in> per_namespace (view c) d k P \<union> {metric d' (card (objects_of (view c) k' P')) []}. reported x} \<and>
      (err = None \<longrightarrow> {x \<in> per_namespace (view c) d k P \<union> {metric d' (card (objects_of (view c) k' P')) []}. reported x} \<subseteq> set ms)"
  proof (cases g)
    case (Inr xs)
    obtain g' c2 where g': "get' c1 = (g', c2)" by fastforce
    from f Inr g obtain ms1 where ms1: "sendCounts \<omega> d (namespaceCounts ns xs) = Some ms1" by (auto simp: assms(5) split: option.splits)
    note s = sent_per_namespace[OF ms1 assms(1) i[OF Inr] assms(3)]
    have "view c2 = view c" "\<And>xs. g' = Inr xs \<Longrightarrow> length xs = card (objects_of (view c) k' P')"
      using readsD[OF assms(4) g'] v1 by simp_all
    then show ?thesis using f g Inr g' ms1 s
      by (cases g') (auto simp: assms(5) MustNewConstMetric_Some reported_def per_namespace_def split: option.splits)
  qed (use f g v1 in \<open>auto simp: assms(5)\<close>)
qed

locale scrape = engine_api "omc_engine col" view
  for col :: "'c OctopusMetricsCollector" and view +
  assumes same_api: "omc_client col = e_client (omc_engine col)"
begin

lemma listed:
  assumes "client_List (e_client (omc_engine col)) k [] c = (Inr objs, c')"
    and "\<And>x obj. as_item obj = Some x \<longleftrightarrow> obj = wrap x" "\<And>y. obj_kind y = k \<Longrightarrow> \<exists>x. y = wrap x"
  shows "current_items (view c) k wrap (\<lambda>_. True) (List.map_filter as_item objs)"
proof -
  have d: "distinct objs" using List_items[OF assms(1)] by (simp add: distinct_map)
  have s: "x \<in> set objs \<longleftrightarrow> (\<exists>n. view c (k, n) = Some x)" for x using List_items[OF assms(1)] by (auto simp: matches_def)
  have "inj wrap" using assms(2) by (metis injI option.inject)
  moreover have "distinct (List.map_filter as_item objs)" by (rule distinct_map_filter[OF d]) (simp add: assms(2))
  moreover have "wrap ` set (List.map_filter as_item objs) = objects_of (view c) k (\<lambda>_. True)"
  proof -
    have "\<exists>x. y = wrap x" if "y \<in> set objs" for y using List_kind[OF assms(1) that] assms(3) by blast
    then show ?thesis by (force simp: set_map_filter assms(2) objects_of_def s)
  qed
  ultimately show ?thesis by (simp add: current_items_def)
qed

lemma reads_items:
  assumes "\<And>x obj. as_item obj = Some x \<longleftrightarrow> obj = wrap x" "\<And>y. obj_kind y = k \<Longrightarrow> \<exists>x. y = wrap x"
  shows "reads view (list_items (e_service (omc_engine col)) k as_item msg) k wrap (\<lambda>_. True)"
  unfolding reads_def
proof (intro allI impI)
  fix c res c' assume l: "list_items (e_service (omc_engine col)) k as_item msg c = (res, c')"
  obtain g c1 where g: "client_List (e_client (omc_engine col)) k [] c = (g, c1)" by fastforce
  show "view c' = view c \<and> (\<forall>xs. res = Inr xs \<longrightarrow> current_items (view c) k wrap (\<lambda>_. True) xs)"
    using l g List_frame[OF g] listed[OF _ assms]
    by (auto simp: list_items_def same_client split: sum.splits)
qed

lemma reads_managed:
  assumes "reads view get k wrap (\<lambda>_. True)" "\<And>x. obj_meta (wrap x) = meta x" "\<And>c. get' c = only_managed meta (get c)"
  shows "reads view get' k wrap managed"
  unfolding reads_def
proof (intro allI impI)
  fix c res c' assume l: "get' c = (res, c')"
  obtain g c1 where g: "get c = (g, c1)" by fastforce
  have "current_items (view c) k wrap managed (filter (\<lambda>v. IsOctopusManaged (om_Labels (meta v))) ys)" if "g = Inr ys" for ys
    using readsD(2)[OF assms(1) g that] by (force simp: current_items_def objects_of_def managed_def assms(2))
  then show "view c' = view c \<and> (\<forall>xs. res = Inr xs \<longrightarrow> current_items (view c) k wrap managed xs)"
    using l g readsD(1)[OF assms(1) g] by (cases g) (auto simp: only_managed_def assms(3))
qed

lemma reads_engine:
  "reads view (GetWorkloadServiceAccounts (e_service (omc_engine col))) KWorkloadServiceAccount OWorkloadServiceAccount (\<lambda>_. True)"
  "reads view (GetClusterWorkloadServiceAccounts (e_service (omc_engine col))) KClusterWorkloadServiceAccount
    OClusterWorkloadServiceAccount (\<lambda>_. True)"
  unfolding GetWorkloadServiceAccounts_def GetClusterWorkloadServiceAccounts_def
  by (rule reads_items; auto elim: obj_kind.elims)+

lemma reads_engine_managed:
  "reads view (GetServiceAccounts (e_service (omc_engine col))) KServiceAccount OServiceAccount managed"
  "reads view (GetRoles_api (e_service (omc_engine col))) KRole ORole managed"
  "reads view (GetClusterRoles_api (e_service (omc_engine col))) KClusterRole OClusterRole managed"
  "reads view (GetRoleBindings (e_service (omc_engine col))) KRoleBinding ORoleBinding managed"
  "reads view (GetClusterRoleBindings (e_service (omc_engine col))) KClusterRoleBinding OClusterRoleBinding managed"
proof -
  note m = reads_managed[OF reads_items]
  show "reads view (GetServiceAccounts (e_service (omc_engine col))) KServiceAccount OServiceAccount managed"
    by (rule m[OF _ _ _ GetServiceAccounts_def]; auto elim: obj_kind.elims)
  show "reads view (GetRoles_api (e_service (omc_engine col))) KRole ORole managed"
    by (rule m[OF _ _ _ GetRoles_api_def]; auto elim: obj_kind.elims)
  show "reads view (GetClusterRoles_api (e_service (omc_engine col))) KClusterRole OClusterRole managed"
    by (rule m[OF _ _ _ GetClusterRoles_api_def]; auto elim: obj_kind.elims)
  show "reads view (GetRoleBindings (e_service (omc_engine col))) KRoleBinding ORoleBinding managed"
    by (rule m[OF _ _ _ GetRoleBindings_def]; auto elim: obj_kind.elims)
  show "reads view (GetClusterRoleBindings (e_service (omc_engine col))) KClusterRoleBinding OClusterRoleBinding managed"
    by (rule m[OF _ _ _ GetClusterRoleBindings_def]; auto elim: obj_kind.elims)
qed

text \<open>The resources that the scope step lists, and its counters.\<close>

lemma reads_direct:
  assumes "\<And>x obj. as_item obj = Some x \<longleftrightarrow> obj = wrap x" "\<And>y. obj_kind y = k \<Longrightarrow> \<exists>x. y = wrap x"
  shows "reads view (\<lambda>c. case client_List (omc_client col) k [] c of (Inl err, c') \<Rightarrow> (Inl (Api err), c')
    | (Inr objs, c') \<Rightarrow> (Inr (List.map_filter as_item objs), c')) k wrap (\<lambda>_. True)"
  unfolding reads_def
proof (intro allI impI)
  fix c res c'
  assume l: "(case client_List (omc_client col) k [] c of (Inl err, c') \<Rightarrow> (Inl (Api err), c')
    | (Inr objs, c') \<Rightarrow> (Inr (List.map_filter as_item objs), c')) = (res, c')"
  obtain g c1 where g: "client_List (e_client (omc_engine col)) k [] c = (g, c1)" by fastforce
  show "view c' = view c \<and> (\<forall>xs. res = Inr xs \<longrightarrow> current_items (view c) k wrap (\<lambda>_. True) xs)"
    using l g List_frame[OF g] listed[OF _ assms] by (auto simp: same_api split: sum.splits)
qed

lemma scope_counts:
  assumes "current_items m KWorkloadServiceAccount OWorkloadServiceAccount (\<lambda>_. True) wsas"
    and "current_items m KClusterWorkloadServiceAccount OClusterWorkloadServiceAccount (\<lambda>_. True) cwsas"
  shows "fold (\<lambda>cwsa. count_scope (cwsaScope (cwsaSpec cwsa))) cwsas
      (fold (\<lambda>wsa. count_scope (wsaScope (wsaSpec wsa))) wsas [0, 0, 0, 0, 0, 0]) =
    map (restricting m) [Projects, ProjectGroups, Environments, Tenants, Steps, Spaces]"
proof -
  have "length (filter (\<lambda>x. sel (wsaScope (wsaSpec x)) \<noteq> []) wsas) + length (filter (\<lambda>x. sel (cwsaScope (cwsaSpec x)) \<noteq> []) cwsas) =
      restricting m sel" for sel :: "WorkloadServiceAccountScope \<Rightarrow> string list"
    using current_items_card[OF assms(1), of "\<lambda>x. \<exists>s. scope_of_object x = Some s \<and> sel s \<noteq> []"]
      current_items_card[OF assms(2), of "\<lambda>x. \<exists>s. scope_of_object x = Some s \<and> sel s \<noteq> []"]
    by (simp add: restricting_def)
  then show ?thesis by (simp add: count_scopes_fold)
qed

definition scope_truths :: "cluster \<Rightarrow> Metric set" where
  "scope_truths m =
     {metric (distinctScopesTotalDesc col) (length (GetScopeToSA (e_ScopeComputation (omc_engine col)))) [],
      metric (scopesWithProjectsTotalDesc col) (restricting m Projects) [],
      metric (scopesWithProjectGroupsTotalDesc col) (restricting m ProjectGroups) [],
      metric (scopesWithEnvironmentsTotalDesc col) (restricting m Environments) [],
      metric (scopesWithTenantsTotalDesc col) (restricting m Tenants) [],
      metric (scopesWithStepsTotalDesc col) (restricting m Steps) [],
      metric (scopesWithSpacesTotalDesc col) (restricting m Spaces) []}"

lemma truthful_scopes: "truthful view scope_truths (collectScopeMetricsFromResources col)"
proof (rule truthfulI)
  fix c err ms c' assume f: "collectScopeMetricsFromResources col c = Some (err, ms, c')"
  obtain g1 c1 where g1: "client_List (omc_client col) KWorkloadServiceAccount [] c = (g1, c1)" by fastforce
  obtain g2 c2 where g2: "client_List (omc_client col) KClusterWorkloadServiceAccount [] c1 = (g2, c2)" by fastforce
  have v: "view c1 = view c" "view c2 = view c"
    using List_frame[OF g1[unfolded same_api]] List_frame[OF g2[unfolded same_api]] by simp_all
  show "view c' = view c \<and> set ms \<subseteq> {x \<in> scope_truths (view c). reported x} \<and> (err = None \<longrightarrow> {x \<in> scope_truths (view c). reported x} \<subseteq> set ms)"
  proof (cases "\<exists>xs ys. g1 = Inr xs \<and> g2 = Inr ys")
    case True
    then obtain xs ys where i: "g1 = Inr xs" "g2 = Inr ys" by auto
    have "current_items (view c) KWorkloadServiceAccount OWorkloadServiceAccount (\<lambda>_. True) (List.map_filter as_WSA xs)"
      by (rule listed[OF g1[unfolded same_api i]]) (auto elim: obj_kind.elims)
    moreover have "current_items (view c1) KClusterWorkloadServiceAccount OClusterWorkloadServiceAccount (\<lambda>_. True) (List.map_filter as_CWSA ys)"
      by (rule listed[OF g2[unfolded same_api i]]) (auto elim: obj_kind.elims)
    ultimately have n: "fold (\<lambda>cwsa. count_scope (cwsaScope (cwsaSpec cwsa))) (List.map_filter as_CWSA ys)
        (fold (\<lambda>wsa. count_scope (wsaScope (wsaSpec wsa))) (List.map_filter as_WSA xs) [0, 0, 0, 0, 0, 0]) =
      map (restricting (view c)) [Projects, ProjectGroups, Environments, Tenants, Steps, Spaces]"
      using v by (intro scope_counts) simp_all
    let ?r = "those (map (\<lambda>(desc, value). MustNewConstMetric desc value [])
        [(distinctScopesTotalDesc col, length (GetScopeToSA (e_ScopeComputation (omc_engine col)))),
         (scopesWithProjectsTotalDesc col, restricting (view c) Projects),
         (scopesWithProjectGroupsTotalDesc col, restricting (view c) ProjectGroups),
         (scopesWithEnvironmentsTotalDesc col, restricting (view c) Environments),
         (scopesWithTenantsTotalDesc col, restricting (view c) Tenants),
         (scopesWithStepsTotalDesc col, restricting (view c) Steps),
         (scopesWithSpacesTotalDesc col, restricting (view c) Spaces)])"
    have "collectScopeMetricsFromResources col c = (case ?r of None \<Rightarrow> None | Some ms \<Rightarrow> Some (None, ms, c2))"
      unfolding collectScopeMetricsFromResources_def g1 g2 i prod.case sum.case Let_def n by simp
    with f have r: "?r = Some ms" and c': "c' = c2" by (auto simp only: case_option_Some option.inject prod.inject)
    have "list_all2 (\<lambda>p y. y = metric (fst p) (snd p) [])
        [(distinctScopesTotalDesc col, length (GetScopeToSA (e_ScopeComputation (omc_engine col)))),
         (scopesWithProjectsTotalDesc col, restricting (view c) Projects),
         (scopesWithProjectGroupsTotalDesc col, restricting (view c) ProjectGroups),
         (scopesWithEnvironmentsTotalDesc col, restricting (view c) Environments),
         (scopesWithTenantsTotalDesc col, restricting (view c) Tenants),
         (scopesWithStepsTotalDesc col, restricting (view c) Steps),
         (scopesWithSpacesTotalDesc col, restricting (view c) Spaces)] ms"
      by (intro list_all2_mono[OF those_map[OF r]]) (auto simp: MustNewConstMetric_Some split: prod.splits)
    then have "set ms = {x \<in> scope_truths (view c). reported x}"
      by (auto simp: list_all2_Cons1 scope_truths_def reported_def)
    then show ?thesis using v c' by auto
  next
    case False
    then have "c' \<in> {c1, c2}" "ms = []" "err \<noteq> None"
      using f g2 by (cases g1; cases g2; auto simp: collectScopeMetricsFromResources_def g1)+
    then show ?thesis using v by auto
  qed
qed

lemma steps_truthful:
  assumes "order_ok \<omega>" "order_ok \<omega>'" "computed_from \<omega>' (omc_engine col) rs"
  shows "\<exists>Ts. list_all2 (truthful view) Ts
      [collectWSAMetrics \<omega> col, collectCWSAMetrics col, collectServiceAccountMetrics \<omega> col,
       collectRoleMetrics \<omega> col, collectRoleBindingMetrics \<omega> col, collectScopeMetricsFromResources col] \<and>
    (\<forall>m. true_metrics col rs m = (\<Union>T \<in> set Ts. T m) \<union>
      {metric (targetNamespacesTotalDesc col) (length (GetTargetNamespaces (omc_engine col))) []})"
proof -
  note steps = truthful_counts[OF assms(1) reads_engine(1) _ collectWSAMetrics_def]
    truthful_total[OF reads_engine(2) collectCWSAMetrics_def]
    truthful_counts[OF assms(1) reads_engine_managed(1) _ collectServiceAccountMetrics_def]
    truthful_counts_total[OF assms(1) reads_engine_managed(2) _ reads_engine_managed(3) collectRoleMetrics_def]
    truthful_counts_total[OF assms(1) reads_engine_managed(4) _ reads_engine_managed(5) collectRoleBindingMetrics_def]
    truthful_scopes
  let ?fs = "[collectWSAMetrics \<omega> col, collectCWSAMetrics col, collectServiceAccountMetrics \<omega> col,
     collectRoleMetrics \<omega> col, collectRoleBindingMetrics \<omega> col, collectScopeMetricsFromResources col]"
  let ?Ts = "[\<lambda>m. per_namespace m (wsaTotalDesc col) KWorkloadServiceAccount (\<lambda>_. True),
     \<lambda>m. {metric (cwsaTotalDesc col) (card (objects_of m KClusterWorkloadServiceAccount (\<lambda>_. True))) []},
     \<lambda>m. per_namespace m (serviceAccountsTotalDesc col) KServiceAccount managed,
     \<lambda>m. per_namespace m (rolesTotalDesc col) KRole managed \<union>
       {metric (clusterRolesTotalDesc col) (card (objects_of m KClusterRole managed)) []},
     \<lambda>m. per_namespace m (roleBindingsTotalDesc col) KRoleBinding managed \<union>
       {metric (clusterRoleBindingsTotalDesc col) (card (objects_of m KClusterRoleBinding managed)) []},
     scope_truths]"
  have Ts: "list_all2 (truthful view) ?Ts ?fs"
    by (intro list.rel_intros(2) list.rel_intros(1) steps) simp_all
  have t: "true_metrics col rs m = (\<Union>T \<in> set ?Ts. T m) \<union>
      {metric (targetNamespacesTotalDesc col) (length (GetTargetNamespaces (omc_engine col))) []}" for m
    using scopes_counted[OF assms(2,3)] configured_counted[OF reachable] by (auto simp: true_metrics_def scope_truths_def)
  from Ts t show ?thesis by blast
qed

lemma scrape_truth:
  assumes "order_ok \<omega>" "order_ok \<omega>'" "computed_from \<omega>' (omc_engine col) rs" "Collect_metrics \<omega> col c = Some (errs, ms, c')"
  shows "view c' = view c \<and> set ms \<subseteq> {x \<in> true_metrics col rs (view c). reported x} \<and>
    (errs = [] \<longrightarrow> set ms = {x \<in> true_metrics col rs (view c). reported x})"
proof -
  let ?fs = "[collectWSAMetrics \<omega> col, collectCWSAMetrics col, collectServiceAccountMetrics \<omega> col,
     collectRoleMetrics \<omega> col, collectRoleBindingMetrics \<omega> col, collectScopeMetricsFromResources col]"
  obtain Ts where Ts: "list_all2 (truthful view) Ts ?fs"
    and t: "\<And>m. true_metrics col rs m = (\<Union>T \<in> set Ts. T m) \<union>
      {metric (targetNamespacesTotalDesc col) (length (GetTargetNamespaces (omc_engine col))) []}"
    using steps_truthful[OF assms(1-3)] by blast
  from assms(4) obtain ms1 where c: "collect_all ?fs c = Some (errs, ms1, c')"
    and ms: "ms = ms1 @ [metric (targetNamespacesTotalDesc col) (length (GetTargetNamespaces (omc_engine col))) []]"
    unfolding Collect_metrics_def collectTargetNamespaceMetrics_def
    by (auto simp: MustNewConstMetric_Some simp del: collect_all.simps split: option.splits)
  from collect_all_truthful[OF Ts c] show ?thesis unfolding t ms by (auto simp: reported_def)
qed


end

section \<open>Scrapes of the in-memory server\<close>

interpretation srv_scrape: scrape
  "NewOctopusMetricsCollector server_client (NewInMemoryEngineWithNamespaces server_client sch nss)" server_view for sch nss
proof -
  have e: "omc_engine (NewOctopusMetricsCollector server_client (NewInMemoryEngineWithNamespaces server_client sch nss)) =
      NewInMemoryEngineWithNamespaces server_client sch nss"
    by (simp add: NewOctopusMetricsCollector_def)
  have "e_client (NewInMemoryEngineWithNamespaces server_client sch nss) = server_client"
    by (simp add: NewInMemoryEngineWithNamespaces_def)
  then show "scrape (NewOctopusMetricsCollector server_client (NewInMemoryEngineWithNamespaces server_client sch nss)) server_view"
    using srv_engine.engine_api_axioms unfolding scrape_def scrape_axioms_def e
    by (simp add: NewOctopusMetricsCollector_def)
qed

definition example_collector :: "server OctopusMetricsCollector" where
  "example_collector = NewOctopusMetricsCollector server_client access_engine"

lemma example_scrape: "scrape example_collector server_view"
  unfolding example_collector_def access_engine_def by (rule srv_scrape.scrape_axioms)

lemma example_scrape_ok: "map_option fst (Collect_metrics order_id example_collector access_server) = Some []"
  by code_simp

text \<open>
  C15. A scrape reads only, and every number it reports is true. Resources and managed accounts, roles and
  bindings of each namespace, the totals of the cluster-wide kinds, and the resources that restrict each
  dimension are the numbers of objects in the cluster. The distinct scopes are the scopes covered by the resources
  that the engine was last computed from, and the target namespaces are the configured ones, none when namespaces
  are discovered. If it logs no error, it reports all of them, leaving out the zeros of namespaces.
\<close>

theorem collect_true:
  assumes "scrape col view" and "order_ok \<omega>" and "order_ok \<omega>'" and "computed_from \<omega>' (omc_engine col) rs"
    and "Collect_metrics \<omega> col c = Some (errs, ms, c')"
  shows "view c' = view c \<and> set ms \<subseteq> {x \<in> true_metrics col rs (view c). reported x} \<and>
    (errs = [] \<longrightarrow> set ms = {x \<in> true_metrics col rs (view c). reported x})"
  by (rule scrape.scrape_truth[OF assms])

theorem collect_true_witness:
  "\<exists>ms s'. Collect_metrics order_id example_collector access_server = Some ([], ms, s') \<and>
     metric (wsaTotalDesc example_collector) 1 [''team''] \<in> set ms \<and>
     set ms = {x \<in> true_metrics example_collector [] (server_view access_server). reported x}"
proof -
  obtain ms s' where r: "Collect_metrics order_id example_collector access_server = Some ([], ms, s')"
    using example_scrape_ok by auto
  have "(case Collect_metrics order_id example_collector access_server of None \<Rightarrow> False
      | Some (_, ms, _) \<Rightarrow> metric (wsaTotalDesc example_collector) 1 [''team''] \<in> set ms)" by code_simp
  moreover have "computed_from order_id (omc_engine example_collector) []" unfolding computed_from_def by code_simp
  ultimately show ?thesis using r collect_true[OF example_scrape order_ok_id order_ok_id _ r] by simp
qed

theorem collect_valid_witness:
  "\<exists>errs ms c'. Collect_metrics order_id example_collector access_server = Some (errs, ms, c') \<and>
    valid_metrics (Describe example_collector) ms"
  unfolding example_collector_def by (rule collect_valid[OF order_ok_id])

section \<open>The gauge of target namespaces\<close>

text \<open>
  An engine that discovers its namespaces never fills the list that the gauge counts: the gauge is 0
  however many namespaces the engine found.
\<close>

lemma discovering_gauge_zero:
  assumes "engine_reachable e" "e_namespaceCache e \<noteq> None" and col_def: "col = NewOctopusMetricsCollector cl e"
  shows "collectTargetNamespaceMetrics col = Some [metric (targetNamespacesTotalDesc col) 0 []]"
  using discovering_namespaces[OF assms(1,2)]
  by (simp add: col_def collectTargetNamespaceMetrics_def GetTargetNamespaces_def MustNewConstMetric_def NewOctopusMetricsCollector_def)

end
