(* ===== verification/Startup.thy ===== *)
theory Startup
  imports Orchestrator Controllers Webhooks StateSync Metrics
begin

text \<open>
  \<^verbatim>\<open>cmd/main.go\<close> from the parsed flags on: the options of the servers and the manager, how the engine
  is configured, what the parts of the program share, and what is registered with the manager.
  Shown: the servers speak HTTP/2 only on request, the variable of target namespaces is read back exactly,
  the pointers that the parts are given lead to one engine, one event collector and one syncer, and the
  parts as they are assembled meet the assumptions that the guarantees of the other theories make, whenever API
  server and libraries do.
\<close>

section \<open>What the platform provides\<close>

text \<open>\<^verbatim>\<open>strings.Split\<close> of the standard library for a separator of one character.\<close>

fun strings_Split :: "string \<Rightarrow> char \<Rightarrow> string list" where
  "strings_Split [] sep = [[]]"
| "strings_Split (x # xs) sep =
     (if x = sep then [] # strings_Split xs sep
      else (case strings_Split xs sep of [] \<Rightarrow> [[x]] | y # ys \<Rightarrow> (x # y) # ys))"

text \<open>
  A TLS configuration, as far as the options change it; a certificate watcher is known by the two files it
  watches. \<^verbatim>\<open>append\<close> never writes into a shared array here: a slice that was made by appending to
  \<^verbatim>\<open>nil\<close> has no spare capacity. So the slices of options are lists.
\<close>

type_synonym CertWatcher = "string \<times> string"

record tls_Config =
  NextProtos :: "string list"
  GetCertificate :: "CertWatcher option"

type_synonym tls_option = "tls_Config \<Rightarrow> tls_Config"

record metricsserver_Options =
  BindAddress :: string
  SecureServing :: bool
  metrics_TLSOpts :: "tls_option list"
  FilterProvider :: bool

record ctrl_Options =
  mgr_Metrics :: metricsserver_Options
  webhook_TLSOpts :: "tls_option list"
  HealthProbeBindAddress :: string
  LeaderElection :: bool
  LeaderElectionID :: string
  SyncPeriod :: int
  LeaderElectionReleaseOnCancel :: bool

text \<open>What is registered with the manager.\<close>

datatype registration =
    AddOrchestrator | AddStateSyncer | StateSyncController | AddMetricsReporter | RegisterMetrics
  | WSAController | WSAWebhook | PodWebhook | CWSAController | AddMetricsCertWatcher | AddWebhookCertWatcher
  | HealthzCheck | ReadyzCheckPing | EngineStateCheck

text \<open>
  The environment, in which an unset variable reads as the empty string, the libraries that need
  configuration, and the manager: whether it can be made, which registrations it accepts and what it hands
  out. \<open>pf_defaultNamespaceRegex\<close> is the package variable.
\<close>

record 'c platform =
  os_Getenv :: "string \<Rightarrow> string"
  filepath_Join :: "string \<Rightarrow> string \<Rightarrow> string"
  certwatcher_New :: "string \<Rightarrow> string \<Rightarrow> CertWatcher option"
  ctrl_NewManager :: "ctrl_Options \<Rightarrow> bool"
  mgr_accepts :: "registration \<Rightarrow> bool"
  regexp_Compile :: "string \<Rightarrow> regexp option"
  pf_defaultNamespaceRegex :: regexp
  time_ParseDuration :: "string \<Rightarrow> int option"
  expirable_NewLRU :: "int \<Rightarrow> 'c expirable_LRU"
  pf_gcTracker :: "string \<Rightarrow> 'c \<Rightarrow> 'c"
  mgr_GetClient :: "'c client"
  mgr_GetScheme :: scheme
  mgr_EventRecorder :: "WSAResource \<Rightarrow> string \<Rightarrow> string \<Rightarrow> string \<Rightarrow> 'c \<Rightarrow> 'c"
  pf_SetStatusCondition :: set_condition
  pf_Error :: "error \<Rightarrow> string"
  pf_Since :: "'c \<Rightarrow> string"
  pf_AfterFunc :: "int \<Rightarrow> 'c \<Rightarrow> 'c"
  pf_Now :: "'c \<Rightarrow> nat"
  pf_controllerutil :: controllerutil

text \<open>The parsed flags; durations are in nanoseconds.\<close>

record flags =
  metricsAddr :: string
  probeAddr :: string
  enableLeaderElection :: bool
  secureMetrics :: bool
  webhookCertPath :: string
  webhookCertName :: string
  webhookCertKey :: string
  metricsCertPath :: string
  metricsCertName :: string
  metricsCertKey :: string
  enableHTTP2 :: bool
  batchDebounceInterval :: nat
  batchMaxSize :: int
  stageTimeout :: int
  cacheSyncPeriod :: int

definition default_flags :: flags where
  "default_flags =
     \<lparr>metricsAddr = ''0'', probeAddr = '':8081'', enableLeaderElection = False, secureMetrics = False,
      webhookCertPath = [], webhookCertName = ''tls.crt'', webhookCertKey = ''tls.key'',
      metricsCertPath = [], metricsCertName = ''tls.crt'', metricsCertKey = ''tls.key'', enableHTTP2 = False,
      batchDebounceInterval = 2000000000, batchMaxSize = 500, stageTimeout = 120000000000,
      cacheSyncPeriod = 36000000000000\<rparr>"

section \<open>The servers and the manager\<close>

definition disableHTTP2 :: tls_option where
  "disableHTTP2 c = c\<lparr>NextProtos := [''http/1.1'']\<rparr>"

definition main_tlsOpts :: "flags \<Rightarrow> tls_option list" where
  "main_tlsOpts fl = (if \<not> enableHTTP2 fl then [disableHTTP2] else [])"

text \<open>The reasons for which the process exits before the manager runs.\<close>

datatype startup_exit = WebhookCertWatcher | MetricsCertWatcher | NewManager | Registration registration

definition main_webhookCertWatcher :: "'c platform \<Rightarrow> flags \<Rightarrow> startup_exit + CertWatcher option \<times> tls_option list" where
  "main_webhookCertWatcher pf fl =
     (let webhookTLSOpts = main_tlsOpts fl
      in if length (webhookCertPath fl) > 0 then
           (case certwatcher_New pf (filepath_Join pf (webhookCertPath fl) (webhookCertName fl))
                   (filepath_Join pf (webhookCertPath fl) (webhookCertKey fl)) of
              None \<Rightarrow> Inl WebhookCertWatcher
            | Some w \<Rightarrow> Inr (Some w, webhookTLSOpts @ [\<lambda>config. config\<lparr>GetCertificate := Some w\<rparr>]))
         else Inr (None, webhookTLSOpts))"

definition main_metricsServerOptions ::
  "'c platform \<Rightarrow> flags \<Rightarrow> startup_exit + CertWatcher option \<times> metricsserver_Options" where
  "main_metricsServerOptions pf fl =
     (let o1 = \<lparr>BindAddress = metricsAddr fl, SecureServing = secureMetrics fl, metrics_TLSOpts = main_tlsOpts fl,
                FilterProvider = False\<rparr>;
          o2 = (if secureMetrics fl then o1\<lparr>FilterProvider := True\<rparr> else o1)
      in if length (metricsCertPath fl) > 0 then
           (case certwatcher_New pf (filepath_Join pf (metricsCertPath fl) (metricsCertName fl))
                   (filepath_Join pf (metricsCertPath fl) (metricsCertKey fl)) of
              None \<Rightarrow> Inl MetricsCertWatcher
            | Some w \<Rightarrow>
                Inr (Some w, o2\<lparr>metrics_TLSOpts := metrics_TLSOpts o2 @ [\<lambda>config. config\<lparr>GetCertificate := Some w\<rparr>]\<rparr>))
         else Inr (None, o2))"

definition main_options :: "flags \<Rightarrow> metricsserver_Options \<Rightarrow> tls_option list \<Rightarrow> ctrl_Options" where
  "main_options fl metricsServerOptions webhookTLSOpts =
     \<lparr>mgr_Metrics = metricsServerOptions, webhook_TLSOpts = webhookTLSOpts, HealthProbeBindAddress = probeAddr fl,
      LeaderElection = enableLeaderElection fl, LeaderElectionID = ''2c524152.agent.octopus.com'',
      SyncPeriod = cacheSyncPeriod fl, LeaderElectionReleaseOnCancel = True\<rparr>"

section \<open>Configuring the engine\<close>

definition main_targetNamespaces :: "'c platform \<Rightarrow> string list" where
  "main_targetNamespaces pf =
     (if os_Getenv pf ''TARGET_NAMESPACES'' \<noteq> [] then strings_Split (os_Getenv pf ''TARGET_NAMESPACES'') (CHR '','') else [])"

definition main_targetNamespaceRegex :: "'c platform \<Rightarrow> regexp" where
  "main_targetNamespaceRegex pf =
     (let targetNamespaceRegex =
        (if os_Getenv pf ''TARGET_NAMESPACE_REGEX'' \<noteq> [] then regexp_Compile pf (os_Getenv pf ''TARGET_NAMESPACE_REGEX'')
         else None)
      in case targetNamespaceRegex of None \<Rightarrow> pf_defaultNamespaceRegex pf | Some re \<Rightarrow> re)"

definition main_namespaceCacheTTL :: "'c platform \<Rightarrow> int" where
  "main_namespaceCacheTTL pf =
     (let ttlStr = os_Getenv pf ''NAMESPACE_CACHE_TTL'' in
      if ttlStr \<noteq> [] then (case time_ParseDuration pf ttlStr of Some parsed \<Rightarrow> parsed | None \<Rightarrow> 300000000000)
      else 300000000000)"

definition main_engine :: "'c platform \<Rightarrow> 'c InMemoryEngine" where
  "main_engine pf =
     (let targetNamespaces = main_targetNamespaces pf;
          engine =
            (if length targetNamespaces > 0
             then NewInMemoryEngineWithNamespaces (mgr_GetClient pf) (mgr_GetScheme pf) targetNamespaces
             else NewInMemoryEngine (mgr_GetClient pf) (mgr_GetScheme pf) (main_targetNamespaceRegex pf)
                    (expirable_NewLRU pf (main_namespaceCacheTTL pf)))
      in engine_SetGCTracker (pf_gcTracker pf) engine)"

section \<open>Assembling the program\<close>

text \<open>
  The memory of the process: the engines, event collectors and state syncers that were allocated. What
  \<^verbatim>\<open>main\<close> passes to the parts are pointers, addresses in this memory, so that sharing is something that
  can be right or wrong. A state syncer holds a pointer to its engine.
\<close>

datatype engine_ptr = EngineAt nat
datatype collector_ptr = CollectorAt nat
datatype syncer_ptr = SyncerAt nat

record syncer_object =
  so_engine_ptr :: engine_ptr
  so_syncer :: StateSyncer

record 'c process_memory =
  pm_engines :: "'c InMemoryEngine list"
  pm_collectors :: "EventCollector list"
  pm_syncers :: "syncer_object list"

definition lookup :: "'a list \<Rightarrow> nat \<Rightarrow> 'a option" where
  "lookup xs i = (if i < length xs then Some (xs ! i) else None)"

fun read_engine :: "engine_ptr \<Rightarrow> 'c process_memory \<Rightarrow> 'c InMemoryEngine option" where
  "read_engine (EngineAt i) m = lookup (pm_engines m) i"

fun write_engine :: "engine_ptr \<Rightarrow> 'c InMemoryEngine \<Rightarrow> 'c process_memory \<Rightarrow> 'c process_memory" where
  "write_engine (EngineAt i) e m = m\<lparr>pm_engines := (pm_engines m)[i := e]\<rparr>"

fun read_collector :: "collector_ptr \<Rightarrow> 'c process_memory \<Rightarrow> EventCollector option" where
  "read_collector (CollectorAt i) m = lookup (pm_collectors m) i"

fun write_collector :: "collector_ptr \<Rightarrow> EventCollector \<Rightarrow> 'c process_memory \<Rightarrow> 'c process_memory" where
  "write_collector (CollectorAt i) ec m = m\<lparr>pm_collectors := (pm_collectors m)[i := ec]\<rparr>"

fun read_syncer :: "syncer_ptr \<Rightarrow> 'c process_memory \<Rightarrow> syncer_object option" where
  "read_syncer (SyncerAt i) m = lookup (pm_syncers m) i"

definition new_engine :: "'c InMemoryEngine \<Rightarrow> 'c process_memory \<Rightarrow> engine_ptr \<times> 'c process_memory" where
  "new_engine e m = (EngineAt (length (pm_engines m)), m\<lparr>pm_engines := pm_engines m @ [e]\<rparr>)"

definition new_collector :: "EventCollector \<Rightarrow> 'c process_memory \<Rightarrow> collector_ptr \<times> 'c process_memory" where
  "new_collector ec m = (CollectorAt (length (pm_collectors m)), m\<lparr>pm_collectors := pm_collectors m @ [ec]\<rparr>)"

definition new_syncer :: "syncer_object \<Rightarrow> 'c process_memory \<Rightarrow> syncer_ptr \<times> 'c process_memory" where
  "new_syncer x m = (SyncerAt (length (pm_syncers m)), m\<lparr>pm_syncers := pm_syncers m @ [x]\<rparr>)"

text \<open>The parts with the pointers and values that their constructors are given.\<close>

datatype 'c stage_part = PlanningPart engine_ptr | ValidationPart "'c client" | ExecutionPart engine_ptr

record 'c orchestrator_part =
  op_stages :: "'c stage_part list"
  op_collector :: collector_ptr
  op_engine :: engine_ptr
  op_client :: "'c client"
  op_stageTimeout :: int
  op_recorder :: "WSAResource \<Rightarrow> string \<Rightarrow> string \<Rightarrow> string \<Rightarrow> 'c \<Rightarrow> 'c"

record 'c reconciler_part =
  rp_reconciler :: "'c reconciler"
  rp_engine_ptr :: engine_ptr
  rp_collector :: collector_ptr

record 'c metrics_part =
  mp_client :: "'c client"
  mp_engine :: engine_ptr

record webhook_part =
  wp_engine :: engine_ptr
  wp_version :: string

record 'c program =
  pg_memory :: "'c process_memory"
  pg_orchestrator :: "'c orchestrator_part"
  pg_runnable :: syncer_ptr          \<comment> \<open>the syncer that the manager starts\<close>
  pg_stateSync :: syncer_ptr         \<comment> \<open>the one that \<open>StateSyncReconciler\<close> triggers\<close>
  pg_readyz :: syncer_ptr            \<comment> \<open>the one that the readiness check asks\<close>
  pg_metrics :: "'c metrics_part"
  pg_wsaReconciler :: "'c reconciler_part"
  pg_cwsaReconciler :: "'c reconciler_part"
  pg_podWebhook :: webhook_part

definition main_program :: "'c platform \<Rightarrow> flags \<Rightarrow> string \<Rightarrow> 'c program" where
  "main_program pf fl version =
     (let (engine, m1) = new_engine (main_engine pf) \<lparr>pm_engines = [], pm_collectors = [], pm_syncers = []\<rparr>;
          eventRecorder = mgr_EventRecorder pf;
          (eventCollector, m2) = new_collector (NewEventCollector (batchDebounceInterval fl) (batchMaxSize fl)) m1;
          stagingStages = [PlanningPart engine, ValidationPart (mgr_GetClient pf), ExecutionPart engine];
          orchestrator = \<lparr>op_stages = stagingStages, op_collector = eventCollector, op_engine = engine,
            op_client = mgr_GetClient pf, op_stageTimeout = stageTimeout fl, op_recorder = eventRecorder\<rparr>;
          (stateSyncer, m3) = new_syncer \<lparr>so_engine_ptr = engine, so_syncer = NewStateSyncer (batchDebounceInterval fl)\<rparr> m2;
          octopusMetricsCollector = \<lparr>mp_client = mgr_GetClient pf, mp_engine = engine\<rparr>;
          reconciler = \<lparr>rc_Client = mgr_GetClient pf, rc_Recorder = Some eventRecorder, rc_Now = pf_Now pf,
            rc_util = pf_controllerutil pf\<rparr>
      in \<lparr>pg_memory = m3, pg_orchestrator = orchestrator, pg_runnable = stateSyncer, pg_stateSync = stateSyncer,
          pg_readyz = stateSyncer, pg_metrics = octopusMetricsCollector,
          pg_wsaReconciler = \<lparr>rp_reconciler = reconciler, rp_engine_ptr = engine, rp_collector = eventCollector\<rparr>,
          pg_cwsaReconciler = \<lparr>rp_reconciler = reconciler, rp_engine_ptr = engine, rp_collector = eventCollector\<rparr>,
          pg_podWebhook = \<lparr>wp_engine = engine, wp_version = version\<rparr>\<rparr>)"

text \<open>
  The parts as the other theories have them: the orchestrator with its stages, the metrics collector and the webhook
  on the engine that their pointers lead to.
\<close>

fun stage_of :: "go_order \<Rightarrow> 'c stage_part \<Rightarrow> 'c Stage" where
  "stage_of \<omega> (PlanningPart _) = planning_stage \<omega>"
| "stage_of \<omega> (ValidationPart cl) = validation_stage cl"
| "stage_of \<omega> (ExecutionPart _) = execution_stage \<omega>"

definition orchestrator_of :: "'c platform \<Rightarrow> go_order \<Rightarrow> 'c program \<Rightarrow> 'c StageOrchestrator" where
  "orchestrator_of pf \<omega> P =
     (let op = pg_orchestrator P
      in NewStageOrchestrator (map (stage_of \<omega>) (op_stages op)) (op_client op) (Some (op_recorder op))
           (pf_SetStatusCondition pf) (pf_Error pf) (pf_Since pf) (pf_AfterFunc pf))"

text \<open>The pointers to engines and collectors that the parts hold.\<close>

fun stage_engines :: "'c stage_part \<Rightarrow> engine_ptr list" where
  "stage_engines (PlanningPart p) = [p]"
| "stage_engines (ValidationPart _) = []"
| "stage_engines (ExecutionPart p) = [p]"

definition syncer_engines :: "'c program \<Rightarrow> engine_ptr list" where
  "syncer_engines P = List.map_filter (\<lambda>p. map_option so_engine_ptr (read_syncer p (pg_memory P)))
     [pg_runnable P, pg_stateSync P, pg_readyz P]"

definition engine_pointers :: "'c program \<Rightarrow> engine_ptr list" where
  "engine_pointers P =
     concat (map stage_engines (op_stages (pg_orchestrator P))) @ [op_engine (pg_orchestrator P)] @ syncer_engines P @
     [mp_engine (pg_metrics P), rp_engine_ptr (pg_wsaReconciler P), rp_engine_ptr (pg_cwsaReconciler P),
      wp_engine (pg_podWebhook P)]"

definition collector_pointers :: "'c program \<Rightarrow> collector_ptr list" where
  "collector_pointers P =
     [op_collector (pg_orchestrator P), rp_collector (pg_wsaReconciler P), rp_collector (pg_cwsaReconciler P)]"

text \<open>
  What is registered with the manager, in order. Each registration may fail, and then the process exits
  (or panics, for the metrics collector) before the manager starts. The two booleans are whether
  certificate watchers were made.
\<close>

definition registrations :: "'c platform \<Rightarrow> bool \<Rightarrow> bool \<Rightarrow> registration list" where
  "registrations pf metricsCert webhookCert =
     [AddOrchestrator, AddStateSyncer, StateSyncController, AddMetricsReporter, RegisterMetrics, WSAController] @
     (if os_Getenv pf ''ENABLE_WEBHOOKS'' \<noteq> ''false'' then [WSAWebhook] else []) @
     (if os_Getenv pf ''ENABLE_WEBHOOKS'' \<noteq> ''false'' then [PodWebhook] else []) @
     [CWSAController] @
     (if metricsCert then [AddMetricsCertWatcher] else []) @
     (if webhookCert then [AddWebhookCertWatcher] else []) @
     [HealthzCheck, ReadyzCheckPing, EngineStateCheck]"

text \<open>The reason for the exit, or the options and the program that the manager starts.\<close>

definition main_run :: "'c platform \<Rightarrow> flags \<Rightarrow> string \<Rightarrow> startup_exit + ctrl_Options \<times> 'c program" where
  "main_run pf fl version =
     (case main_webhookCertWatcher pf fl of
        Inl ex \<Rightarrow> Inl ex
      | Inr (webhookCertWatcher, webhookTLSOpts) \<Rightarrow>
          (case main_metricsServerOptions pf fl of
             Inl ex \<Rightarrow> Inl ex
           | Inr (metricsCertWatcher, metricsServerOptions) \<Rightarrow>
               (let opts = main_options fl metricsServerOptions webhookTLSOpts
                in if \<not> ctrl_NewManager pf opts then Inl NewManager
                   else
                     (case find (\<lambda>r. \<not> mgr_accepts pf r)
                             (registrations pf (metricsCertWatcher \<noteq> None) (webhookCertWatcher \<noteq> None)) of
                        Some r \<Rightarrow> Inl (Registration r)
                      | None \<Rightarrow> Inr (opts, main_program pf fl version)))))"

section \<open>Splitting\<close>

lemma Split_not_Nil [simp]: "strings_Split s sep \<noteq> []"
  by (cases s) (auto split: list.splits)

lemma Join_Split: "strings_Join (strings_Split s sep) [sep] = s"
proof (induction s)
  case (Cons x xs)
  note IH = Cons.IH
  show ?case
  proof (cases "strings_Split xs sep")
    case (Cons y ys)
    with IH show ?thesis by (cases ys) auto
  qed simp
qed simp

lemma Split_no_sep: "y \<in> set (strings_Split s sep) \<Longrightarrow> sep \<notin> set y"
  by (induction s arbitrary: y) (fastforce split: if_splits list.splits)+

section \<open>The engine of the program\<close>

lemma SetGCTracker_new [simp]:
  "engine_SetGCTracker t (NewInMemoryEngineWithNamespaces cl sch nss) = NewInMemoryEngineWithNamespaces cl sch nss"
  "engine_SetGCTracker t (NewInMemoryEngine cl sch re cache) = NewInMemoryEngine cl sch re cache"
  by (simp_all add: engine_SetGCTracker_def NewInMemoryEngineWithNamespaces_def NewInMemoryEngine_def)

lemma main_engine_cases:
  obtains "os_Getenv pf ''TARGET_NAMESPACES'' \<noteq> []"
      "main_engine pf = NewInMemoryEngineWithNamespaces (mgr_GetClient pf) (mgr_GetScheme pf)
         (strings_Split (os_Getenv pf ''TARGET_NAMESPACES'') (CHR '',''))"
  | "os_Getenv pf ''TARGET_NAMESPACES'' = []"
      "main_engine pf = NewInMemoryEngine (mgr_GetClient pf) (mgr_GetScheme pf) (main_targetNamespaceRegex pf)
         (expirable_NewLRU pf (main_namespaceCacheTTL pf))"
  by (cases "os_Getenv pf ''TARGET_NAMESPACES'' = []") (auto simp: main_engine_def main_targetNamespaces_def Let_def)

lemma main_engine_reachable: "engine_reachable (main_engine pf)"
  by (cases rule: main_engine_cases[of pf]) (simp_all add: engine_reachable.intros)

lemma main_engine_client: "e_client (main_engine pf) = mgr_GetClient pf"
  by (cases rule: main_engine_cases[of pf]) (simp_all add: NewInMemoryEngineWithNamespaces_def NewInMemoryEngine_def)

text \<open>
  C25. The target namespaces are configured as written: with \<^verbatim>\<open>TARGET_NAMESPACES\<close> set, the namespaces that the
  engine works with, whatever it is asked and when, are the parts of the variable between commas,
  and joining them gives the variable back. Without it the engine discovers namespaces and its
  list is empty.
\<close>

theorem target_namespaces_configured:
  "if os_Getenv pf ''TARGET_NAMESPACES'' \<noteq> []
   then \<exists>nss. GetOrDiscoverTargetNamespaces \<omega> (main_engine pf) c = (Inr nss, c) \<and> GetTargetNamespaces (main_engine pf) = nss \<and>
     strings_Join nss '','' = os_Getenv pf ''TARGET_NAMESPACES'' \<and> (\<forall>ns \<in> set nss. CHR '','' \<notin> set ns)
   else GetTargetNamespaces (main_engine pf) = [] \<and> e_namespaceCache (main_engine pf) \<noteq> None \<and>
     TargetNamespaceRegex (e_NamespaceDiscovery (main_engine pf)) = Some (main_targetNamespaceRegex pf)"
proof (cases rule: main_engine_cases[of pf])
  case 1
  then show ?thesis
    using Join_Split[of "os_Getenv pf ''TARGET_NAMESPACES''" "CHR '',''"]
    by (simp add: GetOrDiscoverTargetNamespaces_def GetTargetNamespaces_def NewInMemoryEngineWithNamespaces_def Split_no_sep)
next
  case 2
  then show ?thesis by (simp add: GetTargetNamespaces_def NewInMemoryEngine_def)
qed

section \<open>The wiring\<close>

lemmas memory_defs = new_engine_def new_collector_def new_syncer_def lookup_def

lemmas pointer_defs = engine_pointers_def collector_pointers_def syncer_engines_def map_filter_def

text \<open>
  What the guarantees assume of API server and libraries, for a platform: the contracts of the client,
  that recording events, waiting and the expirable cache do not touch the cluster, and that
  controllerutil edits finalizers as documented.
\<close>

locale platform_contract =
  api_client_current "mgr_GetClient pf" view + status_client "mgr_GetClient pf" view +
  patch_client "mgr_GetClient pf" view + finalizers "pf_controllerutil pf"
  for pf :: "'c platform" and view +
  assumes recorder: "view (mgr_EventRecorder pf res t r msg c) = view c"
    and after: "view (pf_AfterFunc pf d c) = view c"
    and lru_Get_frame: "lru_Get (expirable_NewLRU pf ttl) k c = (hit, c') \<Longrightarrow> view c' = view c"
    and lru_Add_frame: "view (lru_Add (expirable_NewLRU pf ttl) k nss c) = view c"
begin

lemma engine: "engine_api (main_engine pf) view"
proof (cases rule: main_engine_cases[of pf])
  case 1
  then show ?thesis
    using api_client_current_axioms main_engine_reachable[of pf] main_engine_client[of pf]
    by (simp add: engine_api_def engine_api_axioms_def NewInMemoryEngineWithNamespaces_def)
next
  case 2
  then show ?thesis
    using api_client_current_axioms main_engine_reachable[of pf] main_engine_client[of pf] lru_Get_frame lru_Add_frame
    by (auto simp: engine_api_def engine_api_axioms_def NewInMemoryEngine_def)
qed

lemma wired:
  assumes "order_ok \<omega>" "P = main_program pf fl version"
  shows "pipeline (main_engine pf) view (orchestrator_of pf \<omega> P) \<omega>"
    "scrape (NewOctopusMetricsCollector (mp_client (pg_metrics P)) (main_engine pf)) view"
    "controllers (rp_reconciler (pg_wsaReconciler P)) view" "controllers (rp_reconciler (pg_cwsaReconciler P)) view"
proof -
  show "pipeline (main_engine pf) view (orchestrator_of pf \<omega> P) \<omega>"
    using engine status_client_axioms assms recorder after
    by (auto simp: pipeline_def pipeline_axioms_def orchestrator_of_def main_program_def memory_defs Let_def NewStageOrchestrator_def
        main_engine_client stagingStages_def)
  show "scrape (NewOctopusMetricsCollector (mp_client (pg_metrics P)) (main_engine pf)) view"
    using engine by (simp add: assms(2) scrape_def scrape_axioms_def main_program_def memory_defs Let_def NewOctopusMetricsCollector_def
        main_engine_client)
  show "controllers (rp_reconciler (pg_wsaReconciler P)) view" "controllers (rp_reconciler (pg_cwsaReconciler P)) view"
    using finalizers_axioms patch_client_axioms recorder
    by (auto simp: assms(2) controllers_def controllers_axioms_def main_program_def memory_defs Let_def)
qed

end

text \<open>
  Whenever API server and libraries keep the contracts, the parts of a started program meet the assumptions of the
  theorems about them.
\<close>

theorem parts_meet_contracts:
  assumes "platform_contract pf view" and "order_ok \<omega>" and "main_run pf fl version = Inr (opts, P)"
  shows "pipeline (main_engine pf) view (orchestrator_of pf \<omega> P) \<omega> \<and>
    scrape (NewOctopusMetricsCollector (mp_client (pg_metrics P)) (main_engine pf)) view \<and>
    controllers (rp_reconciler (pg_wsaReconciler P)) view \<and> controllers (rp_reconciler (pg_cwsaReconciler P)) view"
proof -
  have "P = main_program pf fl version"
    using assms(3) by (auto simp: main_run_def Let_def split: sum.splits option.splits if_splits)
  from platform_contract.wired[OF assms(1,2) this] show ?thesis by simp
qed

text \<open>
  C16. The parts of a started program share their state: what any of the stages, the orchestrator, the
  state syncer, the metrics collector, the reconcilers or the webhook writes to the engine that it was given,
  each of them reads; before the first write, that is the engine as the environment configures it. The same holds for the
  collector that the reconcilers fill and the orchestrator empties, and the syncer that runs is the one that is
  triggered and that the readiness check asks. The stages come in the order planning, validation,
  execution, with the configured timeout, and the check is registered.
\<close>

theorem program_wired:
  assumes "main_run pf fl version = Inr (opts, P)"
  shows "(\<forall>p \<in> set (engine_pointers P). read_engine p (pg_memory P) = Some (main_engine pf) \<and>
      (\<forall>q \<in> set (engine_pointers P). \<forall>e. read_engine q (write_engine p e (pg_memory P)) = Some e)) \<and>
    length (engine_pointers P) = 10 \<and>
    (\<forall>p \<in> set (collector_pointers P).
      read_collector p (pg_memory P) = Some (NewEventCollector (batchDebounceInterval fl) (batchMaxSize fl)) \<and>
      (\<forall>q \<in> set (collector_pointers P). \<forall>ec. read_collector q (write_collector p ec (pg_memory P)) = Some ec)) \<and>
    pg_stateSync P = pg_runnable P \<and> pg_readyz P = pg_runnable P \<and>
    map_option so_syncer (read_syncer (pg_runnable P) (pg_memory P)) = Some (NewStateSyncer (batchDebounceInterval fl)) \<and>
    map (stage_of \<omega>) (op_stages (pg_orchestrator P)) = stagingStages \<omega> (mgr_GetClient pf) \<and>
    op_stageTimeout (pg_orchestrator P) = stageTimeout fl \<and> mgr_accepts pf EngineStateCheck"
proof -
  obtain m w where P: "P = main_program pf fl version" and none: "find (\<lambda>r. \<not> mgr_accepts pf r) (registrations pf m w) = None"
    using assms by (auto simp: main_run_def Let_def split: sum.splits option.splits if_splits)
  have "EngineStateCheck \<in> set (registrations pf m w)" by (simp add: registrations_def)
  with none have "mgr_accepts pf EngineStateCheck" unfolding find_None_iff by blast
  moreover have "engine_pointers P = replicate 10 (EngineAt 0)" "collector_pointers P = replicate 3 (CollectorAt 0)"
    by (simp_all add: P main_program_def memory_defs pointer_defs Let_def eval_nat_numeral)
  moreover have "pm_engines (pg_memory P) = [main_engine pf]"
    "pm_collectors (pg_memory P) = [NewEventCollector (batchDebounceInterval fl) (batchMaxSize fl)]"
    "pg_stateSync P = pg_runnable P" "pg_readyz P = pg_runnable P"
    "map_option so_syncer (read_syncer (pg_runnable P) (pg_memory P)) = Some (NewStateSyncer (batchDebounceInterval fl))"
    "map (stage_of \<omega>) (op_stages (pg_orchestrator P)) = stagingStages \<omega> (mgr_GetClient pf)"
    "op_stageTimeout (pg_orchestrator P) = stageTimeout fl"
    by (simp_all add: P main_program_def memory_defs Let_def stagingStages_def)
  ultimately show ?thesis by (simp add: lookup_def)
qed

section \<open>What the servers speak\<close>

text \<open>The options applied to a configuration, in order.\<close>

abbreviation configured :: "tls_option list \<Rightarrow> tls_Config \<Rightarrow> tls_Config" where
  "configured opts \<equiv> fold (\<lambda>f. f) opts"

text \<open>
  HTTP/2 is off unless it is asked for: whatever the other flags are, both servers of a started program
  negotiate exactly HTTP/1.1 when HTTP/2 is not enabled and otherwise what the library's configuration
  says; each serves the certificate of its own directory when one is given and the library's otherwise;
  and a secure metrics endpoint always authenticates.
\<close>

theorem servers_configured:
  assumes "main_run pf fl version = Inr (opts, P)"
  shows "NextProtos (configured (webhook_TLSOpts opts) cfg) = (if enableHTTP2 fl then NextProtos cfg else [''http/1.1'']) \<and>
    NextProtos (configured (metrics_TLSOpts (mgr_Metrics opts)) cfg) =
      (if enableHTTP2 fl then NextProtos cfg else [''http/1.1'']) \<and>
    GetCertificate (configured (webhook_TLSOpts opts) cfg) =
      (if webhookCertPath fl = [] then GetCertificate cfg
       else certwatcher_New pf (filepath_Join pf (webhookCertPath fl) (webhookCertName fl))
              (filepath_Join pf (webhookCertPath fl) (webhookCertKey fl))) \<and>
    GetCertificate (configured (metrics_TLSOpts (mgr_Metrics opts)) cfg) =
      (if metricsCertPath fl = [] then GetCertificate cfg
       else certwatcher_New pf (filepath_Join pf (metricsCertPath fl) (metricsCertName fl))
              (filepath_Join pf (metricsCertPath fl) (metricsCertKey fl))) \<and>
    FilterProvider (mgr_Metrics opts) = SecureServing (mgr_Metrics opts)"
proof -
  obtain ww wo mw mo where w: "main_webhookCertWatcher pf fl = Inr (ww, wo)"
    and m: "main_metricsServerOptions pf fl = Inr (mw, mo)" and o: "opts = main_options fl mo wo"
    using assms by (auto simp: main_run_def Let_def split: sum.splits option.splits if_splits)
  have tls: "configured (main_tlsOpts fl) cfg = (if enableHTTP2 fl then cfg else disableHTTP2 cfg)"
    by (simp add: main_tlsOpts_def)
  have 1: "NextProtos (configured wo cfg) = (if enableHTTP2 fl then NextProtos cfg else [''http/1.1''])"
    "GetCertificate (configured wo cfg) = (if webhookCertPath fl = [] then GetCertificate cfg
       else certwatcher_New pf (filepath_Join pf (webhookCertPath fl) (webhookCertName fl))
              (filepath_Join pf (webhookCertPath fl) (webhookCertKey fl)))"
    using w by (auto simp: main_webhookCertWatcher_def Let_def tls disableHTTP2_def split: if_splits option.splits)
  have 2: "NextProtos (configured (metrics_TLSOpts mo) cfg) = (if enableHTTP2 fl then NextProtos cfg else [''http/1.1''])"
    "GetCertificate (configured (metrics_TLSOpts mo) cfg) = (if metricsCertPath fl = [] then GetCertificate cfg
       else certwatcher_New pf (filepath_Join pf (metricsCertPath fl) (metricsCertName fl))
              (filepath_Join pf (metricsCertPath fl) (metricsCertKey fl)))"
    "FilterProvider mo = SecureServing mo"
    using m by (auto simp: main_metricsServerOptions_def Let_def tls disableHTTP2_def split: if_splits option.splits)
  show ?thesis using 1 2 by (simp add: o main_options_def)
qed

section \<open>A platform on the in-memory server\<close>

definition server_platform :: "string \<Rightarrow> server platform" where
  "server_platform nss =
     \<lparr>os_Getenv = (\<lambda>name. if name = ''TARGET_NAMESPACES'' then nss else []),
      filepath_Join = (\<lambda>a b. a @ ''/'' @ b), certwatcher_New = (\<lambda>cert k. Some (cert, k)), ctrl_NewManager = (\<lambda>_. True),
      mgr_accepts = (\<lambda>_. True), regexp_Compile = (\<lambda>_. None),
      pf_defaultNamespaceRegex = (\<lambda>s. True), time_ParseDuration = (\<lambda>_. None), expirable_NewLRU = (\<lambda>_. server_lru),
      pf_gcTracker = (\<lambda>uid s. s), mgr_GetClient = server_client, mgr_GetScheme = example_scheme,
      mgr_EventRecorder = (\<lambda>res t r msg s. s), pf_SetStatusCondition = replace_condition, pf_Error = (\<lambda>err. ''error''),
      pf_Since = (\<lambda>s. ''1s''), pf_AfterFunc = (\<lambda>d s. s), pf_Now = (\<lambda>_. 9), pf_controllerutil = go_controllerutil\<rparr>"

interpretation srv_platform: platform_contract "server_platform nss" server_view for nss
proof -
  show "platform_contract (server_platform nss) server_view"
    using srv.api_client_current_axioms srv_status.status_client_axioms srv_patch.patch_client_axioms util.finalizers_axioms
    by (auto simp: platform_contract_def platform_contract_axioms_def server_platform_def server_lru_def)
qed

theorem target_namespaces_configured_witness:
  "\<exists>nss. GetOrDiscoverTargetNamespaces order_id (main_engine (server_platform ''team,prod'')) access_server = (Inr nss, access_server) \<and>
     strings_Join nss '','' = ''team,prod''"
proof -
  have "os_Getenv (server_platform ''team,prod'') ''TARGET_NAMESPACES'' = ''team,prod''" by (simp add: server_platform_def)
  with target_namespaces_configured[of "server_platform ''team,prod''" order_id access_server] show ?thesis
    by (auto simp del: strings_Join.simps)
qed

lemma server_run:
  "\<exists>opts. main_run (server_platform nss) fl version = Inr (opts, main_program (server_platform nss) fl version)"
proof -
  let ?pf = "server_platform nss"
  have "\<exists>w o'. main_webhookCertWatcher ?pf fl = Inr (w, o')" "\<exists>m o'. main_metricsServerOptions ?pf fl = Inr (m, o')"
    by (simp_all add: main_webhookCertWatcher_def main_metricsServerOptions_def Let_def server_platform_def)
  then obtain w wo m mo where "main_webhookCertWatcher ?pf fl = Inr (w, wo)" "main_metricsServerOptions ?pf fl = Inr (m, mo)"
    by blast
  moreover have "find (\<lambda>r. \<not> mgr_accepts ?pf r) rs = None" for rs by (simp add: find_None_iff server_platform_def)
  moreover have "ctrl_NewManager ?pf opts" for opts by (simp add: server_platform_def)
  ultimately show ?thesis by (simp add: main_run_def Let_def)
qed

theorem program_wired_witness:
  "\<exists>opts P. main_run (server_platform ''team'') default_flags ''1.2'' = Inr (opts, P) \<and>
     read_engine (wp_engine (pg_podWebhook P))
       (write_engine (op_engine (pg_orchestrator P)) example_engine (pg_memory P)) = Some example_engine \<and>
     read_engine (wp_engine (pg_podWebhook P)) (pg_memory P) = Some access_engine"
proof -
  let ?P = "main_program (server_platform ''team'') default_flags ''1.2''"
  obtain opts where r: "main_run (server_platform ''team'') default_flags ''1.2'' = Inr (opts, ?P)"
    using server_run by blast
  have "main_engine (server_platform ''team'') = access_engine"
    by (simp add: main_engine_def main_targetNamespaces_def server_platform_def access_engine_def Let_def)
  moreover have "wp_engine (pg_podWebhook ?P) \<in> set (engine_pointers ?P)" "op_engine (pg_orchestrator ?P) \<in> set (engine_pointers ?P)"
    by (simp_all add: engine_pointers_def)
  moreover note program_wired[OF r]
  ultimately show ?thesis using r by metis
qed

theorem servers_configured_witness:
  "\<exists>opts P. main_run (server_platform ''team'') (default_flags\<lparr>webhookCertPath := ''/certs''\<rparr>) ''1.2'' = Inr (opts, P) \<and>
     configured (webhook_TLSOpts opts) \<lparr>NextProtos = [''h2''], GetCertificate = None\<rparr> =
       \<lparr>NextProtos = [''http/1.1''], GetCertificate = Some (''/certs/tls.crt'', ''/certs/tls.key'')\<rparr>"
proof -
  obtain opts where r: "main_run (server_platform ''team'') (default_flags\<lparr>webhookCertPath := ''/certs''\<rparr>) ''1.2'' =
      Inr (opts, main_program (server_platform ''team'') (default_flags\<lparr>webhookCertPath := ''/certs''\<rparr>) ''1.2'')"
    using server_run by blast
  with servers_configured[OF r, of "\<lparr>NextProtos = [''h2''], GetCertificate = None\<rparr>"] show ?thesis
    by (auto simp: default_flags_def server_platform_def intro!: tls_Config.equality)
qed

end
