(* ===== verification/Journey.thy ===== *)
theory Journey
  imports Controllers Webhooks
begin

text \<open>
  The way of a change through all components: a reconciler (\<^verbatim>\<open>internal/controller\<close>) collects an event, the
  debouncer and the collector (\<^verbatim>\<open>internal/reconciliation\<close>) make it part of a batch, the stages process
  the batch, and the webhook (\<^verbatim>\<open>internal/webhook/v1\<close>) admits the pods. Nothing is defined
  here but the promise to the pods; everything else is the composition of the components' operations.
\<close>

section \<open>What a processed batch means for pods\<close>

text \<open>
  Every labelled pod whose annotations name a deployment of the resource is admitted with an account
  that has been granted what the resource asks for.
\<close>

definition pods_served :: "'c InMemoryEngine \<Rightarrow> cluster \<Rightarrow> string list \<Rightarrow> WSAResource \<Rightarrow> bool" where
  "pods_served e m nss res \<longleftrightarrow>
     (\<forall>pod version. shouldRunOnPod pod \<and> \<not> IsEmpty (getPodScope pod) \<and> wsa_matches res (getPodScope pod) \<longrightarrow>
        (\<exists>pod'. Default \<lparr>pcd_engine = e, pcd_version = version\<rparr> pod = (None, pod', ''success'', Some True) \<and>
           granted m nss res (pod_ServiceAccountName pod')))"

context pipeline
begin

lemma batch_serves_pods:
  assumes "processBatch so batch e c = (None, batch', e', c')" "ba_Resources batch \<noteq> []"
    and "no_clash (cluster_resources (view c))" "\<forall>r \<in> cluster_resources (view c). no_wildcard [r]"
    and "res \<in> cluster_resources (view c)"
  shows "\<exists>plan. ba_Plan batch' = Some plan \<and> pods_served e' (view c') (pl_TargetNamespaces plan) res"
  using assms(1,2)
proof (rule processed)
  fix rs nss q bx cx cy plan
  assume "ba_Plan batch' = Some plan"
  moreover have "pods_served e' (view c') (pl_TargetNamespaces plan) res" if "ba_Plan batch' = Some plan"
    unfolding pods_served_def
  proof (intro allI impI)
    fix pod version
    assume p: "shouldRunOnPod pod \<and> \<not> IsEmpty (getPodScope pod) \<and> wsa_matches res (getPodScope pod)"
    with grants[OF assms(1-5), of "getPodScope pod"] that obtain n where
      "engine_GetServiceAccountForScope e' (getPodScope pod) = (n, None)" "n \<noteq> []"
      "granted (view c') (pl_TargetNamespaces plan) res n" by auto
    with p show "\<exists>pod'. Default \<lparr>pcd_engine = e', pcd_version = version\<rparr> pod = (None, pod', ''success'', Some True) \<and>
        granted (view c') (pl_TargetNamespaces plan) res (pod_ServiceAccountName pod')"
      by (auto simp: Default_def Let_def)
  qed
  ultimately show ?thesis by blast
qed

end

section \<open>What a reconciliation means for the collector\<close>

context controllers
begin

text \<open>
  An event that a reconciler adds is in a batch of the channel after at most four steps, if the channel
  has room.
\<close>

lemma reconciled_sent:
  assumes "Reconcile k r e (cs_ec s) req c = Some ((result, None), ec', c')"
    and "view c (k, req) = Some x" "\<not> terminating x" "k \<in> {KWorkloadServiceAccount, KClusterWorkloadServiceAccount}"
    and "collector_reachable s" "order_ok \<omega>"
    and "length (ec_batchReadyCh (cs_ec s)) < batchReadyCh_capacity"
  obtains now event y as s' where "AddEvent now event (cs_ec s) = Some ec'"
    "collector_run (Add now event # as) s = Some s'" "list_all internal as" "length as \<le> 4"
    "ec_batchReadyCh (cs_ec s') = ec_batchReadyCh (cs_ec s) @ [map snd (go_range (o_key \<omega>) (ec_eventMap ec'))]"
    "event \<in> set (map snd (go_range (o_key \<omega>) (ec_eventMap ec')))"
    "view c' (k, req) = Some y" "our_finalizer y" "resource_of y = Some (ev_Resource event)"
proof -
  obtain now event y where ev: "AddEvent now event (cs_ec s) = Some ec'" "event_key event = req"
    "view c' (k, req) = Some y" "our_finalizer y" "resource_of y = Some (ev_Resource event)"
    using queued_event[OF assms(1-4)] by blast
  let ?s = "s\<lparr>cs_ec := ec', cs_added := cs_added s @ [event]\<rparr>"
  have collected: "map_of (ec_eventMap ec') req = Some event" using AddEvent_collects[OF ev(1)] ev(2) by simp
  have step: "collector_exec (Add now event) s = Some ?s" by (simp add: ev(1))
  have r: "collector_reachable ?s" by (rule collector_reachable.step[OF assms(5) _ step]) simp
  have same: "ec_batchReadyCh ec' = ec_batchReadyCh (cs_ec s)" using ev(1) by (auto elim!: AddEvent_cases)
  have "armed (cs_ec ?s)" using AddEvent_arms[OF ev(1)] by simp
  moreover have "ec_eventMap (cs_ec ?s) \<noteq> []" using collected by auto
  ultimately obtain as s' where as: "list_all internal as" "length as \<le> 4" "collector_run as ?s = Some s'"
    "ec_batchReadyCh (cs_ec s') = ec_batchReadyCh (cs_ec s) @ [map snd (go_range (o_key \<omega>) (ec_eventMap ec'))]"
    using armed_run[OF r assms(6)] assms(7) same by auto
  have "event_map_ok (ec_eventMap ec')"
    using collector_reachable_ok[OF r] by (simp add: collector_ok_def ec_ok_def)
  from collected_batch(1)[OF assms(6) this]
  have "event \<in> set (map snd (go_range (o_key \<omega>) (ec_eventMap ec')))" using collected by (simp only: ranI)
  moreover have "collector_run (Add now event # as) s = Some s'" using run_Cons[OF step] as(3) by simp
  ultimately show ?thesis using that as(1,2,4) ev(1,3-5) by blast
qed

end

section \<open>From a change to the pods\<close>

text \<open>
  C3. The journey of a change: when the reconciliation of a live resource succeeds while the channel of
  batches has room, the resource has the finalizer and the debouncer and the collector are able, in at
  most four steps, to hand over a batch with its event; and when this batch is processed without an error, in
  whatever state engine and cluster are by then and as long as the resource is still live, no
  two resources clash by name and none uses the wildcard mark as a value, the webhook admits every
  labelled pod that the resource covers with an account that is granted what the resource asks for. (With a
  full channel the events are merged back, see \<open>merged_back_events_stall\<close>.)
\<close>

theorem change_reaches_pods:
  assumes "controllers r view" and "pipeline e2 view so \<omega>"
    and "Reconcile k r e (cs_ec s) req c = Some ((result, None), ec', c')"
    and "k \<in> {KWorkloadServiceAccount, KClusterWorkloadServiceAccount}"
    and "view c (k, req) = Some x" and "\<not> terminating x"
    and "collector_reachable s" and "order_ok \<omega>'"
    and "length (ec_batchReadyCh (cs_ec s)) < batchReadyCh_capacity"
    and "events = map snd (go_range (o_key \<omega>') (ec_eventMap ec'))"
    and "processBatch so (NewBatch bid start events) e2 d = (None, batch', e', d')"
    and "view d (k, req) = Some z" and "\<not> terminating z" and "resource_of z = Some res"
    and "no_clash (cluster_resources (view d))" and "\<forall>r \<in> cluster_resources (view d). no_wildcard [r]"
  shows "(\<exists>now event y as s'. AddEvent now event (cs_ec s) = Some ec' \<and> event \<in> set events \<and>
      view c' (k, req) = Some y \<and> ServiceAccountCleanupFinalizer \<in> set (om_Finalizers (obj_meta y)) \<and>
      resource_of y = Some (ev_Resource event) \<and>
      collector_run (Add now event # as) s = Some s' \<and> list_all internal as \<and> length as \<le> 4 \<and>
      ec_batchReadyCh (cs_ec s') = ec_batchReadyCh (cs_ec s) @ [events]) \<and>
    (\<exists>plan. ba_Plan batch' = Some plan \<and> pods_served e' (view d') (pl_TargetNamespaces plan) res)"
proof (rule controllers.reconciled_sent[OF assms(1,3,5,6,4,7-9), folded assms(10)])
  fix now event y as s'
  assume j: "AddEvent now event (cs_ec s) = Some ec'" "collector_run (Add now event # as) s = Some s'"
    "list_all internal as" "length as \<le> 4" "ec_batchReadyCh (cs_ec s') = ec_batchReadyCh (cs_ec s) @ [events]"
    "event \<in> set events" "view c' (k, req) = Some y"
    "ServiceAccountCleanupFinalizer \<in> set (om_Finalizers (obj_meta y))" "resource_of y = Some (ev_Resource event)"
  have "res \<in> cluster_resources (view d)" by (rule controllers.live_resource[OF assms(1,12-14,4)])
  moreover have "ba_Resources (NewBatch bid start events) \<noteq> []" using j(6) by (auto simp: NewBatch_def)
  ultimately have "\<exists>plan. ba_Plan batch' = Some plan \<and> pods_served e' (view d') (pl_TargetNamespaces plan) res"
    using pipeline.batch_serves_pods[OF assms(2,11) _ assms(15,16)] by blast
  with j show ?thesis by blast
qed

section \<open>Examples\<close>

definition journey_start :: collector_state where
  "journey_start = collector_init 1 100"

definition journey_events :: "EventInfo list" where
  "journey_events = map snd (go_range (o_key order_id) (ec_eventMap (fst (snd collected_done))))"

definition journey_wsa :: WorkloadServiceAccount where
  "journey_wsa = access_wsa\<lparr>wsaMeta := (wsaMeta access_wsa)\<lparr>om_Finalizers := [ServiceAccountCleanupFinalizer]\<rparr>\<rparr>"

definition journey_run :: "error option \<times> Batch \<times> server InMemoryEngine \<times> server" where
  "journey_run = processBatch (example_orchestrator order_id) (NewBatch ''b1'' 0 journey_events) access_engine
     (snd (snd collected_done))"

lemma journey_list: "fst (listResources access_engine (snd (snd collected_done))) = Inr [wsaAdapter journey_wsa]"
  by code_simp

lemma journey_resources: "cluster_resources (server_view (snd (snd collected_done))) = {wsaAdapter journey_wsa}"
proof -
  from journey_list obtain d where "listResources access_engine (snd (snd collected_done)) = (Inr [wsaAdapter journey_wsa], d)"
    by (metis prod.collapse)
  from api_client_current.listResources_current(1)[OF srv.api_client_current_axioms _ this] show ?thesis
    by (simp add: access_engine_def NewInMemoryEngineWithNamespaces_def NewResourceManagementServiceWithScheme_def)
qed

theorem change_reaches_pods_witness:
  "(\<exists>as s'. collector_run as journey_start = Some s' \<and> ec_batchReadyCh (cs_ec s') = [journey_events]) \<and>
   (\<exists>plan. ba_Plan (fst (snd journey_run)) = Some plan \<and>
      pods_served (fst (snd (snd journey_run))) (server_view (snd (snd (snd journey_run)))) (pl_TargetNamespaces plan)
        (wsaAdapter journey_wsa))"
proof -
  have s: "cs_ec journey_start = quiet" "collector_reachable journey_start"
    by (simp_all add: journey_start_def collector_init_def collector_reachable.init[unfolded collector_init_def])
  have room: "length (ec_batchReadyCh (cs_ec journey_start)) < batchReadyCh_capacity" and empty: "ec_batchReadyCh (cs_ec journey_start) = []"
    by (simp_all add: s(1) NewEventCollector_def batchReadyCh_capacity_def)
  have a: "Reconcile KWorkloadServiceAccount server_reconciler access_engine quiet (key ''team'' ''a'') access_server \<noteq> None"
    by code_simp
  have b: "snd (fst collected_done) = None" by code_simp
  note 1 = dying_done_eq[OF a collected_done_def b, folded s(1)]
  have 2: "server_view access_server (KWorkloadServiceAccount, key ''team'' ''a'') = Some (OWorkloadServiceAccount access_wsa)"
    by code_simp
  have 3: "\<not> terminating (OWorkloadServiceAccount access_wsa)" by (simp add: terminating_def access_defs)
  have "fst journey_run = None" by code_simp
  then have 4: "processBatch (example_orchestrator order_id) (NewBatch ''b1'' 0 journey_events) access_engine (snd (snd collected_done)) =
      (None, fst (snd journey_run), fst (snd (snd journey_run)), snd (snd (snd journey_run)))"
    unfolding journey_run_def by (metis prod.collapse)
  have 5: "server_view (snd (snd collected_done)) (KWorkloadServiceAccount, key ''team'' ''a'') =
      Some (OWorkloadServiceAccount journey_wsa)"
    by code_simp
  have 6: "\<not> terminating (OWorkloadServiceAccount journey_wsa)" by (simp add: terminating_def journey_wsa_def access_defs)
  have 7: "no_clash (cluster_resources (server_view (snd (snd collected_done))))"
    unfolding journey_resources no_clash_def by (simp add: bound_refs_def journey_wsa_def access_defs)
  have 8: "\<forall>r \<in> cluster_resources (server_view (snd (snd collected_done))). no_wildcard [r]"
    unfolding journey_resources by (simp add: no_wildcard_def all_dims scopeSlices_def journey_wsa_def access_defs WildcardValue_def)
  note j = change_reaches_pods[OF srv_controllers.controllers_axioms access_pipeline 1 _ 2 3 s(2) order_ok_id room
      journey_events_def 4 5 6 _ 7 8, of "wsaAdapter journey_wsa"]
  have "resource_of (OWorkloadServiceAccount journey_wsa) = Some (wsaAdapter journey_wsa)" by (simp add: NewWSAResource_def)
  from j[OF _ this] empty show ?thesis by (elim meta_impE conjE exE) (simp, metis append_Nil)
qed

end
