(* ===== verification/Instruments.thy ===== *)
theory Instruments
  imports Controllers Webhooks
begin

text \<open>
  \<^verbatim>\<open>internal/metrics/metrics.go\<close> and \<^verbatim>\<open>internal/metrics/reporter.go\<close>: the counters, histograms and
  the gauge that the program moves itself, where the webhook and the reconcilers move them, and the
  reporter that labels the gauge when the program starts. A prometheus vector is the map
  from label values to children; a counter is its count, a histogram the list of what it observed.
  Shown: what the request counter counts, and that a reconciliation is recorded as a success
  whatever becomes of it.
\<close>

section \<open>Vectors\<close>

type_synonym 'a vec = "(string list, 'a) gomap"

text \<open>\<^verbatim>\<open>WithLabelValues\<close> makes a zero child of labels that it sees for the first time.\<close>

definition child :: "'a \<Rightarrow> 'a vec \<Rightarrow> string list \<Rightarrow> 'a" where
  "child zero v labels = (case map_of v labels of None \<Rightarrow> zero | Some x \<Rightarrow> x)"

definition with_labels :: "'a \<Rightarrow> string list \<Rightarrow> ('a \<Rightarrow> 'a) \<Rightarrow> 'a vec \<Rightarrow> 'a vec" where
  "with_labels zero labels f v = map_put labels (f (child zero v labels)) v"

lemma child_with_labels [simp]:
  "child zero (with_labels zero labels f v) labels' = (if labels' = labels then f (child zero v labels) else child zero v labels')"
  by (simp add: child_def with_labels_def map_of_put)

record instruments =
  in_requestsTotal :: "nat vec"
  in_reconciliationDurationSeconds :: "nat list vec"
  in_finalizerStuckTotal :: "nat vec"
  in_opc :: "nat vec"
  in_podWebhookDuration :: "nat list vec"

definition registered_instruments :: instruments where
  "registered_instruments =
     \<lparr>in_requestsTotal = [], in_reconciliationDurationSeconds = [], in_finalizerStuckTotal = [], in_opc = [],
      in_podWebhookDuration = []\<rparr>"

definition IncRequestsTotal :: "string \<Rightarrow> bool \<Rightarrow> instruments \<Rightarrow> instruments" where
  "IncRequestsTotal requestIdentifier scopeMatched i =
     (let scopeMatchedStr = (if scopeMatched then ''true'' else ''false'')
      in i\<lparr>in_requestsTotal := with_labels 0 [requestIdentifier, scopeMatchedStr] (\<lambda>n. n + 1) (in_requestsTotal i)\<rparr>)"

definition TrackRequest :: "string \<Rightarrow> bool \<Rightarrow> instruments \<Rightarrow> instruments" where
  "TrackRequest controllerType scopeMatched = IncRequestsTotal controllerType scopeMatched"

definition ObserveReconciliationDuration :: "string \<Rightarrow> string \<Rightarrow> nat \<Rightarrow> instruments \<Rightarrow> instruments" where
  "ObserveReconciliationDuration controllerType result duration i =
     i\<lparr>in_reconciliationDurationSeconds :=
       with_labels [] [controllerType, result] (\<lambda>os. os @ [duration]) (in_reconciliationDurationSeconds i)\<rparr>"

definition SetOpcNamespaceUid :: "string \<Rightarrow> instruments \<Rightarrow> instruments" where
  "SetOpcNamespaceUid namespaceUID i = i\<lparr>in_opc := with_labels 0 [namespaceUID] (\<lambda>_. 1) (in_opc i)\<rparr>"

section \<open>Deferred recording\<close>

text \<open>
  A function returns or panics. A deferred call runs in either case; the function's outcome stands,
  unless the deferred call panics itself. \<^verbatim>\<open>recover\<close> returns the value of the panic, and ends it, if the
  function that calls it was itself deferred; called any deeper, it returns nil.
\<close>

datatype 'a outcome = Returned 'a | Panicked string

fun panic_of :: "'a outcome \<Rightarrow> string option" where
  "panic_of (Returned _) = None"
| "panic_of (Panicked p) = Some p"

definition recover :: "bool \<Rightarrow> string option \<Rightarrow> string option" where
  "recover deferred panicking = (if deferred then panicking else None)"

definition with_deferred ::
  "(string option \<Rightarrow> instruments \<Rightarrow> string option \<times> instruments) \<Rightarrow> 'a outcome \<Rightarrow> instruments \<Rightarrow> 'a outcome \<times> instruments" where
  "with_deferred g out i =
     (case g (panic_of out) i of
        (None, i') \<Rightarrow> (out, i')
      | (Some p, i') \<Rightarrow> (Panicked p, i'))"

text \<open>The first argument tells whether the function is deferred itself; the result is its own panic, if any.\<close>

definition RecordReconciliationDurationFunc ::
  "bool \<Rightarrow> string option \<Rightarrow> string \<Rightarrow> nat \<Rightarrow> nat \<Rightarrow> instruments \<Rightarrow> string option \<times> instruments" where
  "RecordReconciliationDurationFunc deferred panicking controllerType startTime now i =
     (let duration = now - startTime
      in case recover deferred panicking of
           Some err \<Rightarrow> (Some err, ObserveReconciliationDuration controllerType ''error'' duration i)
         | None \<Rightarrow> (None, ObserveReconciliationDuration controllerType ''success'' duration i))"

definition recordMetrics :: "string option \<Rightarrow> string \<Rightarrow> nat \<Rightarrow> nat \<Rightarrow> instruments \<Rightarrow> string option \<times> instruments" where
  "recordMetrics panicking resourceType startTime now i =
     RecordReconciliationDurationFunc False panicking resourceType startTime now i"

text \<open>A reconciler defers \<^verbatim>\<open>recordMetrics\<close> with the name of its resource type.\<close>

definition resource_type :: "kind \<Rightarrow> string" where
  "resource_type k =
     (if k = KClusterWorkloadServiceAccount then ''clusterworkloadserviceaccount'' else ''workloadserviceaccount'')"

definition measured :: "kind \<Rightarrow> nat \<Rightarrow> nat \<Rightarrow> 'a outcome \<Rightarrow> instruments \<Rightarrow> 'a outcome \<times> instruments" where
  "measured k startTime now = with_deferred (\<lambda>panicking. recordMetrics panicking (resource_type k) startTime now)"

fun measure_all :: "(kind \<times> nat \<times> nat \<times> 'a outcome) list \<Rightarrow> instruments \<Rightarrow> 'a outcome list \<times> instruments" where
  "measure_all [] i = ([], i)"
| "measure_all ((k, startTime, now, out) # calls) i =
     (case measured k startTime now out i of
        (out', i1) \<Rightarrow> (case measure_all calls i1 of (outs, i2) \<Rightarrow> (out' # outs, i2)))"

definition observed_durations :: "instruments \<Rightarrow> string \<Rightarrow> string \<Rightarrow> nat list" where
  "observed_durations i controllerType result = child [] (in_reconciliationDurationSeconds i) [controllerType, result]"

lemma observed_ObserveReconciliationDuration [simp]:
  "observed_durations (ObserveReconciliationDuration t r d i) t' r' =
     (if t' = t \<and> r' = r then observed_durations i t r @ [d] else observed_durations i t' r')"
  by (auto simp: observed_durations_def ObserveReconciliationDuration_def)

lemma measured_eq:
  "measured k startTime now out i =
     (out, ObserveReconciliationDuration (resource_type k) ''success'' (now - startTime) i)"
  by (simp add: measured_def with_deferred_def recordMetrics_def RecordReconciliationDurationFunc_def recover_def)

text \<open>Deferred without the detour over \<open>recordMetrics\<close>, the function tells panics from successes.\<close>

lemma deferred_directly:
  "with_deferred (\<lambda>panicking. RecordReconciliationDurationFunc True panicking t startTime now) out i =
     (out, ObserveReconciliationDuration t (case out of Returned _ \<Rightarrow> ''success'' | Panicked _ \<Rightarrow> ''error'') (now - startTime) i)"
  by (cases out) (simp_all add: with_deferred_def RecordReconciliationDurationFunc_def recover_def)

text \<open>
  C34. Whatever reconciliations come to, a result, a result with an error or a panic, their duration is
  recorded under the label success of their resource type, nothing is ever recorded under
  error, and recording changes no outcome: a panic goes on to the caller.
\<close>

theorem recorded_as_success:
  "fst (measure_all calls i) = map (snd \<circ> snd \<circ> snd) calls \<and>
   observed_durations (snd (measure_all calls i)) t ''success'' =
     observed_durations i t ''success'' @
       map (\<lambda>(k, startTime, now, out). now - startTime) (filter (\<lambda>call. resource_type (fst call) = t) calls) \<and>
   observed_durations (snd (measure_all calls i)) t ''error'' = observed_durations i t ''error''"
proof (induction calls arbitrary: i)
  case (Cons call calls)
  obtain k startTime now out where "call = (k, startTime, now, out)" by (metis prod.exhaust)
  then show ?case using Cons.IH by (auto simp: measured_eq split_beta)
qed simp

section \<open>The webhook's instruments\<close>

text \<open>\<^verbatim>\<open>Default\<close> with what it counts and, deferred, observes.\<close>

definition Default_observed ::
  "'c PodCustomDefaulter \<Rightarrow> nat \<Rightarrow> nat \<Rightarrow> Pod \<Rightarrow> instruments \<Rightarrow> (error option \<times> Pod) \<times> instruments" where
  "Default_observed d start now obj i =
     (case Default d obj of
        (err, obj', result, counted) \<Rightarrow>
          (let i1 = (case counted of None \<Rightarrow> i | Some scopeMatched \<Rightarrow> IncRequestsTotal ''podWebhook'' scopeMatched i)
           in ((err, obj'),
               i1\<lparr>in_podWebhookDuration := with_labels [] [result] (\<lambda>os. os @ [now - start]) (in_podWebhookDuration i1)\<rparr>)))"

fun admit_all :: "'c PodCustomDefaulter \<Rightarrow> (nat \<times> nat \<times> Pod) list \<Rightarrow> instruments \<Rightarrow> (error option \<times> Pod) list \<times> instruments" where
  "admit_all d [] i = ([], i)"
| "admit_all d ((start, now, obj) # calls) i =
     (case Default_observed d start now obj i of
        (res, i1) \<Rightarrow> (case admit_all d calls i1 of (ress, i2) \<Rightarrow> (res # ress, i2)))"

definition requests_total :: "instruments \<Rightarrow> string \<Rightarrow> bool \<Rightarrow> nat" where
  "requests_total i requestIdentifier scopeMatched =
     child 0 (in_requestsTotal i) [requestIdentifier, if scopeMatched then ''true'' else ''false'']"

definition webhook_durations :: "instruments \<Rightarrow> string \<Rightarrow> nat list" where
  "webhook_durations i result = child [] (in_podWebhookDuration i) [result]"

text \<open>The pods that ask for an account, and those of them for which there is one.\<close>

definition asks_for_account :: "Pod \<Rightarrow> bool" where
  "asks_for_account pod \<longleftrightarrow> shouldRunOnPod pod \<and> \<not> IsEmpty (getPodScope pod)"

definition account_found :: "'c PodCustomDefaulter \<Rightarrow> Pod \<Rightarrow> bool" where
  "account_found d pod \<longleftrightarrow> (case engine_GetServiceAccountForScope (pcd_engine d) (getPodScope pod) of
     (n, err) \<Rightarrow> err = None \<and> n \<noteq> [])"

lemma requests_IncRequestsTotal [simp]:
  "requests_total (IncRequestsTotal t b i) t' b' = requests_total i t' b' + (if t' = t \<and> b' = b then 1 else 0)"
  by (simp add: requests_total_def IncRequestsTotal_def Let_def)

lemma Default_observed_counts:
  assumes "Default_observed d start now pod i = (res, i')"
  shows "requests_total i' t b =
      requests_total i t b + (if t = ''podWebhook'' \<and> asks_for_account pod \<and> account_found d pod = b then 1 else 0)"
    and "\<exists>result \<in> {''success'', ''skipped'', ''error''}. \<forall>l. webhook_durations i' l =
      (if l = result then webhook_durations i l @ [now - start] else webhook_durations i l)"
proof -
  obtain err pod' result counted where d: "Default d pod = (err, pod', result, counted)" by (metis prod.exhaust)
  have "counted = (if asks_for_account pod then Some (account_found d pod) else None)"
    "result \<in> {''success'', ''skipped'', ''error''}"
    using d by (auto simp: Default_def Let_def asks_for_account_def account_found_def split: if_splits prod.splits)
  with d assms show "requests_total i' t b =
      requests_total i t b + (if t = ''podWebhook'' \<and> asks_for_account pod \<and> account_found d pod = b then 1 else 0)"
    and "\<exists>result \<in> {''success'', ''skipped'', ''error''}. \<forall>l. webhook_durations i' l =
      (if l = result then webhook_durations i l @ [now - start] else webhook_durations i l)"
    by (auto simp: Default_observed_def requests_total_def IncRequestsTotal_def webhook_durations_def Let_def split: if_splits)
qed

text \<open>
  C35. What the request counter counts: after any admissions by a replica, the counters of the webhook have
  grown by the number of labelled pods with a scope whose scope has, and has not, an account; no
  counter of another type moves; and every admission has been observed once, under one of three labels.
\<close>

theorem requests_counted:
  "requests_total (snd (admit_all d calls i)) t b = requests_total i t b +
     (if t = ''podWebhook''
      then length (filter (\<lambda>(start, now, pod). asks_for_account pod \<and> account_found d pod = b) calls) else 0) \<and>
   (\<Sum>l \<in> {''success'', ''skipped'', ''error''}. length (webhook_durations (snd (admit_all d calls i)) l)) =
     (\<Sum>l \<in> {''success'', ''skipped'', ''error''}. length (webhook_durations i l)) + length calls \<and>
   fst (admit_all d calls i) = map (\<lambda>(start, now, pod). (fst (Default d pod), fst (snd (Default d pod)))) calls"
proof (induction calls arbitrary: i)
  case (Cons call calls)
  obtain start now pod where call: "call = (start, now, pod)" by (metis prod.exhaust)
  obtain res i1 where 1: "Default_observed d start now pod i = (res, i1)" by fastforce
  then have "res = (fst (Default d pod), fst (snd (Default d pod)))"
    by (auto simp: Default_observed_def Let_def split: prod.splits)
  then show ?case
    using Cons.IH[of i1] Default_observed_counts(1)[OF 1, of t b] Default_observed_counts(2)[OF 1]
    by (auto simp: call 1 split_beta)
qed simp

section \<open>The reporter\<close>

text \<open>The file that names the namespace of the installation, or the error of reading it, is an argument.\<close>

definition getInstallationNamespace :: "error + string \<Rightarrow> 'c client \<Rightarrow> 'c \<Rightarrow> (error + ObjectMeta) \<times> 'c" where
  "getInstallationNamespace file k8sClient c =
     (case file of
        Inl err \<Rightarrow> (Inl err, c)
      | Inr installationNamespace \<Rightarrow>
          (case client_Get k8sClient KNamespace (key [] installationNamespace) c of
             (Inl err, c') \<Rightarrow> (Inl (Api err), c')
           | (Inr opcNamespace, c') \<Rightarrow> (Inr (obj_meta opcNamespace), c')))"

definition MetricsReporter_Start ::
  "error + string \<Rightarrow> 'c client \<Rightarrow> instruments \<Rightarrow> 'c \<Rightarrow> error option \<times> instruments \<times> 'c" where
  "MetricsReporter_Start file cl i c =
     (case getInstallationNamespace file cl c of
        (Inl err, c') \<Rightarrow> (None, i, c')
      | (Inr opcNamespace, c') \<Rightarrow> (None, SetOpcNamespaceUid (om_UID opcNamespace) i, c'))"

text \<open>Starting the reporter never fails and changes nothing in the cluster; the gauge says which namespace it is.\<close>

context api_client_current
begin

lemma reporter_start:
  assumes "MetricsReporter_Start file cl i c = (err, i', c')"
  shows "err = None \<and> view c' = view c \<and>
    (i' = i \<or> (\<exists>ns x. file = Inr ns \<and> view c (KNamespace, key [] ns) = Some x \<and> i' = SetOpcNamespaceUid (om_UID (obj_meta x)) i))"
  using assms Get_found Get_frame
  by (auto simp: MetricsReporter_Start_def getInstallationNamespace_def split: sum.splits prod.splits)

end

end
