(* ===== verification/Memory.thy ===== *)
theory Memory
  imports ApiTypes
begin

text \<open>
  The memory of a Go program as far as deep copies see it: a list of blocks, each the backing array of
  slices or the target of pointers. Slices and pointers are shared references into it. The locale
  \<open>deep_copy\<close> is the contract of a \<^verbatim>\<open>DeepCopyInto\<close> function: the copy has the same value and shares
  no block with anything that existed before.
\<close>

section \<open>Slices and pointers\<close>

text \<open>A nil slice or pointer is \<open>None\<close>.\<close>

record slice =
  sl_block :: nat
  sl_off :: nat
  sl_len :: nat

record pointer =
  pt_block :: nat
  pt_index :: nat

text \<open>\<open>wrap\<close> and \<open>unwrap\<close> say which kind of block holds elements of a type.\<close>

definition slice_elems :: "('b \<Rightarrow> 'e list) \<Rightarrow> 'b list \<Rightarrow> slice \<Rightarrow> 'e list" where
  "slice_elems unwrap mem sl = take (sl_len sl) (drop (sl_off sl) (unwrap (mem ! sl_block sl)))"

definition make_slice :: "('e list \<Rightarrow> 'b) \<Rightarrow> 'e \<Rightarrow> nat \<Rightarrow> 'b list \<Rightarrow> slice \<times> 'b list" where
  "make_slice wrap zero n mem =
     (\<lparr>sl_block = length mem, sl_off = 0, sl_len = n\<rparr>, mem @ [wrap (replicate n zero)])"

definition go_copy :: "('e list \<Rightarrow> 'b) \<Rightarrow> ('b \<Rightarrow> 'e list) \<Rightarrow> slice \<Rightarrow> slice \<Rightarrow> 'b list \<Rightarrow> 'b list" where
  "go_copy wrap unwrap dst src mem =
     (let n = min (sl_len dst) (sl_len src); ys = slice_elems unwrap mem src; xs = unwrap (mem ! sl_block dst)
      in mem[sl_block dst := wrap (take (sl_off dst) xs @ take n ys @ drop (sl_off dst + n) xs)])"

definition deref :: "('b \<Rightarrow> 'e list) \<Rightarrow> 'b list \<Rightarrow> pointer \<Rightarrow> 'e" where
  "deref unwrap mem p = unwrap (mem ! pt_block p) ! pt_index p"

text \<open>The three shapes of generated code: a slice of plain elements, a slice of structs, a new struct.\<close>

definition copy_slice ::
  "('e list \<Rightarrow> 'b) \<Rightarrow> ('b \<Rightarrow> 'e list) \<Rightarrow> 'e \<Rightarrow> slice option \<Rightarrow> 'b list \<Rightarrow> slice option \<times> 'b list" where
  "copy_slice wrap unwrap zero inp mem =
     (case inp of
        None \<Rightarrow> (None, mem)
      | Some sl \<Rightarrow>
          (case make_slice wrap zero (sl_len sl) mem of
             (out, mem1) \<Rightarrow> (Some out, go_copy wrap unwrap out sl mem1)))"

definition copy_index ::
  "('e list \<Rightarrow> 'b) \<Rightarrow> ('b \<Rightarrow> 'e list) \<Rightarrow> ('e \<Rightarrow> 'b list \<Rightarrow> 'e \<times> 'b list) \<Rightarrow> slice \<Rightarrow> slice \<Rightarrow> nat \<Rightarrow> 'b list \<Rightarrow> 'b list" where
  "copy_index wrap unwrap DeepCopyInto inp out i mem =
     (case DeepCopyInto (slice_elems unwrap mem inp ! i) mem of
        (y, mem') \<Rightarrow> mem'[sl_block out := wrap ((unwrap (mem' ! sl_block out))[sl_off out + i := y])])"

definition copy_slice_each ::
  "('e list \<Rightarrow> 'b) \<Rightarrow> ('b \<Rightarrow> 'e list) \<Rightarrow> 'e \<Rightarrow> ('e \<Rightarrow> 'b list \<Rightarrow> 'e \<times> 'b list) \<Rightarrow>
   slice option \<Rightarrow> 'b list \<Rightarrow> slice option \<times> 'b list" where
  "copy_slice_each wrap unwrap zero DeepCopyInto inp mem =
     (case inp of
        None \<Rightarrow> (None, mem)
      | Some sl \<Rightarrow>
          (case make_slice wrap zero (sl_len sl) mem of
             (out, mem1) \<Rightarrow> (Some out, fold (copy_index wrap unwrap DeepCopyInto sl out) [0..<sl_len sl] mem1)))"

definition copy_pointer ::
  "('e list \<Rightarrow> 'b) \<Rightarrow> ('b \<Rightarrow> 'e list) \<Rightarrow> 'e \<Rightarrow> ('e \<Rightarrow> 'b list \<Rightarrow> 'e \<times> 'b list) \<Rightarrow>
   pointer option \<Rightarrow> 'b list \<Rightarrow> pointer option \<times> 'b list" where
  "copy_pointer wrap unwrap zero DeepCopyInto inp mem =
     (case inp of
        None \<Rightarrow> (None, mem)
      | Some p \<Rightarrow>
          (case DeepCopyInto (deref unwrap mem p) (mem @ [wrap [zero]]) of
             (out, mem') \<Rightarrow> (Some \<lparr>pt_block = length mem, pt_index = 0\<rparr>, mem'[length mem := wrap [out]])))"

section \<open>The contract of a deep copy\<close>

definition agree :: "nat set \<Rightarrow> 'b list \<Rightarrow> 'b list \<Rightarrow> bool" where
  "agree A mem mem' \<longleftrightarrow> (\<forall>a \<in> A. a < length mem' \<and> mem' ! a = mem ! a)"

lemma agreeI [intro]: "(\<And>a. a \<in> A \<Longrightarrow> a < length mem' \<and> mem' ! a = mem ! a) \<Longrightarrow> agree A mem mem'"
  by (simp add: agree_def)

lemma agree_subset: "agree A mem mem' \<Longrightarrow> B \<subseteq> A \<Longrightarrow> agree B mem mem'"
  by (auto simp: agree_def)

lemma agree_append: "A \<subseteq> {..<length mem} \<Longrightarrow> agree A mem (mem @ ext)"
  by (auto simp: agree_def nth_append)

lemma agree_update: "A \<subseteq> {..<length mem} \<Longrightarrow> b \<notin> A \<Longrightarrow> agree A mem (mem[b := x])"
  unfolding agree_def by (metis length_list_update lessThan_iff nth_list_update_neq subsetD)

text \<open>
  \<open>ok\<close>: every reference is within allocated memory; \<open>value\<close>: what a reader sees; \<open>reach\<close>: the blocks
  that the value depends on.
\<close>

locale deep_copy =
  fixes copy :: "'x \<Rightarrow> 'b list \<Rightarrow> 'x \<times> 'b list"
    and ok :: "'b list \<Rightarrow> 'x \<Rightarrow> bool"
    and val :: "'b list \<Rightarrow> 'x \<Rightarrow> 'v"
    and reach :: "'b list \<Rightarrow> 'x \<Rightarrow> nat set"
  assumes copied: "ok mem x \<Longrightarrow> copy x mem = (y, mem') \<Longrightarrow>
      (\<exists>ext. mem' = mem @ ext) \<and> ok mem' y \<and> val mem' y = val mem x \<and> reach mem' y \<subseteq> {length mem..}"
    and allocated: "ok mem x \<Longrightarrow> reach mem x \<subseteq> {..<length mem}"
    and frame: "ok mem x \<Longrightarrow> agree (reach mem x) mem mem' \<Longrightarrow>
      ok mem' x \<and> val mem' x = val mem x \<and> reach mem' x = reach mem x"
begin

lemma frame_append:
  assumes "ok mem x"
  shows "ok (mem @ ext) x" "val (mem @ ext) x = val mem x" "reach (mem @ ext) x = reach mem x"
  using frame[OF assms agree_append[OF allocated[OF assms]]] by blast+

lemma copy_run:
  assumes "ok mem x"
  obtains y ext where "copy x mem = (y, mem @ ext)" "ok (mem @ ext) y" "val (mem @ ext) y = val mem x"
    "reach (mem @ ext) y \<subseteq> {length mem..}"
  using copied[OF assms] by (metis prod.exhaust)

end

text \<open>Data without references is its own deep copy.\<close>

lemma plain_deep_copy: "deep_copy (\<lambda>x mem. (x, mem)) (\<lambda>mem x. True) (\<lambda>mem x. f x) (\<lambda>mem x. {})"
  by unfold_locales auto

text \<open>Two fields, copied one after the other.\<close>

definition copy_pair ::
  "('x \<Rightarrow> 'b list \<Rightarrow> 'x \<times> 'b list) \<Rightarrow> ('y \<Rightarrow> 'b list \<Rightarrow> 'y \<times> 'b list) \<Rightarrow> 'x \<times> 'y \<Rightarrow> 'b list \<Rightarrow> ('x \<times> 'y) \<times> 'b list" where
  "copy_pair c1 c2 xy mem =
     (case c1 (fst xy) mem of (x, mem1) \<Rightarrow> (case c2 (snd xy) mem1 of (y, mem2) \<Rightarrow> ((x, y), mem2)))"

locale deep_copy_pair = A: deep_copy c1 ok1 val1 reach1 + B: deep_copy c2 ok2 val2 reach2
  for c1 :: "'x \<Rightarrow> 'b list \<Rightarrow> 'x \<times> 'b list" and ok1 and val1 :: "'b list \<Rightarrow> 'x \<Rightarrow> 'v" and reach1
    and c2 :: "'y \<Rightarrow> 'b list \<Rightarrow> 'y \<times> 'b list" and ok2 and val2 :: "'b list \<Rightarrow> 'y \<Rightarrow> 'w" and reach2
begin

lemma pair: "deep_copy (copy_pair c1 c2) (\<lambda>mem xy. ok1 mem (fst xy) \<and> ok2 mem (snd xy))
  (\<lambda>mem xy. (val1 mem (fst xy), val2 mem (snd xy))) (\<lambda>mem xy. reach1 mem (fst xy) \<union> reach2 mem (snd xy))"
proof (unfold_locales, goal_cases)
  case (1 mem xy z mem')
  then have o: "ok1 mem (fst xy)" "ok2 mem (snd xy)" by simp_all
  obtain x e1 where a: "c1 (fst xy) mem = (x, mem @ e1)" "ok1 (mem @ e1) x" "val1 (mem @ e1) x = val1 mem (fst xy)"
    "reach1 (mem @ e1) x \<subseteq> {length mem..}" by (rule A.copy_run[OF o(1)])
  note f = B.frame_append[OF o(2), of e1]
  obtain y e2 where b: "c2 (snd xy) (mem @ e1) = (y, (mem @ e1) @ e2)" "ok2 ((mem @ e1) @ e2) y"
    "val2 ((mem @ e1) @ e2) y = val2 (mem @ e1) (snd xy)" "reach2 ((mem @ e1) @ e2) y \<subseteq> {length (mem @ e1)..}"
    by (rule B.copy_run[OF f(1)])
  have z: "z = (x, y)" "mem' = (mem @ e1) @ e2" using 1(2) a(1) b(1) by (simp_all add: copy_pair_def)
  note g = A.frame_append[OF a(2), of e2]
  have "reach1 mem' x \<subseteq> {length mem..}" "reach2 mem' y \<subseteq> {length mem..}"
    using a(4) b(4) g(3) by (auto simp: z(2))
  moreover have "ok1 mem' x" "ok2 mem' y" "val1 mem' x = val1 mem (fst xy)" "val2 mem' y = val2 mem (snd xy)"
    using g(1,2) a(3) b(2,3) f(2) by (simp_all add: z(2))
  ultimately show ?case by (simp add: z)
next
  case (2 mem xy)
  then show ?case using A.allocated B.allocated by fastforce
next
  case (3 mem xy mem')
  have "agree (reach1 mem (fst xy)) mem mem'" "agree (reach2 mem (snd xy)) mem mem'"
    by (rule agree_subset[OF 3(2)]; simp)+
  from A.frame[OF _ this(1)] B.frame[OF _ this(2)] 3(1) show ?case by simp
qed

end

text \<open>A struct is its fields.\<close>

context deep_copy
begin

lemma struct:
  assumes "\<And>t. parts (mk t) = t"
  shows "deep_copy (\<lambda>s mem. case copy (parts s) mem of (t, mem') \<Rightarrow> (mk t, mem')) (\<lambda>mem s. ok mem (parts s))
    (\<lambda>mem s. f (val mem (parts s))) (\<lambda>mem s. reach mem (parts s))"
proof (unfold_locales, goal_cases)
  case (1 mem s y mem')
  then show ?case using copied[of mem "parts s"] assms by (auto split: prod.splits)
next
  case (2 mem s)
  then show ?case by (rule allocated)
next
  case (3 mem s mem')
  then show ?case using frame by metis
qed

end

lemmas pair_deep_copy = deep_copy_pair.pair[OF deep_copy_pair.intro]

lemma struct_deep_copy:
  assumes "deep_copy c o1 v r" and "\<And>t. parts (mk t) = t"
    and "\<And>s mem. copy s mem = (case c (parts s) mem of (t, mem') \<Rightarrow> (mk t, mem'))"
    and "\<And>mem s. ok mem s = o1 mem (parts s)" and "\<And>mem s. val mem s = f (v mem (parts s))"
    and "\<And>mem s. reach mem s = r mem (parts s)"
  shows "deep_copy copy ok val reach"
proof -
  have "copy = (\<lambda>s mem. case c (parts s) mem of (t, mem') \<Rightarrow> (mk t, mem'))"
    "ok = (\<lambda>mem s. o1 mem (parts s))" "val = (\<lambda>mem s. f (v mem (parts s)))" "reach = (\<lambda>mem s. r mem (parts s))"
    by (intro ext; simp add: assms(3-6))+
  with deep_copy.struct[OF assms(1), of parts mk f, OF assms(2)] show ?thesis by simp
qed

section \<open>Deep copies of slices and pointers\<close>

definition slice_ok :: "('b \<Rightarrow> 'e list) \<Rightarrow> ('b list \<Rightarrow> 'e \<Rightarrow> bool) \<Rightarrow> 'b list \<Rightarrow> slice option \<Rightarrow> bool" where
  "slice_ok unwrap ok mem s \<longleftrightarrow> (\<forall>sl. s = Some sl \<longrightarrow>
     sl_block sl < length mem \<and> sl_off sl + sl_len sl \<le> length (unwrap (mem ! sl_block sl)) \<and>
     (\<forall>x \<in> set (slice_elems unwrap mem sl). ok mem x))"

text \<open>A nil slice reads as an empty list.\<close>

definition slice_val :: "('b \<Rightarrow> 'e list) \<Rightarrow> ('b list \<Rightarrow> 'e \<Rightarrow> 'v) \<Rightarrow> 'b list \<Rightarrow> slice option \<Rightarrow> 'v list" where
  "slice_val unwrap val mem s = (case s of None \<Rightarrow> [] | Some sl \<Rightarrow> map (val mem) (slice_elems unwrap mem sl))"

definition slice_reach :: "('b \<Rightarrow> 'e list) \<Rightarrow> ('b list \<Rightarrow> 'e \<Rightarrow> nat set) \<Rightarrow> 'b list \<Rightarrow> slice option \<Rightarrow> nat set" where
  "slice_reach unwrap reach mem s =
     (case s of None \<Rightarrow> {} | Some sl \<Rightarrow> insert (sl_block sl) (\<Union> (reach mem ` set (slice_elems unwrap mem sl))))"

definition pointer_ok :: "('b \<Rightarrow> 'e list) \<Rightarrow> ('b list \<Rightarrow> 'e \<Rightarrow> bool) \<Rightarrow> 'b list \<Rightarrow> pointer option \<Rightarrow> bool" where
  "pointer_ok unwrap ok mem p \<longleftrightarrow> (\<forall>q. p = Some q \<longrightarrow>
     pt_block q < length mem \<and> pt_index q < length (unwrap (mem ! pt_block q)) \<and> ok mem (deref unwrap mem q))"

definition pointer_val :: "('b \<Rightarrow> 'e list) \<Rightarrow> ('b list \<Rightarrow> 'e \<Rightarrow> 'v) \<Rightarrow> 'b list \<Rightarrow> pointer option \<Rightarrow> 'v option" where
  "pointer_val unwrap val mem p = map_option (\<lambda>q. val mem (deref unwrap mem q)) p"

definition pointer_reach :: "('b \<Rightarrow> 'e list) \<Rightarrow> ('b list \<Rightarrow> 'e \<Rightarrow> nat set) \<Rightarrow> 'b list \<Rightarrow> pointer option \<Rightarrow> nat set" where
  "pointer_reach unwrap reach mem p =
     (case p of None \<Rightarrow> {} | Some q \<Rightarrow> insert (pt_block q) (reach mem (deref unwrap mem q)))"

lemma length_slice_elems [simp]:
  "slice_ok unwrap ok mem (Some sl) \<Longrightarrow> length (slice_elems unwrap mem sl) = sl_len sl"
  by (auto simp: slice_elems_def slice_ok_def)

locale elements =
  fixes wrap :: "'e list \<Rightarrow> 'b" and unwrap :: "'b \<Rightarrow> 'e list"
  assumes unwrap_wrap [simp]: "unwrap (wrap xs) = xs"
begin

lemma copy_slice_eq:
  assumes "slice_ok unwrap (\<lambda>mem x. True) mem (Some sl)"
  shows "copy_slice wrap unwrap zero (Some sl) mem =
    (Some \<lparr>sl_block = length mem, sl_off = 0, sl_len = sl_len sl\<rparr>, mem @ [wrap (slice_elems unwrap mem sl)])"
proof -
  have "slice_elems unwrap (mem @ [b]) sl = slice_elems unwrap mem sl" for b
    using assms by (simp add: slice_elems_def slice_ok_def nth_append)
  moreover have "length (slice_elems unwrap mem sl) = sl_len sl"
    using assms by (rule length_slice_elems)
  ultimately show ?thesis by (simp add: copy_slice_def make_slice_def go_copy_def)
qed

lemma plain_slice: "deep_copy (copy_slice wrap unwrap zero) (slice_ok unwrap (\<lambda>mem x. True))
  (slice_val unwrap (\<lambda>mem x. x)) (slice_reach unwrap (\<lambda>mem x. {}))"
proof (unfold_locales, goal_cases)
  case (1 mem s y mem')
  show ?case
  proof (cases s)
    case None
    with 1 show ?thesis by (simp add: copy_slice_def slice_ok_def slice_val_def slice_reach_def)
  next
    case (Some sl)
    have "length (slice_elems unwrap mem sl) = sl_len sl"
      using 1(1) by (simp add: Some)
    moreover have "y = Some \<lparr>sl_block = length mem, sl_off = 0, sl_len = sl_len sl\<rparr>"
      "mem' = mem @ [wrap (slice_elems unwrap mem sl)]"
      using 1(2) copy_slice_eq[OF 1(1)[unfolded Some]] by (auto simp: Some)
    ultimately show ?thesis
      by (simp add: Some slice_ok_def slice_val_def slice_reach_def) (simp add: slice_elems_def)
  qed
next
  case (2 mem s)
  then show ?case by (auto simp: slice_ok_def slice_reach_def split: option.splits)
next
  case (3 mem s mem')
  then show ?case
    by (cases s) (auto simp: slice_ok_def slice_val_def slice_reach_def slice_elems_def agree_def)
qed

end

locale deep_elements = elements wrap unwrap + deep_copy copy ok val reach
  for wrap :: "'e list \<Rightarrow> 'b" and unwrap and copy ok and val :: "'b list \<Rightarrow> 'e \<Rightarrow> 'v" and reach
begin

text \<open>What the loop has done after \<open>i\<close> turns; \<open>a\<close> is the block that it fills.\<close>

definition filled :: "'b list \<Rightarrow> slice \<Rightarrow> nat \<Rightarrow> 'b list \<Rightarrow> bool" where
  "filled mem sl i mem' \<longleftrightarrow> (\<exists>ext ys. mem' = mem @ wrap ys # ext \<and> length ys = sl_len sl \<and>
     (\<forall>j < i. ok mem' (ys ! j) \<and> val mem' (ys ! j) = val mem (slice_elems unwrap mem sl ! j) \<and>
        reach mem' (ys ! j) \<subseteq> {Suc (length mem)..}))"

lemma filled_step:
  assumes ok: "slice_ok unwrap ok mem (Some sl)" and i: "i < sl_len sl" and f: "filled mem sl i m"
  shows "filled mem sl (Suc i) (copy_index wrap unwrap copy sl \<lparr>sl_block = length mem, sl_off = 0, sl_len = sl_len sl\<rparr> i m)"
proof -
  let ?x = "slice_elems unwrap mem sl ! i"
  obtain ext ys where m: "m = mem @ wrap ys # ext" "length ys = sl_len sl"
    and copied_ones: "\<And>j. j < i \<Longrightarrow> ok m (ys ! j) \<and> val m (ys ! j) = val mem (slice_elems unwrap mem sl ! j) \<and>
        reach m (ys ! j) \<subseteq> {Suc (length mem)..}"
    using f by (auto simp: filled_def)
  have same: "slice_elems unwrap m sl = slice_elems unwrap mem sl"
    using ok by (simp add: slice_elems_def slice_ok_def nth_append m(1))
  have "?x \<in> set (slice_elems unwrap mem sl)" using ok i by (intro nth_mem) simp
  then have x: "ok mem ?x" using ok by (simp add: slice_ok_def)
  have xm: "ok m ?x" "val m ?x = val mem ?x"
    using frame_append(1,2)[OF x, of "wrap ys # ext"] by (simp_all add: m(1))
  obtain y e where y: "copy ?x m = (y, m @ e)" "ok (m @ e) y" "val (m @ e) y = val m ?x" "reach (m @ e) y \<subseteq> {length m..}"
    by (rule copy_run[OF xm(1)])
  let ?m' = "mem @ wrap (ys[i := y]) # ext @ e"
  have upd: "(m @ e)[length mem := wrap (ys[i := y])] = ?m'" by (simp add: m(1) list_update_append)
  have nth: "(m @ e) ! length mem = wrap ys" by (simp add: m(1) nth_append)
  have keep: "ok ?m' z \<and> val ?m' z = val (m @ e) z \<and> reach ?m' z = reach (m @ e) z"
    if "ok (m @ e) z" "length mem \<notin> reach (m @ e) z" for z
    using frame[OF that(1) agree_update[OF allocated[OF that(1)] that(2)], of "wrap (ys[i := y])"] by (simp add: upd)
  have "ok ?m' (ys[i := y] ! j) \<and> val ?m' (ys[i := y] ! j) = val mem (slice_elems unwrap mem sl ! j) \<and>
    reach ?m' (ys[i := y] ! j) \<subseteq> {Suc (length mem)..}" if "j < Suc i" for j
  proof (cases "j = i")
    case True
    have "reach (m @ e) y \<subseteq> {Suc (length mem)..}" using y(4) by (auto simp: m(1))
    moreover from this have "length mem \<notin> reach (m @ e) y" by auto
    ultimately show ?thesis using keep[OF y(2)] True i m(2) xm(2) y(3) by simp
  next
    case False
    with that have j: "j < i" by simp
    note d = copied_ones[OF j]
    note fa = frame_append[of m "ys ! j" e]
    have k: "ok (m @ e) (ys ! j)" "val (m @ e) (ys ! j) = val mem (slice_elems unwrap mem sl ! j)"
      "reach (m @ e) (ys ! j) \<subseteq> {Suc (length mem)..}" using fa d by simp_all
    then have "length mem \<notin> reach (m @ e) (ys ! j)" by auto
    with keep[OF k(1)] k False show ?thesis by simp
  qed
  moreover have "copy_index wrap unwrap copy sl \<lparr>sl_block = length mem, sl_off = 0, sl_len = sl_len sl\<rparr> i m = ?m'"
    by (simp add: copy_index_def same y(1) nth upd)
  ultimately show ?thesis unfolding filled_def using m(2) by (metis append_Cons length_list_update)
qed

lemma filled_all:
  assumes "slice_ok unwrap ok mem (Some sl)" "i \<le> sl_len sl"
  shows "filled mem sl i (fold (copy_index wrap unwrap copy sl \<lparr>sl_block = length mem, sl_off = 0, sl_len = sl_len sl\<rparr>)
    [0..<i] (mem @ [wrap (replicate (sl_len sl) zero)]))"
  using assms(2)
proof (induction i)
  case 0
  then show ?case by (auto simp: filled_def)
next
  case (Suc i)
  then show ?case using filled_step[OF assms(1)] by simp
qed

lemma slices: "deep_copy (copy_slice_each wrap unwrap zero copy) (slice_ok unwrap ok) (slice_val unwrap val) (slice_reach unwrap reach)"
proof (unfold_locales, goal_cases)
  case (1 mem s y mem')
  show ?case
  proof (cases s)
    case None
    with 1 show ?thesis by (simp add: copy_slice_each_def slice_ok_def slice_val_def slice_reach_def)
  next
    case (Some sl)
    have y: "y = Some \<lparr>sl_block = length mem, sl_off = 0, sl_len = sl_len sl\<rparr>" and f: "filled mem sl (sl_len sl) mem'"
      using 1 filled_all[of mem sl "sl_len sl" zero] by (auto simp: Some copy_slice_each_def make_slice_def)
    obtain ext ys where m: "mem' = mem @ wrap ys # ext" "length ys = sl_len sl"
      and d: "\<And>j. j < length ys \<Longrightarrow> ok mem' (ys ! j) \<and> val mem' (ys ! j) = val mem (slice_elems unwrap mem sl ! j) \<and>
        reach mem' (ys ! j) \<subseteq> {Suc (length mem)..}"
      using f by (auto simp: filled_def)
    have el: "slice_elems unwrap mem' \<lparr>sl_block = length mem, sl_off = 0, sl_len = sl_len sl\<rparr> = ys"
      by (simp add: slice_elems_def m)
    have len: "length (slice_elems unwrap mem sl) = length ys" using 1(1) by (simp add: Some m(2))
    have "map (val mem') ys = map (val mem) (slice_elems unwrap mem sl)"
      by (rule nth_equalityI) (use d len in simp_all)
    moreover have "\<forall>z \<in> set ys. ok mem' z \<and> reach mem' z \<subseteq> {length mem..}"
      using d by (fastforce simp: in_set_conv_nth)
    moreover have "sl_block sl < length mem" using 1(1) by (simp add: Some slice_ok_def)
    ultimately have "slice_ok unwrap ok mem' y \<and> slice_val unwrap val mem' y = slice_val unwrap val mem s \<and>
        slice_reach unwrap reach mem' y \<subseteq> {length mem..}"
      using m(2) by (auto simp: y Some slice_ok_def slice_val_def slice_reach_def el m(1)[symmetric]) (simp_all add: m(1))
    with m(1) show ?thesis by blast
  qed
next
  case (2 mem s)
  then show ?case using allocated by (fastforce simp: slice_ok_def slice_reach_def split: option.splits)
next
  case (3 mem s mem')
  show ?case
  proof (cases s)
    case (Some sl)
    have b: "sl_block sl < length mem' \<and> mem' ! sl_block sl = mem ! sl_block sl"
      using 3(2) by (simp add: Some slice_reach_def agree_def)
    then have el: "slice_elems unwrap mem' sl = slice_elems unwrap mem sl" by (simp add: slice_elems_def)
    have "ok mem' x \<and> val mem' x = val mem x \<and> reach mem' x = reach mem x" if "x \<in> set (slice_elems unwrap mem sl)" for x
      using 3 that by (intro frame) (auto simp: Some slice_ok_def slice_reach_def agree_def)
    with b 3(1) show ?thesis by (auto simp: Some slice_ok_def slice_val_def slice_reach_def el)
  qed (simp add: slice_ok_def slice_val_def slice_reach_def)
qed

lemma pointers: "deep_copy (copy_pointer wrap unwrap zero copy) (pointer_ok unwrap ok) (pointer_val unwrap val) (pointer_reach unwrap reach)"
proof (unfold_locales, goal_cases)
  case (1 mem p y mem')
  show ?case
  proof (cases p)
    case None
    with 1 show ?thesis by (simp add: copy_pointer_def pointer_ok_def pointer_val_def pointer_reach_def)
  next
    case (Some q)
    let ?x = "deref unwrap mem q" and ?m = "mem @ [wrap [zero]]"
    have x: "ok mem ?x" using 1(1) by (simp add: Some pointer_ok_def)
    note xm = frame_append[OF x, of "[wrap [zero]]"]
    obtain out e where o: "copy ?x ?m = (out, ?m @ e)" "ok (?m @ e) out" "val (?m @ e) out = val ?m ?x"
      "reach (?m @ e) out \<subseteq> {length ?m..}" by (rule copy_run[OF xm(1)])
    have res: "y = Some \<lparr>pt_block = length mem, pt_index = 0\<rparr>" "mem' = (?m @ e)[length mem := wrap [out]]"
      using 1(2) o(1) by (simp_all add: Some copy_pointer_def)
    have "length mem \<notin> reach (?m @ e) out" using o(4) by auto
    from frame[OF o(2) agree_update[OF allocated[OF o(2)] this], of "wrap [out]"]
    have "ok mem' out" "val mem' out = val mem ?x" "reach mem' out \<subseteq> {length mem..}"
      using o(3,4) xm(2) by (auto simp: res(2))
    moreover have "mem' = mem @ wrap [out] # e" by (simp add: res(2) list_update_append)
    moreover have "deref unwrap mem' \<lparr>pt_block = length mem, pt_index = 0\<rparr> = out"
      using calculation(4) by (simp add: deref_def)
    ultimately show ?thesis
      by (simp add: Some res(1) pointer_ok_def pointer_val_def pointer_reach_def)
  qed
next
  case (2 mem p)
  then show ?case using allocated by (fastforce simp: pointer_ok_def pointer_reach_def split: option.splits)
next
  case (3 mem p mem')
  show ?case
  proof (cases p)
    case (Some q)
    have b: "pt_block q < length mem' \<and> mem' ! pt_block q = mem ! pt_block q"
      using 3(2) by (simp add: Some pointer_reach_def agree_def)
    then have d: "deref unwrap mem' q = deref unwrap mem q" by (simp add: deref_def)
    have "ok mem' (deref unwrap mem q) \<and> val mem' (deref unwrap mem q) = val mem (deref unwrap mem q) \<and>
        reach mem' (deref unwrap mem q) = reach mem (deref unwrap mem q)"
      using 3 by (intro frame) (auto simp: Some pointer_ok_def pointer_reach_def agree_def)
    with b 3(1) show ?thesis by (simp add: Some pointer_ok_def pointer_val_def pointer_reach_def d)
  qed (simp add: pointer_ok_def pointer_val_def pointer_reach_def)
qed

end

end
