(* ===== verification/DeepCopy.thy ===== *)
theory DeepCopy
  imports Memory
begin

text \<open>
  \<^verbatim>\<open>api/v1beta1/zz_generated.deepcopy.go\<close>: the deep copies of the custom resources, on the memory of
  theory \<open>Memory\<close>. All other theories read and update resources as values; here they are structs
  with slices, and it is shown that \<^verbatim>\<open>DeepCopyObject\<close> gives an object of the same value that
  no write to the original can change, which is what justifies the values. The deep copies of
  the Kubernetes types are a parameter with the same contract.
\<close>

section \<open>Resources in memory\<close>

record TypeMeta =
  tm_Kind :: string
  tm_APIVersion :: string

record scope_ref =
  h_Projects :: "slice option"
  h_ProjectGroups :: "slice option"
  h_Environments :: "slice option"
  h_Tenants :: "slice option"
  h_Steps :: "slice option"
  h_Spaces :: "slice option"

record permissions_ref =
  h_ClusterRoles :: "slice option"
  h_Roles :: "slice option"
  h_Permissions :: "slice option"

record spec_ref =
  h_Scope :: scope_ref
  h_PermissionsOf :: permissions_ref

record status_ref =
  h_Conditions :: "slice option"

record 'm wsa_ref =
  h_TypeMeta :: TypeMeta
  h_ObjectMeta :: 'm
  h_Spec :: spec_ref
  h_Status :: status_ref

record 'l wsa_list_ref =
  h_ListTypeMeta :: TypeMeta
  h_ListMeta :: 'l
  h_Items :: "slice option"

record cpermissions_ref =
  h_cClusterRoles :: "slice option"
  h_cPermissions :: "slice option"

record cspec_ref =
  h_cScope :: scope_ref
  h_cPermissionsOf :: cpermissions_ref

record cstatus_ref =
  h_cConditions :: "slice option"

record 'm cwsa_ref =
  h_cTypeMeta :: TypeMeta
  h_cObjectMeta :: 'm
  h_cSpec :: cspec_ref
  h_cStatus :: cstatus_ref

record 'l cwsa_list_ref =
  h_cListTypeMeta :: TypeMeta
  h_cListMeta :: 'l
  h_cItems :: "slice option"

text \<open>
  The blocks of memory by the type of their elements. \<open>'m\<close>, \<open>'l\<close>, \<open>'r\<close> and \<open>'k\<close> are
  \<^verbatim>\<open>ObjectMeta\<close>, \<^verbatim>\<open>ListMeta\<close>, \<^verbatim>\<open>PolicyRule\<close> and \<^verbatim>\<open>Condition\<close> as the library represents them, \<open>'b\<close> is
  whatever their references lead to.
\<close>

datatype ('m, 'l, 'r, 'k, 'b) block =
    StringB "string list"
  | RoleRefB "RoleRef list"
  | PolicyRuleB "'r list"
  | ConditionB "'k list"
  | ScopeB "scope_ref list"
  | PermissionsB "permissions_ref list"
  | SpecB "spec_ref list"
  | StatusB "status_ref list"
  | WSAB "'m wsa_ref list"
  | WSAListB "'l wsa_list_ref list"
  | CPermissionsB "cpermissions_ref list"
  | CSpecB "cspec_ref list"
  | CStatusB "cstatus_ref list"
  | CWSAB "'m cwsa_ref list"
  | CWSAListB "'l cwsa_list_ref list"
  | LibraryB 'b

type_synonym ('m, 'l, 'r, 'k, 'b) memory = "('m, 'l, 'r, 'k, 'b) block list"

fun strings_of :: "('m, 'l, 'r, 'k, 'b) block \<Rightarrow> string list" where
  "strings_of (StringB xs) = xs"
| "strings_of _ = []"

fun role_refs_of :: "('m, 'l, 'r, 'k, 'b) block \<Rightarrow> RoleRef list" where
  "role_refs_of (RoleRefB xs) = xs"
| "role_refs_of _ = []"

fun policy_rules_of :: "('m, 'l, 'r, 'k, 'b) block \<Rightarrow> 'r list" where
  "policy_rules_of (PolicyRuleB xs) = xs"
| "policy_rules_of _ = []"

fun conditions_of :: "('m, 'l, 'r, 'k, 'b) block \<Rightarrow> 'k list" where
  "conditions_of (ConditionB xs) = xs"
| "conditions_of _ = []"

fun scopes_of :: "('m, 'l, 'r, 'k, 'b) block \<Rightarrow> scope_ref list" where
  "scopes_of (ScopeB xs) = xs"
| "scopes_of _ = []"

fun permissions_of :: "('m, 'l, 'r, 'k, 'b) block \<Rightarrow> permissions_ref list" where
  "permissions_of (PermissionsB xs) = xs"
| "permissions_of _ = []"

fun specs_of :: "('m, 'l, 'r, 'k, 'b) block \<Rightarrow> spec_ref list" where
  "specs_of (SpecB xs) = xs"
| "specs_of _ = []"

fun statuses_of :: "('m, 'l, 'r, 'k, 'b) block \<Rightarrow> status_ref list" where
  "statuses_of (StatusB xs) = xs"
| "statuses_of _ = []"

fun wsas_of :: "('m, 'l, 'r, 'k, 'b) block \<Rightarrow> 'm wsa_ref list" where
  "wsas_of (WSAB xs) = xs"
| "wsas_of _ = []"

fun wsa_lists_of :: "('m, 'l, 'r, 'k, 'b) block \<Rightarrow> 'l wsa_list_ref list" where
  "wsa_lists_of (WSAListB xs) = xs"
| "wsa_lists_of _ = []"

fun cpermissions_of :: "('m, 'l, 'r, 'k, 'b) block \<Rightarrow> cpermissions_ref list" where
  "cpermissions_of (CPermissionsB xs) = xs"
| "cpermissions_of _ = []"

fun cspecs_of :: "('m, 'l, 'r, 'k, 'b) block \<Rightarrow> cspec_ref list" where
  "cspecs_of (CSpecB xs) = xs"
| "cspecs_of _ = []"

fun cstatuses_of :: "('m, 'l, 'r, 'k, 'b) block \<Rightarrow> cstatus_ref list" where
  "cstatuses_of (CStatusB xs) = xs"
| "cstatuses_of _ = []"

fun cwsas_of :: "('m, 'l, 'r, 'k, 'b) block \<Rightarrow> 'm cwsa_ref list" where
  "cwsas_of (CWSAB xs) = xs"
| "cwsas_of _ = []"

fun cwsa_lists_of :: "('m, 'l, 'r, 'k, 'b) block \<Rightarrow> 'l cwsa_list_ref list" where
  "cwsa_lists_of (CWSAListB xs) = xs"
| "cwsa_lists_of _ = []"

interpretation strings: elements StringB strings_of
  by unfold_locales simp

interpretation role_refs: elements RoleRefB role_refs_of
  by unfold_locales simp

interpretation policy_rules: elements PolicyRuleB policy_rules_of
  by unfold_locales simp

interpretation conditions: elements ConditionB conditions_of
  by unfold_locales simp

interpretation scopes: elements ScopeB scopes_of
  by unfold_locales simp

interpretation permissions: elements PermissionsB permissions_of
  by unfold_locales simp

interpretation specs: elements SpecB specs_of
  by unfold_locales simp

interpretation statuses: elements StatusB statuses_of
  by unfold_locales simp

interpretation wsas: elements WSAB wsas_of
  by unfold_locales simp

interpretation wsa_lists: elements WSAListB wsa_lists_of
  by unfold_locales simp

interpretation cpermissions: elements CPermissionsB cpermissions_of
  by unfold_locales simp

interpretation cspecs: elements CSpecB cspecs_of
  by unfold_locales simp

interpretation cstatuses: elements CStatusB cstatuses_of
  by unfold_locales simp

interpretation cwsas: elements CWSAB cwsas_of
  by unfold_locales simp

interpretation cwsa_lists: elements CWSAListB cwsa_lists_of
  by unfold_locales simp

section \<open>The library\<close>

record ('m, 'l, 'r, 'k, 'b) apimachinery =
  ObjectMeta_DeepCopyInto :: "'m \<Rightarrow> ('m, 'l, 'r, 'k, 'b) memory \<Rightarrow> 'm \<times> ('m, 'l, 'r, 'k, 'b) memory"
  ListMeta_DeepCopyInto :: "'l \<Rightarrow> ('m, 'l, 'r, 'k, 'b) memory \<Rightarrow> 'l \<times> ('m, 'l, 'r, 'k, 'b) memory"
  PolicyRule_DeepCopyInto :: "'r \<Rightarrow> ('m, 'l, 'r, 'k, 'b) memory \<Rightarrow> 'r \<times> ('m, 'l, 'r, 'k, 'b) memory"
  Condition_DeepCopyInto :: "'k \<Rightarrow> ('m, 'l, 'r, 'k, 'b) memory \<Rightarrow> 'k \<times> ('m, 'l, 'r, 'k, 'b) memory"
  zero_ObjectMeta :: 'm
  zero_ListMeta :: 'l
  zero_PolicyRule :: 'r
  zero_Condition :: 'k

section \<open>Generated copies\<close>

abbreviation (input) copy_strings where
  "copy_strings \<equiv> copy_slice StringB strings_of []"

abbreviation (input) copy_role_refs where
  "copy_role_refs \<equiv> copy_slice RoleRefB role_refs_of \<lparr>rr_APIGroup = [], rr_Kind = [], rr_Name = []\<rparr>"

definition zero_scope :: scope_ref where
  "zero_scope = \<lparr>h_Projects = None, h_ProjectGroups = None, h_Environments = None, h_Tenants = None, h_Steps = None, h_Spaces = None\<rparr>"

definition zero_permissions :: permissions_ref where
  "zero_permissions = \<lparr>h_ClusterRoles = None, h_Roles = None, h_Permissions = None\<rparr>"

definition zero_cpermissions :: cpermissions_ref where
  "zero_cpermissions = \<lparr>h_cClusterRoles = None, h_cPermissions = None\<rparr>"

definition zero_spec :: spec_ref where
  "zero_spec = \<lparr>h_Scope = zero_scope, h_PermissionsOf = zero_permissions\<rparr>"

definition zero_cspec :: cspec_ref where
  "zero_cspec = \<lparr>h_cScope = zero_scope, h_cPermissionsOf = zero_cpermissions\<rparr>"

definition zero_type :: TypeMeta where
  "zero_type = \<lparr>tm_Kind = [], tm_APIVersion = []\<rparr>"

definition zero_wsa :: "'m \<Rightarrow> 'm wsa_ref" where
  "zero_wsa m = \<lparr>h_TypeMeta = zero_type, h_ObjectMeta = m, h_Spec = zero_spec, h_Status = \<lparr>h_Conditions = None\<rparr>\<rparr>"

definition zero_cwsa :: "'m \<Rightarrow> 'm cwsa_ref" where
  "zero_cwsa m = \<lparr>h_cTypeMeta = zero_type, h_cObjectMeta = m, h_cSpec = zero_cspec, h_cStatus = \<lparr>h_cConditions = None\<rparr>\<rparr>"

definition zero_wsa_list :: "'l \<Rightarrow> 'l wsa_list_ref" where
  "zero_wsa_list l = \<lparr>h_ListTypeMeta = zero_type, h_ListMeta = l, h_Items = None\<rparr>"

definition zero_cwsa_list :: "'l \<Rightarrow> 'l cwsa_list_ref" where
  "zero_cwsa_list l = \<lparr>h_cListTypeMeta = zero_type, h_cListMeta = l, h_cItems = None\<rparr>"

definition WorkloadServiceAccountScope_DeepCopyInto ::
  "scope_ref \<Rightarrow> ('m, 'l, 'r, 'k, 'b) memory \<Rightarrow> scope_ref \<times> ('m, 'l, 'r, 'k, 'b) memory" where
  "WorkloadServiceAccountScope_DeepCopyInto inp mem =
     (let out = inp in
      case copy_strings (h_Projects inp) mem of (x1, mem1) \<Rightarrow>
      let out = out\<lparr>h_Projects := x1\<rparr> in
      case copy_strings (h_ProjectGroups inp) mem1 of (x2, mem2) \<Rightarrow>
      let out = out\<lparr>h_ProjectGroups := x2\<rparr> in
      case copy_strings (h_Environments inp) mem2 of (x3, mem3) \<Rightarrow>
      let out = out\<lparr>h_Environments := x3\<rparr> in
      case copy_strings (h_Tenants inp) mem3 of (x4, mem4) \<Rightarrow>
      let out = out\<lparr>h_Tenants := x4\<rparr> in
      case copy_strings (h_Steps inp) mem4 of (x5, mem5) \<Rightarrow>
      let out = out\<lparr>h_Steps := x5\<rparr> in
      case copy_strings (h_Spaces inp) mem5 of (x6, mem6) \<Rightarrow>
      let out = out\<lparr>h_Spaces := x6\<rparr> in
      (out, mem6))"

definition WorkloadServiceAccountScope_DeepCopy ::
  "pointer option \<Rightarrow> ('m, 'l, 'r, 'k, 'b) memory \<Rightarrow> pointer option \<times> ('m, 'l, 'r, 'k, 'b) memory" where
  "WorkloadServiceAccountScope_DeepCopy = copy_pointer ScopeB scopes_of zero_scope WorkloadServiceAccountScope_DeepCopyInto"

definition WorkloadServiceAccountPermissions_DeepCopyInto ::
  "('m, 'l, 'r, 'k, 'b) apimachinery \<Rightarrow> permissions_ref \<Rightarrow> ('m, 'l, 'r, 'k, 'b) memory \<Rightarrow> permissions_ref \<times> ('m, 'l, 'r, 'k, 'b) memory" where
  "WorkloadServiceAccountPermissions_DeepCopyInto L inp mem =
     (let out = inp in
      case copy_role_refs (h_ClusterRoles inp) mem of (x1, mem1) \<Rightarrow>
      let out = out\<lparr>h_ClusterRoles := x1\<rparr> in
      case copy_role_refs (h_Roles inp) mem1 of (x2, mem2) \<Rightarrow>
      let out = out\<lparr>h_Roles := x2\<rparr> in
      case copy_slice_each PolicyRuleB policy_rules_of (zero_PolicyRule L) (PolicyRule_DeepCopyInto L) (h_Permissions inp) mem2 of (x3, mem3) \<Rightarrow>
      let out = out\<lparr>h_Permissions := x3\<rparr> in
      (out, mem3))"

definition WorkloadServiceAccountPermissions_DeepCopy ::
  "('m, 'l, 'r, 'k, 'b) apimachinery \<Rightarrow> pointer option \<Rightarrow> ('m, 'l, 'r, 'k, 'b) memory \<Rightarrow> pointer option \<times> ('m, 'l, 'r, 'k, 'b) memory" where
  "WorkloadServiceAccountPermissions_DeepCopy L = copy_pointer PermissionsB permissions_of zero_permissions (WorkloadServiceAccountPermissions_DeepCopyInto L)"

definition WorkloadServiceAccountSpec_DeepCopyInto ::
  "('m, 'l, 'r, 'k, 'b) apimachinery \<Rightarrow> spec_ref \<Rightarrow> ('m, 'l, 'r, 'k, 'b) memory \<Rightarrow> spec_ref \<times> ('m, 'l, 'r, 'k, 'b) memory" where
  "WorkloadServiceAccountSpec_DeepCopyInto L inp mem =
     (let out = inp in
      case WorkloadServiceAccountScope_DeepCopyInto (h_Scope inp) mem of (x1, mem1) \<Rightarrow>
      let out = out\<lparr>h_Scope := x1\<rparr> in
      case WorkloadServiceAccountPermissions_DeepCopyInto L (h_PermissionsOf inp) mem1 of (x2, mem2) \<Rightarrow>
      let out = out\<lparr>h_PermissionsOf := x2\<rparr> in
      (out, mem2))"

definition WorkloadServiceAccountSpec_DeepCopy ::
  "('m, 'l, 'r, 'k, 'b) apimachinery \<Rightarrow> pointer option \<Rightarrow> ('m, 'l, 'r, 'k, 'b) memory \<Rightarrow> pointer option \<times> ('m, 'l, 'r, 'k, 'b) memory" where
  "WorkloadServiceAccountSpec_DeepCopy L = copy_pointer SpecB specs_of zero_spec (WorkloadServiceAccountSpec_DeepCopyInto L)"

definition WorkloadServiceAccountStatus_DeepCopyInto ::
  "('m, 'l, 'r, 'k, 'b) apimachinery \<Rightarrow> status_ref \<Rightarrow> ('m, 'l, 'r, 'k, 'b) memory \<Rightarrow> status_ref \<times> ('m, 'l, 'r, 'k, 'b) memory" where
  "WorkloadServiceAccountStatus_DeepCopyInto L inp mem =
     (let out = inp in
      case copy_slice_each ConditionB conditions_of (zero_Condition L) (Condition_DeepCopyInto L) (h_Conditions inp) mem of (x1, mem1) \<Rightarrow>
      let out = out\<lparr>h_Conditions := x1\<rparr> in
      (out, mem1))"

definition WorkloadServiceAccountStatus_DeepCopy ::
  "('m, 'l, 'r, 'k, 'b) apimachinery \<Rightarrow> pointer option \<Rightarrow> ('m, 'l, 'r, 'k, 'b) memory \<Rightarrow> pointer option \<times> ('m, 'l, 'r, 'k, 'b) memory" where
  "WorkloadServiceAccountStatus_DeepCopy L = copy_pointer StatusB statuses_of \<lparr>h_Conditions = None\<rparr> (WorkloadServiceAccountStatus_DeepCopyInto L)"

definition WorkloadServiceAccount_DeepCopyInto ::
  "('m, 'l, 'r, 'k, 'b) apimachinery \<Rightarrow> 'm wsa_ref \<Rightarrow> ('m, 'l, 'r, 'k, 'b) memory \<Rightarrow> 'm wsa_ref \<times> ('m, 'l, 'r, 'k, 'b) memory" where
  "WorkloadServiceAccount_DeepCopyInto L inp mem =
     (let out = inp in
      let out = out\<lparr>h_TypeMeta := h_TypeMeta inp\<rparr> in
      case ObjectMeta_DeepCopyInto L (h_ObjectMeta inp) mem of (x1, mem1) \<Rightarrow>
      let out = out\<lparr>h_ObjectMeta := x1\<rparr> in
      case WorkloadServiceAccountSpec_DeepCopyInto L (h_Spec inp) mem1 of (x2, mem2) \<Rightarrow>
      let out = out\<lparr>h_Spec := x2\<rparr> in
      case WorkloadServiceAccountStatus_DeepCopyInto L (h_Status inp) mem2 of (x3, mem3) \<Rightarrow>
      let out = out\<lparr>h_Status := x3\<rparr> in
      (out, mem3))"

definition WorkloadServiceAccount_DeepCopy ::
  "('m, 'l, 'r, 'k, 'b) apimachinery \<Rightarrow> pointer option \<Rightarrow> ('m, 'l, 'r, 'k, 'b) memory \<Rightarrow> pointer option \<times> ('m, 'l, 'r, 'k, 'b) memory" where
  "WorkloadServiceAccount_DeepCopy L = copy_pointer WSAB wsas_of (zero_wsa (zero_ObjectMeta L)) (WorkloadServiceAccount_DeepCopyInto L)"

definition WorkloadServiceAccountList_DeepCopyInto ::
  "('m, 'l, 'r, 'k, 'b) apimachinery \<Rightarrow> 'l wsa_list_ref \<Rightarrow> ('m, 'l, 'r, 'k, 'b) memory \<Rightarrow> 'l wsa_list_ref \<times> ('m, 'l, 'r, 'k, 'b) memory" where
  "WorkloadServiceAccountList_DeepCopyInto L inp mem =
     (let out = inp in
      let out = out\<lparr>h_ListTypeMeta := h_ListTypeMeta inp\<rparr> in
      case ListMeta_DeepCopyInto L (h_ListMeta inp) mem of (x1, mem1) \<Rightarrow>
      let out = out\<lparr>h_ListMeta := x1\<rparr> in
      case copy_slice_each WSAB wsas_of (zero_wsa (zero_ObjectMeta L)) (WorkloadServiceAccount_DeepCopyInto L) (h_Items inp) mem1 of (x2, mem2) \<Rightarrow>
      let out = out\<lparr>h_Items := x2\<rparr> in
      (out, mem2))"

definition WorkloadServiceAccountList_DeepCopy ::
  "('m, 'l, 'r, 'k, 'b) apimachinery \<Rightarrow> pointer option \<Rightarrow> ('m, 'l, 'r, 'k, 'b) memory \<Rightarrow> pointer option \<times> ('m, 'l, 'r, 'k, 'b) memory" where
  "WorkloadServiceAccountList_DeepCopy L = copy_pointer WSAListB wsa_lists_of (zero_wsa_list (zero_ListMeta L)) (WorkloadServiceAccountList_DeepCopyInto L)"

definition ClusterWorkloadServiceAccountPermissions_DeepCopyInto ::
  "('m, 'l, 'r, 'k, 'b) apimachinery \<Rightarrow> cpermissions_ref \<Rightarrow> ('m, 'l, 'r, 'k, 'b) memory \<Rightarrow> cpermissions_ref \<times> ('m, 'l, 'r, 'k, 'b) memory" where
  "ClusterWorkloadServiceAccountPermissions_DeepCopyInto L inp mem =
     (let out = inp in
      case copy_role_refs (h_cClusterRoles inp) mem of (x1, mem1) \<Rightarrow>
      let out = out\<lparr>h_cClusterRoles := x1\<rparr> in
      case copy_slice_each PolicyRuleB policy_rules_of (zero_PolicyRule L) (PolicyRule_DeepCopyInto L) (h_cPermissions inp) mem1 of (x2, mem2) \<Rightarrow>
      let out = out\<lparr>h_cPermissions := x2\<rparr> in
      (out, mem2))"

definition ClusterWorkloadServiceAccountPermissions_DeepCopy ::
  "('m, 'l, 'r, 'k, 'b) apimachinery \<Rightarrow> pointer option \<Rightarrow> ('m, 'l, 'r, 'k, 'b) memory \<Rightarrow> pointer option \<times> ('m, 'l, 'r, 'k, 'b) memory" where
  "ClusterWorkloadServiceAccountPermissions_DeepCopy L = copy_pointer CPermissionsB cpermissions_of zero_cpermissions (ClusterWorkloadServiceAccountPermissions_DeepCopyInto L)"

definition ClusterWorkloadServiceAccountSpec_DeepCopyInto ::
  "('m, 'l, 'r, 'k, 'b) apimachinery \<Rightarrow> cspec_ref \<Rightarrow> ('m, 'l, 'r, 'k, 'b) memory \<Rightarrow> cspec_ref \<times> ('m, 'l, 'r, 'k, 'b) memory" where
  "ClusterWorkloadServiceAccountSpec_DeepCopyInto L inp mem =
     (let out = inp in
      case WorkloadServiceAccountScope_DeepCopyInto (h_cScope inp) mem of (x1, mem1) \<Rightarrow>
      let out = out\<lparr>h_cScope := x1\<rparr> in
      case ClusterWorkloadServiceAccountPermissions_DeepCopyInto L (h_cPermissionsOf inp) mem1 of (x2, mem2) \<Rightarrow>
      let out = out\<lparr>h_cPermissionsOf := x2\<rparr> in
      (out, mem2))"

definition ClusterWorkloadServiceAccountSpec_DeepCopy ::
  "('m, 'l, 'r, 'k, 'b) apimachinery \<Rightarrow> pointer option \<Rightarrow> ('m, 'l, 'r, 'k, 'b) memory \<Rightarrow> pointer option \<times> ('m, 'l, 'r, 'k, 'b) memory" where
  "ClusterWorkloadServiceAccountSpec_DeepCopy L = copy_pointer CSpecB cspecs_of zero_cspec (ClusterWorkloadServiceAccountSpec_DeepCopyInto L)"

definition ClusterWorkloadServiceAccountStatus_DeepCopyInto ::
  "('m, 'l, 'r, 'k, 'b) apimachinery \<Rightarrow> cstatus_ref \<Rightarrow> ('m, 'l, 'r, 'k, 'b) memory \<Rightarrow> cstatus_ref \<times> ('m, 'l, 'r, 'k, 'b) memory" where
  "ClusterWorkloadServiceAccountStatus_DeepCopyInto L inp mem =
     (let out = inp in
      case copy_slice_each ConditionB conditions_of (zero_Condition L) (Condition_DeepCopyInto L) (h_cConditions inp) mem of (x1, mem1) \<Rightarrow>
      let out = out\<lparr>h_cConditions := x1\<rparr> in
      (out, mem1))"

definition ClusterWorkloadServiceAccountStatus_DeepCopy ::
  "('m, 'l, 'r, 'k, 'b) apimachinery \<Rightarrow> pointer option \<Rightarrow> ('m, 'l, 'r, 'k, 'b) memory \<Rightarrow> pointer option \<times> ('m, 'l, 'r, 'k, 'b) memory" where
  "ClusterWorkloadServiceAccountStatus_DeepCopy L = copy_pointer CStatusB cstatuses_of \<lparr>h_cConditions = None\<rparr> (ClusterWorkloadServiceAccountStatus_DeepCopyInto L)"

definition ClusterWorkloadServiceAccount_DeepCopyInto ::
  "('m, 'l, 'r, 'k, 'b) apimachinery \<Rightarrow> 'm cwsa_ref \<Rightarrow> ('m, 'l, 'r, 'k, 'b) memory \<Rightarrow> 'm cwsa_ref \<times> ('m, 'l, 'r, 'k, 'b) memory" where
  "ClusterWorkloadServiceAccount_DeepCopyInto L inp mem =
     (let out = inp in
      let out = out\<lparr>h_cTypeMeta := h_cTypeMeta inp\<rparr> in
      case ObjectMeta_DeepCopyInto L (h_cObjectMeta inp) mem of (x1, mem1) \<Rightarrow>
      let out = out\<lparr>h_cObjectMeta := x1\<rparr> in
      case ClusterWorkloadServiceAccountSpec_DeepCopyInto L (h_cSpec inp) mem1 of (x2, mem2) \<Rightarrow>
      let out = out\<lparr>h_cSpec := x2\<rparr> in
      case ClusterWorkloadServiceAccountStatus_DeepCopyInto L (h_cStatus inp) mem2 of (x3, mem3) \<Rightarrow>
      let out = out\<lparr>h_cStatus := x3\<rparr> in
      (out, mem3))"

definition ClusterWorkloadServiceAccount_DeepCopy ::
  "('m, 'l, 'r, 'k, 'b) apimachinery \<Rightarrow> pointer option \<Rightarrow> ('m, 'l, 'r, 'k, 'b) memory \<Rightarrow> pointer option \<times> ('m, 'l, 'r, 'k, 'b) memory" where
  "ClusterWorkloadServiceAccount_DeepCopy L = copy_pointer CWSAB cwsas_of (zero_cwsa (zero_ObjectMeta L)) (ClusterWorkloadServiceAccount_DeepCopyInto L)"

definition ClusterWorkloadServiceAccountList_DeepCopyInto ::
  "('m, 'l, 'r, 'k, 'b) apimachinery \<Rightarrow> 'l cwsa_list_ref \<Rightarrow> ('m, 'l, 'r, 'k, 'b) memory \<Rightarrow> 'l cwsa_list_ref \<times> ('m, 'l, 'r, 'k, 'b) memory" where
  "ClusterWorkloadServiceAccountList_DeepCopyInto L inp mem =
     (let out = inp in
      let out = out\<lparr>h_cListTypeMeta := h_cListTypeMeta inp\<rparr> in
      case ListMeta_DeepCopyInto L (h_cListMeta inp) mem of (x1, mem1) \<Rightarrow>
      let out = out\<lparr>h_cListMeta := x1\<rparr> in
      case copy_slice_each CWSAB cwsas_of (zero_cwsa (zero_ObjectMeta L)) (ClusterWorkloadServiceAccount_DeepCopyInto L) (h_cItems inp) mem1 of (x2, mem2) \<Rightarrow>
      let out = out\<lparr>h_cItems := x2\<rparr> in
      (out, mem2))"

definition ClusterWorkloadServiceAccountList_DeepCopy ::
  "('m, 'l, 'r, 'k, 'b) apimachinery \<Rightarrow> pointer option \<Rightarrow> ('m, 'l, 'r, 'k, 'b) memory \<Rightarrow> pointer option \<times> ('m, 'l, 'r, 'k, 'b) memory" where
  "ClusterWorkloadServiceAccountList_DeepCopy L = copy_pointer CWSAListB cwsa_lists_of (zero_cwsa_list (zero_ListMeta L)) (ClusterWorkloadServiceAccountList_DeepCopyInto L)"

text \<open>A value of the interface \<^verbatim>\<open>runtime.Object\<close>: a pointer with its type, or nil.\<close>

datatype runtime_object =
    WSAPtr "pointer option"
  | WSAListPtr "pointer option"
  | CWSAPtr "pointer option"
  | CWSAListPtr "pointer option"

definition WorkloadServiceAccount_DeepCopyObject ::
  "('m, 'l, 'r, 'k, 'b) apimachinery \<Rightarrow> pointer option \<Rightarrow> ('m, 'l, 'r, 'k, 'b) memory \<Rightarrow> runtime_object option \<times> ('m, 'l, 'r, 'k, 'b) memory" where
  "WorkloadServiceAccount_DeepCopyObject L inp mem =
     (case WorkloadServiceAccount_DeepCopy L inp mem of
        (None, mem') \<Rightarrow> (None, mem')
      | (Some c, mem') \<Rightarrow> (Some (WSAPtr (Some c)), mem'))"

definition WorkloadServiceAccountList_DeepCopyObject ::
  "('m, 'l, 'r, 'k, 'b) apimachinery \<Rightarrow> pointer option \<Rightarrow> ('m, 'l, 'r, 'k, 'b) memory \<Rightarrow> runtime_object option \<times> ('m, 'l, 'r, 'k, 'b) memory" where
  "WorkloadServiceAccountList_DeepCopyObject L inp mem =
     (case WorkloadServiceAccountList_DeepCopy L inp mem of
        (None, mem') \<Rightarrow> (None, mem')
      | (Some c, mem') \<Rightarrow> (Some (WSAListPtr (Some c)), mem'))"

definition ClusterWorkloadServiceAccount_DeepCopyObject ::
  "('m, 'l, 'r, 'k, 'b) apimachinery \<Rightarrow> pointer option \<Rightarrow> ('m, 'l, 'r, 'k, 'b) memory \<Rightarrow> runtime_object option \<times> ('m, 'l, 'r, 'k, 'b) memory" where
  "ClusterWorkloadServiceAccount_DeepCopyObject L inp mem =
     (case ClusterWorkloadServiceAccount_DeepCopy L inp mem of
        (None, mem') \<Rightarrow> (None, mem')
      | (Some c, mem') \<Rightarrow> (Some (CWSAPtr (Some c)), mem'))"

definition ClusterWorkloadServiceAccountList_DeepCopyObject ::
  "('m, 'l, 'r, 'k, 'b) apimachinery \<Rightarrow> pointer option \<Rightarrow> ('m, 'l, 'r, 'k, 'b) memory \<Rightarrow> runtime_object option \<times> ('m, 'l, 'r, 'k, 'b) memory" where
  "ClusterWorkloadServiceAccountList_DeepCopyObject L inp mem =
     (case ClusterWorkloadServiceAccountList_DeepCopy L inp mem of
        (None, mem') \<Rightarrow> (None, mem')
      | (Some c, mem') \<Rightarrow> (Some (CWSAListPtr (Some c)), mem'))"

fun DeepCopyObject :: "('m, 'l, 'r, 'k, 'b) apimachinery \<Rightarrow> runtime_object \<Rightarrow> ('m, 'l, 'r, 'k, 'b) memory \<Rightarrow> runtime_object option \<times> ('m, 'l, 'r, 'k, 'b) memory" where
  "DeepCopyObject L (WSAPtr p) mem = WorkloadServiceAccount_DeepCopyObject L p mem"
| "DeepCopyObject L (WSAListPtr p) mem = WorkloadServiceAccountList_DeepCopyObject L p mem"
| "DeepCopyObject L (CWSAPtr p) mem = ClusterWorkloadServiceAccount_DeepCopyObject L p mem"
| "DeepCopyObject L (CWSAListPtr p) mem = ClusterWorkloadServiceAccountList_DeepCopyObject L p mem"

section \<open>Values\<close>

text \<open>
  How the library's structs are read: for each whether its references are valid, its value, and the
  blocks it reaches. The locale is the contract of the library's deep copies.
\<close>

record ('m, 'l, 'r, 'k, 'b, 'v) views =
  om_ok :: "('m, 'l, 'r, 'k, 'b) memory \<Rightarrow> 'm \<Rightarrow> bool"
  om_val :: "('m, 'l, 'r, 'k, 'b) memory \<Rightarrow> 'm \<Rightarrow> ObjectMeta"
  om_reach :: "('m, 'l, 'r, 'k, 'b) memory \<Rightarrow> 'm \<Rightarrow> nat set"
  lm_ok :: "('m, 'l, 'r, 'k, 'b) memory \<Rightarrow> 'l \<Rightarrow> bool"
  lm_val :: "('m, 'l, 'r, 'k, 'b) memory \<Rightarrow> 'l \<Rightarrow> 'v"
  lm_reach :: "('m, 'l, 'r, 'k, 'b) memory \<Rightarrow> 'l \<Rightarrow> nat set"
  ru_ok :: "('m, 'l, 'r, 'k, 'b) memory \<Rightarrow> 'r \<Rightarrow> bool"
  ru_val :: "('m, 'l, 'r, 'k, 'b) memory \<Rightarrow> 'r \<Rightarrow> PolicyRule"
  ru_reach :: "('m, 'l, 'r, 'k, 'b) memory \<Rightarrow> 'r \<Rightarrow> nat set"
  cn_ok :: "('m, 'l, 'r, 'k, 'b) memory \<Rightarrow> 'k \<Rightarrow> bool"
  cn_val :: "('m, 'l, 'r, 'k, 'b) memory \<Rightarrow> 'k \<Rightarrow> Condition"
  cn_reach :: "('m, 'l, 'r, 'k, 'b) memory \<Rightarrow> 'k \<Rightarrow> nat set"

text \<open>The references of each struct are those of its fields, and its value is the record of theory \<open>ApiTypes\<close>.\<close>

abbreviation strings_ok where "strings_ok \<equiv> slice_ok strings_of (\<lambda>mem x. True)"
abbreviation strings_val where "strings_val \<equiv> slice_val strings_of (\<lambda>mem x. x)"
abbreviation strings_reach where "strings_reach \<equiv> slice_reach strings_of (\<lambda>mem x. {})"
abbreviation refs_ok where "refs_ok \<equiv> slice_ok role_refs_of (\<lambda>mem x. True)"
abbreviation refs_val where "refs_val \<equiv> slice_val role_refs_of (\<lambda>mem x. x)"
abbreviation refs_reach where "refs_reach \<equiv> slice_reach role_refs_of (\<lambda>mem x. {})"

definition scope_ok :: "('m, 'l, 'r, 'k, 'b) memory \<Rightarrow> scope_ref \<Rightarrow> bool" where
  "scope_ok mem s \<longleftrightarrow> strings_ok mem (h_Projects s) \<and>
     strings_ok mem (h_ProjectGroups s) \<and>
     strings_ok mem (h_Environments s) \<and>
     strings_ok mem (h_Tenants s) \<and>
     strings_ok mem (h_Steps s) \<and>
     strings_ok mem (h_Spaces s)"

definition scope_val :: "('m, 'l, 'r, 'k, 'b) memory \<Rightarrow> scope_ref \<Rightarrow> WorkloadServiceAccountScope" where
  "scope_val mem s = 
     \<lparr>Projects = strings_val mem (h_Projects s), ProjectGroups = strings_val mem (h_ProjectGroups s), Environments = strings_val mem (h_Environments s), Tenants = strings_val mem (h_Tenants s), Steps = strings_val mem (h_Steps s), Spaces = strings_val mem (h_Spaces s)\<rparr>"

definition scope_reach :: "('m, 'l, 'r, 'k, 'b) memory \<Rightarrow> scope_ref \<Rightarrow> nat set" where
  "scope_reach mem s = strings_reach mem (h_Projects s) \<union>
     strings_reach mem (h_ProjectGroups s) \<union>
     strings_reach mem (h_Environments s) \<union>
     strings_reach mem (h_Tenants s) \<union>
     strings_reach mem (h_Steps s) \<union>
     strings_reach mem (h_Spaces s)"

definition permissions_ok :: "('m, 'l, 'r, 'k, 'b, 'v) views \<Rightarrow> ('m, 'l, 'r, 'k, 'b) memory \<Rightarrow> permissions_ref \<Rightarrow> bool" where
  "permissions_ok V mem s \<longleftrightarrow> refs_ok mem (h_ClusterRoles s) \<and>
     refs_ok mem (h_Roles s) \<and>
     slice_ok policy_rules_of (ru_ok V) mem (h_Permissions s)"

definition permissions_val :: "('m, 'l, 'r, 'k, 'b, 'v) views \<Rightarrow> ('m, 'l, 'r, 'k, 'b) memory \<Rightarrow> permissions_ref \<Rightarrow> WorkloadServiceAccountPermissions" where
  "permissions_val V mem s = 
     \<lparr>ClusterRoles = refs_val mem (h_ClusterRoles s), Roles = refs_val mem (h_Roles s),
      Permissions = slice_val policy_rules_of (ru_val V) mem (h_Permissions s)\<rparr>"

definition permissions_reach :: "('m, 'l, 'r, 'k, 'b, 'v) views \<Rightarrow> ('m, 'l, 'r, 'k, 'b) memory \<Rightarrow> permissions_ref \<Rightarrow> nat set" where
  "permissions_reach V mem s = refs_reach mem (h_ClusterRoles s) \<union>
     refs_reach mem (h_Roles s) \<union>
     slice_reach policy_rules_of (ru_reach V) mem (h_Permissions s)"

definition spec_ok :: "('m, 'l, 'r, 'k, 'b, 'v) views \<Rightarrow> ('m, 'l, 'r, 'k, 'b) memory \<Rightarrow> spec_ref \<Rightarrow> bool" where
  "spec_ok V mem s \<longleftrightarrow> scope_ok mem (h_Scope s) \<and>
     permissions_ok V mem (h_PermissionsOf s)"

definition spec_val :: "('m, 'l, 'r, 'k, 'b, 'v) views \<Rightarrow> ('m, 'l, 'r, 'k, 'b) memory \<Rightarrow> spec_ref \<Rightarrow> WorkloadServiceAccountSpec" where
  "spec_val V mem s = 
     \<lparr>wsaScope = scope_val mem (h_Scope s), wsaPermissions = permissions_val V mem (h_PermissionsOf s)\<rparr>"

definition spec_reach :: "('m, 'l, 'r, 'k, 'b, 'v) views \<Rightarrow> ('m, 'l, 'r, 'k, 'b) memory \<Rightarrow> spec_ref \<Rightarrow> nat set" where
  "spec_reach V mem s = scope_reach mem (h_Scope s) \<union>
     permissions_reach V mem (h_PermissionsOf s)"

definition status_ok :: "('m, 'l, 'r, 'k, 'b, 'v) views \<Rightarrow> ('m, 'l, 'r, 'k, 'b) memory \<Rightarrow> status_ref \<Rightarrow> bool" where
  "status_ok V mem s \<longleftrightarrow> slice_ok conditions_of (cn_ok V) mem (h_Conditions s)"

definition status_val :: "('m, 'l, 'r, 'k, 'b, 'v) views \<Rightarrow> ('m, 'l, 'r, 'k, 'b) memory \<Rightarrow> status_ref \<Rightarrow> Condition list" where
  "status_val V mem s = slice_val conditions_of (cn_val V) mem (h_Conditions s)"

definition status_reach :: "('m, 'l, 'r, 'k, 'b, 'v) views \<Rightarrow> ('m, 'l, 'r, 'k, 'b) memory \<Rightarrow> status_ref \<Rightarrow> nat set" where
  "status_reach V mem s = slice_reach conditions_of (cn_reach V) mem (h_Conditions s)"

definition wsa_ok :: "('m, 'l, 'r, 'k, 'b, 'v) views \<Rightarrow> ('m, 'l, 'r, 'k, 'b) memory \<Rightarrow> 'm wsa_ref \<Rightarrow> bool" where
  "wsa_ok V mem s \<longleftrightarrow> om_ok V mem (h_ObjectMeta s) \<and>
     spec_ok V mem (h_Spec s) \<and>
     status_ok V mem (h_Status s)"

definition wsa_val :: "('m, 'l, 'r, 'k, 'b, 'v) views \<Rightarrow> ('m, 'l, 'r, 'k, 'b) memory \<Rightarrow> 'm wsa_ref \<Rightarrow> TypeMeta \<times> WorkloadServiceAccount" where
  "wsa_val V mem s = 
     (h_TypeMeta s, \<lparr>wsaMeta = om_val V mem (h_ObjectMeta s), wsaSpec = spec_val V mem (h_Spec s),
        wsaConditions = status_val V mem (h_Status s)\<rparr>)"

definition wsa_reach :: "('m, 'l, 'r, 'k, 'b, 'v) views \<Rightarrow> ('m, 'l, 'r, 'k, 'b) memory \<Rightarrow> 'm wsa_ref \<Rightarrow> nat set" where
  "wsa_reach V mem s = om_reach V mem (h_ObjectMeta s) \<union>
     spec_reach V mem (h_Spec s) \<union>
     status_reach V mem (h_Status s)"

definition wsa_list_ok :: "('m, 'l, 'r, 'k, 'b, 'v) views \<Rightarrow> ('m, 'l, 'r, 'k, 'b) memory \<Rightarrow> 'l wsa_list_ref \<Rightarrow> bool" where
  "wsa_list_ok V mem s \<longleftrightarrow> lm_ok V mem (h_ListMeta s) \<and>
     slice_ok wsas_of (wsa_ok V) mem (h_Items s)"

definition wsa_list_val :: "('m, 'l, 'r, 'k, 'b, 'v) views \<Rightarrow> ('m, 'l, 'r, 'k, 'b) memory \<Rightarrow> 'l wsa_list_ref \<Rightarrow> TypeMeta \<times> 'v \<times> (TypeMeta \<times> WorkloadServiceAccount) list" where
  "wsa_list_val V mem s = 
     (h_ListTypeMeta s, lm_val V mem (h_ListMeta s), slice_val wsas_of (wsa_val V) mem (h_Items s))"

definition wsa_list_reach :: "('m, 'l, 'r, 'k, 'b, 'v) views \<Rightarrow> ('m, 'l, 'r, 'k, 'b) memory \<Rightarrow> 'l wsa_list_ref \<Rightarrow> nat set" where
  "wsa_list_reach V mem s = lm_reach V mem (h_ListMeta s) \<union>
     slice_reach wsas_of (wsa_reach V) mem (h_Items s)"

definition cpermissions_ok :: "('m, 'l, 'r, 'k, 'b, 'v) views \<Rightarrow> ('m, 'l, 'r, 'k, 'b) memory \<Rightarrow> cpermissions_ref \<Rightarrow> bool" where
  "cpermissions_ok V mem s \<longleftrightarrow> refs_ok mem (h_cClusterRoles s) \<and>
     slice_ok policy_rules_of (ru_ok V) mem (h_cPermissions s)"

definition cpermissions_val :: "('m, 'l, 'r, 'k, 'b, 'v) views \<Rightarrow> ('m, 'l, 'r, 'k, 'b) memory \<Rightarrow> cpermissions_ref \<Rightarrow> ClusterWorkloadServiceAccountPermissions" where
  "cpermissions_val V mem s = 
     \<lparr>cClusterRoles = refs_val mem (h_cClusterRoles s),
      cPermissions = slice_val policy_rules_of (ru_val V) mem (h_cPermissions s)\<rparr>"

definition cpermissions_reach :: "('m, 'l, 'r, 'k, 'b, 'v) views \<Rightarrow> ('m, 'l, 'r, 'k, 'b) memory \<Rightarrow> cpermissions_ref \<Rightarrow> nat set" where
  "cpermissions_reach V mem s = refs_reach mem (h_cClusterRoles s) \<union>
     slice_reach policy_rules_of (ru_reach V) mem (h_cPermissions s)"

definition cspec_ok :: "('m, 'l, 'r, 'k, 'b, 'v) views \<Rightarrow> ('m, 'l, 'r, 'k, 'b) memory \<Rightarrow> cspec_ref \<Rightarrow> bool" where
  "cspec_ok V mem s \<longleftrightarrow> scope_ok mem (h_cScope s) \<and>
     cpermissions_ok V mem (h_cPermissionsOf s)"

definition cspec_val :: "('m, 'l, 'r, 'k, 'b, 'v) views \<Rightarrow> ('m, 'l, 'r, 'k, 'b) memory \<Rightarrow> cspec_ref \<Rightarrow> ClusterWorkloadServiceAccountSpec" where
  "cspec_val V mem s = 
     \<lparr>cwsaScope = scope_val mem (h_cScope s), cwsaPermissions = cpermissions_val V mem (h_cPermissionsOf s)\<rparr>"

definition cspec_reach :: "('m, 'l, 'r, 'k, 'b, 'v) views \<Rightarrow> ('m, 'l, 'r, 'k, 'b) memory \<Rightarrow> cspec_ref \<Rightarrow> nat set" where
  "cspec_reach V mem s = scope_reach mem (h_cScope s) \<union>
     cpermissions_reach V mem (h_cPermissionsOf s)"

definition cstatus_ok :: "('m, 'l, 'r, 'k, 'b, 'v) views \<Rightarrow> ('m, 'l, 'r, 'k, 'b) memory \<Rightarrow> cstatus_ref \<Rightarrow> bool" where
  "cstatus_ok V mem s \<longleftrightarrow> slice_ok conditions_of (cn_ok V) mem (h_cConditions s)"

definition cstatus_val :: "('m, 'l, 'r, 'k, 'b, 'v) views \<Rightarrow> ('m, 'l, 'r, 'k, 'b) memory \<Rightarrow> cstatus_ref \<Rightarrow> Condition list" where
  "cstatus_val V mem s = slice_val conditions_of (cn_val V) mem (h_cConditions s)"

definition cstatus_reach :: "('m, 'l, 'r, 'k, 'b, 'v) views \<Rightarrow> ('m, 'l, 'r, 'k, 'b) memory \<Rightarrow> cstatus_ref \<Rightarrow> nat set" where
  "cstatus_reach V mem s = slice_reach conditions_of (cn_reach V) mem (h_cConditions s)"

definition cwsa_ok :: "('m, 'l, 'r, 'k, 'b, 'v) views \<Rightarrow> ('m, 'l, 'r, 'k, 'b) memory \<Rightarrow> 'm cwsa_ref \<Rightarrow> bool" where
  "cwsa_ok V mem s \<longleftrightarrow> om_ok V mem (h_cObjectMeta s) \<and>
     cspec_ok V mem (h_cSpec s) \<and>
     cstatus_ok V mem (h_cStatus s)"

definition cwsa_val :: "('m, 'l, 'r, 'k, 'b, 'v) views \<Rightarrow> ('m, 'l, 'r, 'k, 'b) memory \<Rightarrow> 'm cwsa_ref \<Rightarrow> TypeMeta \<times> ClusterWorkloadServiceAccount" where
  "cwsa_val V mem s = 
     (h_cTypeMeta s, \<lparr>cwsaMeta = om_val V mem (h_cObjectMeta s), cwsaSpec = cspec_val V mem (h_cSpec s),
        cwsaConditions = cstatus_val V mem (h_cStatus s)\<rparr>)"

definition cwsa_reach :: "('m, 'l, 'r, 'k, 'b, 'v) views \<Rightarrow> ('m, 'l, 'r, 'k, 'b) memory \<Rightarrow> 'm cwsa_ref \<Rightarrow> nat set" where
  "cwsa_reach V mem s = om_reach V mem (h_cObjectMeta s) \<union>
     cspec_reach V mem (h_cSpec s) \<union>
     cstatus_reach V mem (h_cStatus s)"

definition cwsa_list_ok :: "('m, 'l, 'r, 'k, 'b, 'v) views \<Rightarrow> ('m, 'l, 'r, 'k, 'b) memory \<Rightarrow> 'l cwsa_list_ref \<Rightarrow> bool" where
  "cwsa_list_ok V mem s \<longleftrightarrow> lm_ok V mem (h_cListMeta s) \<and>
     slice_ok cwsas_of (cwsa_ok V) mem (h_cItems s)"

definition cwsa_list_val :: "('m, 'l, 'r, 'k, 'b, 'v) views \<Rightarrow> ('m, 'l, 'r, 'k, 'b) memory \<Rightarrow> 'l cwsa_list_ref \<Rightarrow> TypeMeta \<times> 'v \<times> (TypeMeta \<times> ClusterWorkloadServiceAccount) list" where
  "cwsa_list_val V mem s = 
     (h_cListTypeMeta s, lm_val V mem (h_cListMeta s), slice_val cwsas_of (cwsa_val V) mem (h_cItems s))"

definition cwsa_list_reach :: "('m, 'l, 'r, 'k, 'b, 'v) views \<Rightarrow> ('m, 'l, 'r, 'k, 'b) memory \<Rightarrow> 'l cwsa_list_ref \<Rightarrow> nat set" where
  "cwsa_list_reach V mem s = lm_reach V mem (h_cListMeta s) \<union>
     slice_reach cwsas_of (cwsa_reach V) mem (h_cItems s)"

datatype 'v object_value =
    WSAValue "TypeMeta \<times> WorkloadServiceAccount"
  | WSAListValue "TypeMeta \<times> 'v \<times> (TypeMeta \<times> WorkloadServiceAccount) list"
  | CWSAValue "TypeMeta \<times> ClusterWorkloadServiceAccount"
  | CWSAListValue "TypeMeta \<times> 'v \<times> (TypeMeta \<times> ClusterWorkloadServiceAccount) list"

fun object_ok :: "('m, 'l, 'r, 'k, 'b, 'v) views \<Rightarrow> ('m, 'l, 'r, 'k, 'b) memory \<Rightarrow> runtime_object \<Rightarrow> bool" where
  "object_ok V mem (WSAPtr p) = pointer_ok wsas_of (wsa_ok V) mem p"
| "object_ok V mem (WSAListPtr p) = pointer_ok wsa_lists_of (wsa_list_ok V) mem p"
| "object_ok V mem (CWSAPtr p) = pointer_ok cwsas_of (cwsa_ok V) mem p"
| "object_ok V mem (CWSAListPtr p) = pointer_ok cwsa_lists_of (cwsa_list_ok V) mem p"

text \<open>No value for a nil pointer.\<close>

fun object_val :: "('m, 'l, 'r, 'k, 'b, 'v) views \<Rightarrow> ('m, 'l, 'r, 'k, 'b) memory \<Rightarrow> runtime_object \<Rightarrow> 'v object_value option" where
  "object_val V mem (WSAPtr p) = map_option WSAValue (pointer_val wsas_of (wsa_val V) mem p)"
| "object_val V mem (WSAListPtr p) = map_option WSAListValue (pointer_val wsa_lists_of (wsa_list_val V) mem p)"
| "object_val V mem (CWSAPtr p) = map_option CWSAValue (pointer_val cwsas_of (cwsa_val V) mem p)"
| "object_val V mem (CWSAListPtr p) = map_option CWSAListValue (pointer_val cwsa_lists_of (cwsa_list_val V) mem p)"

fun object_reach :: "('m, 'l, 'r, 'k, 'b, 'v) views \<Rightarrow> ('m, 'l, 'r, 'k, 'b) memory \<Rightarrow> runtime_object \<Rightarrow> nat set" where
  "object_reach V mem (WSAPtr p) = pointer_reach wsas_of (wsa_reach V) mem p"
| "object_reach V mem (WSAListPtr p) = pointer_reach wsa_lists_of (wsa_list_reach V) mem p"
| "object_reach V mem (CWSAPtr p) = pointer_reach cwsas_of (cwsa_reach V) mem p"
| "object_reach V mem (CWSAListPtr p) = pointer_reach cwsa_lists_of (cwsa_list_reach V) mem p"

section \<open>Every generated copy is a deep copy\<close>

locale apimachinery_copies =
  fixes L :: "('m, 'l, 'r, 'k, 'b) apimachinery" and V :: "('m, 'l, 'r, 'k, 'b, 'v) views"
  assumes ObjectMeta_copy: "deep_copy (ObjectMeta_DeepCopyInto L) (om_ok V) (om_val V) (om_reach V)"
    and ListMeta_copy: "deep_copy (ListMeta_DeepCopyInto L) (lm_ok V) (lm_val V) (lm_reach V)"
    and PolicyRule_copy: "deep_copy (PolicyRule_DeepCopyInto L) (ru_ok V) (ru_val V) (ru_reach V)"
    and Condition_copy: "deep_copy (Condition_DeepCopyInto L) (cn_ok V) (cn_val V) (cn_reach V)"

lemmas string_slices = strings.plain_slice[where zero = "[]"]
lemmas role_ref_slices = role_refs.plain_slice[where zero = "\<lparr>rr_APIGroup = [], rr_Kind = [], rr_Name = []\<rparr>"]

lemma scope_copy: "deep_copy (WorkloadServiceAccountScope_DeepCopyInto) (scope_ok) (scope_val) (scope_reach)"
  by (rule struct_deep_copy[where parts = "\<lambda>s. (h_Projects s, h_ProjectGroups s, h_Environments s, h_Tenants s, h_Steps s, h_Spaces s)" and mk = "\<lambda>(x0, x1, x2, x3, x4, x5). \<lparr>h_Projects = x0, h_ProjectGroups = x1, h_Environments = x2, h_Tenants = x3, h_Steps = x4, h_Spaces = x5\<rparr>" and f = "\<lambda>(x0, x1, x2, x3, x4, x5). \<lparr>Projects = x0, ProjectGroups = x1, Environments = x2, Tenants = x3, Steps = x4, Spaces = x5\<rparr>",
      OF pair_deep_copy[OF string_slices pair_deep_copy[OF string_slices pair_deep_copy[OF string_slices pair_deep_copy[OF string_slices pair_deep_copy[OF string_slices string_slices]]]]]])
    (auto simp: WorkloadServiceAccountScope_DeepCopyInto_def scope_ok_def scope_val_def scope_reach_def copy_pair_def Let_def Un_assoc split: prod.splits intro!: scope_ref.equality)

context apimachinery_copies
begin

lemmas rule_slices = deep_elements.slices[OF deep_elements.intro[OF policy_rules.elements_axioms PolicyRule_copy], where zero = "zero_PolicyRule L"]
lemmas condition_slices = deep_elements.slices[OF deep_elements.intro[OF conditions.elements_axioms Condition_copy], where zero = "zero_Condition L"]

lemma permissions_copy: "deep_copy (WorkloadServiceAccountPermissions_DeepCopyInto L) (permissions_ok V) (permissions_val V) (permissions_reach V)"
  by (rule struct_deep_copy[where parts = "\<lambda>s. (h_ClusterRoles s, h_Roles s, h_Permissions s)" and mk = "\<lambda>(x0, x1, x2). \<lparr>h_ClusterRoles = x0, h_Roles = x1, h_Permissions = x2\<rparr>" and f = "\<lambda>(x0, x1, x2). \<lparr>ClusterRoles = x0, Roles = x1, Permissions = x2\<rparr>",
      OF pair_deep_copy[OF role_ref_slices pair_deep_copy[OF role_ref_slices rule_slices]]])
    (auto simp: WorkloadServiceAccountPermissions_DeepCopyInto_def permissions_ok_def permissions_val_def permissions_reach_def copy_pair_def Let_def Un_assoc split: prod.splits intro!: permissions_ref.equality)

lemma spec_copy: "deep_copy (WorkloadServiceAccountSpec_DeepCopyInto L) (spec_ok V) (spec_val V) (spec_reach V)"
  by (rule struct_deep_copy[where parts = "\<lambda>s. (h_Scope s, h_PermissionsOf s)" and mk = "\<lambda>(x0, x1). \<lparr>h_Scope = x0, h_PermissionsOf = x1\<rparr>" and f = "\<lambda>(x0, x1). \<lparr>wsaScope = x0, wsaPermissions = x1\<rparr>",
      OF pair_deep_copy[OF scope_copy permissions_copy]])
    (auto simp: WorkloadServiceAccountSpec_DeepCopyInto_def spec_ok_def spec_val_def spec_reach_def copy_pair_def Let_def Un_assoc split: prod.splits intro!: spec_ref.equality)

lemma status_copy: "deep_copy (WorkloadServiceAccountStatus_DeepCopyInto L) (status_ok V) (status_val V) (status_reach V)"
  by (rule struct_deep_copy[where parts = "\<lambda>s. h_Conditions s" and mk = "\<lambda>x0. \<lparr>h_Conditions = x0\<rparr>" and f = "\<lambda>x0. x0",
      OF condition_slices])
    (auto simp: WorkloadServiceAccountStatus_DeepCopyInto_def status_ok_def status_val_def status_reach_def copy_pair_def Let_def Un_assoc split: prod.splits intro!: status_ref.equality)

lemma wsa_copy: "deep_copy (WorkloadServiceAccount_DeepCopyInto L) (wsa_ok V) (wsa_val V) (wsa_reach V)"
  by (rule struct_deep_copy[where parts = "\<lambda>s. (h_TypeMeta s, h_ObjectMeta s, h_Spec s, h_Status s)" and mk = "\<lambda>(x0, x1, x2, x3). \<lparr>h_TypeMeta = x0, h_ObjectMeta = x1, h_Spec = x2, h_Status = x3\<rparr>" and f = "\<lambda>(x0, x1, x2, x3). (x0, \<lparr>wsaMeta = x1, wsaSpec = x2, wsaConditions = x3\<rparr>)",
      OF pair_deep_copy[OF plain_deep_copy[where f = "\<lambda>x. x"] pair_deep_copy[OF ObjectMeta_copy pair_deep_copy[OF spec_copy status_copy]]]])
    (auto simp: WorkloadServiceAccount_DeepCopyInto_def wsa_ok_def wsa_val_def wsa_reach_def copy_pair_def Let_def Un_assoc split: prod.splits intro!: wsa_ref.equality)

lemma wsa_list_copy: "deep_copy (WorkloadServiceAccountList_DeepCopyInto L) (wsa_list_ok V) (wsa_list_val V) (wsa_list_reach V)"
  by (rule struct_deep_copy[where parts = "\<lambda>s. (h_ListTypeMeta s, h_ListMeta s, h_Items s)" and mk = "\<lambda>(x0, x1, x2). \<lparr>h_ListTypeMeta = x0, h_ListMeta = x1, h_Items = x2\<rparr>" and f = "\<lambda>(x0, x1, x2). (x0, x1, x2)",
      OF pair_deep_copy[OF plain_deep_copy[where f = "\<lambda>x. x"] pair_deep_copy[OF ListMeta_copy deep_elements.slices[OF deep_elements.intro[OF wsas.elements_axioms wsa_copy], where zero = "zero_wsa (zero_ObjectMeta L)"]]]])
    (auto simp: WorkloadServiceAccountList_DeepCopyInto_def wsa_list_ok_def wsa_list_val_def wsa_list_reach_def copy_pair_def Let_def Un_assoc split: prod.splits intro!: wsa_list_ref.equality)

lemma cpermissions_copy: "deep_copy (ClusterWorkloadServiceAccountPermissions_DeepCopyInto L) (cpermissions_ok V) (cpermissions_val V) (cpermissions_reach V)"
  by (rule struct_deep_copy[where parts = "\<lambda>s. (h_cClusterRoles s, h_cPermissions s)" and mk = "\<lambda>(x0, x1). \<lparr>h_cClusterRoles = x0, h_cPermissions = x1\<rparr>" and f = "\<lambda>(x0, x1). \<lparr>cClusterRoles = x0, cPermissions = x1\<rparr>",
      OF pair_deep_copy[OF role_ref_slices rule_slices]])
    (auto simp: ClusterWorkloadServiceAccountPermissions_DeepCopyInto_def cpermissions_ok_def cpermissions_val_def cpermissions_reach_def copy_pair_def Let_def Un_assoc split: prod.splits intro!: cpermissions_ref.equality)

lemma cspec_copy: "deep_copy (ClusterWorkloadServiceAccountSpec_DeepCopyInto L) (cspec_ok V) (cspec_val V) (cspec_reach V)"
  by (rule struct_deep_copy[where parts = "\<lambda>s. (h_cScope s, h_cPermissionsOf s)" and mk = "\<lambda>(x0, x1). \<lparr>h_cScope = x0, h_cPermissionsOf = x1\<rparr>" and f = "\<lambda>(x0, x1). \<lparr>cwsaScope = x0, cwsaPermissions = x1\<rparr>",
      OF pair_deep_copy[OF scope_copy cpermissions_copy]])
    (auto simp: ClusterWorkloadServiceAccountSpec_DeepCopyInto_def cspec_ok_def cspec_val_def cspec_reach_def copy_pair_def Let_def Un_assoc split: prod.splits intro!: cspec_ref.equality)

lemma cstatus_copy: "deep_copy (ClusterWorkloadServiceAccountStatus_DeepCopyInto L) (cstatus_ok V) (cstatus_val V) (cstatus_reach V)"
  by (rule struct_deep_copy[where parts = "\<lambda>s. h_cConditions s" and mk = "\<lambda>x0. \<lparr>h_cConditions = x0\<rparr>" and f = "\<lambda>x0. x0",
      OF condition_slices])
    (auto simp: ClusterWorkloadServiceAccountStatus_DeepCopyInto_def cstatus_ok_def cstatus_val_def cstatus_reach_def copy_pair_def Let_def Un_assoc split: prod.splits intro!: cstatus_ref.equality)

lemma cwsa_copy: "deep_copy (ClusterWorkloadServiceAccount_DeepCopyInto L) (cwsa_ok V) (cwsa_val V) (cwsa_reach V)"
  by (rule struct_deep_copy[where parts = "\<lambda>s. (h_cTypeMeta s, h_cObjectMeta s, h_cSpec s, h_cStatus s)" and mk = "\<lambda>(x0, x1, x2, x3). \<lparr>h_cTypeMeta = x0, h_cObjectMeta = x1, h_cSpec = x2, h_cStatus = x3\<rparr>" and f = "\<lambda>(x0, x1, x2, x3). (x0, \<lparr>cwsaMeta = x1, cwsaSpec = x2, cwsaConditions = x3\<rparr>)",
      OF pair_deep_copy[OF plain_deep_copy[where f = "\<lambda>x. x"] pair_deep_copy[OF ObjectMeta_copy pair_deep_copy[OF cspec_copy cstatus_copy]]]])
    (auto simp: ClusterWorkloadServiceAccount_DeepCopyInto_def cwsa_ok_def cwsa_val_def cwsa_reach_def copy_pair_def Let_def Un_assoc split: prod.splits intro!: cwsa_ref.equality)

lemma cwsa_list_copy: "deep_copy (ClusterWorkloadServiceAccountList_DeepCopyInto L) (cwsa_list_ok V) (cwsa_list_val V) (cwsa_list_reach V)"
  by (rule struct_deep_copy[where parts = "\<lambda>s. (h_cListTypeMeta s, h_cListMeta s, h_cItems s)" and mk = "\<lambda>(x0, x1, x2). \<lparr>h_cListTypeMeta = x0, h_cListMeta = x1, h_cItems = x2\<rparr>" and f = "\<lambda>(x0, x1, x2). (x0, x1, x2)",
      OF pair_deep_copy[OF plain_deep_copy[where f = "\<lambda>x. x"] pair_deep_copy[OF ListMeta_copy deep_elements.slices[OF deep_elements.intro[OF cwsas.elements_axioms cwsa_copy], where zero = "zero_cwsa (zero_ObjectMeta L)"]]]])
    (auto simp: ClusterWorkloadServiceAccountList_DeepCopyInto_def cwsa_list_ok_def cwsa_list_val_def cwsa_list_reach_def copy_pair_def Let_def Un_assoc split: prod.splits intro!: cwsa_list_ref.equality)

lemma wsa_pointer: "deep_copy (WorkloadServiceAccount_DeepCopy L) (pointer_ok wsas_of (wsa_ok V)) (pointer_val wsas_of (wsa_val V))
    (pointer_reach wsas_of (wsa_reach V))"
  unfolding WorkloadServiceAccount_DeepCopy_def
  by (rule deep_elements.pointers[OF deep_elements.intro[OF wsas.elements_axioms wsa_copy]])

lemma wsa_list_pointer: "deep_copy (WorkloadServiceAccountList_DeepCopy L) (pointer_ok wsa_lists_of (wsa_list_ok V)) (pointer_val wsa_lists_of (wsa_list_val V))
    (pointer_reach wsa_lists_of (wsa_list_reach V))"
  unfolding WorkloadServiceAccountList_DeepCopy_def
  by (rule deep_elements.pointers[OF deep_elements.intro[OF wsa_lists.elements_axioms wsa_list_copy]])

lemma cwsa_pointer: "deep_copy (ClusterWorkloadServiceAccount_DeepCopy L) (pointer_ok cwsas_of (cwsa_ok V)) (pointer_val cwsas_of (cwsa_val V))
    (pointer_reach cwsas_of (cwsa_reach V))"
  unfolding ClusterWorkloadServiceAccount_DeepCopy_def
  by (rule deep_elements.pointers[OF deep_elements.intro[OF cwsas.elements_axioms cwsa_copy]])

lemma cwsa_list_pointer: "deep_copy (ClusterWorkloadServiceAccountList_DeepCopy L) (pointer_ok cwsa_lists_of (cwsa_list_ok V)) (pointer_val cwsa_lists_of (cwsa_list_val V))
    (pointer_reach cwsa_lists_of (cwsa_list_reach V))"
  unfolding ClusterWorkloadServiceAccountList_DeepCopy_def
  by (rule deep_elements.pointers[OF deep_elements.intro[OF cwsa_lists.elements_axioms cwsa_list_copy]])

end

context apimachinery_copies
begin

lemmas object_pointers = wsa_pointer wsa_list_pointer cwsa_pointer cwsa_list_pointer

lemma object_copied:
  assumes "object_ok V mem x" and "DeepCopyObject L x mem = (y, mem')"
  shows "(\<exists>ext. mem' = mem @ ext) \<and>
    (case y of None \<Rightarrow> object_val V mem x = None
     | Some z \<Rightarrow> object_ok V mem' z \<and> object_val V mem' z = object_val V mem x \<and> object_val V mem x \<noteq> None \<and>
         object_reach V mem' z \<subseteq> {length mem..})"
proof (cases x)
  case (WSAPtr p)
  with assms deep_copy.copied[OF wsa_pointer, of mem p] show ?thesis
    by (cases p) (auto simp: WorkloadServiceAccount_DeepCopyObject_def pointer_val_def split: prod.splits option.splits)
next
  case (WSAListPtr p)
  with assms deep_copy.copied[OF wsa_list_pointer, of mem p] show ?thesis
    by (cases p) (auto simp: WorkloadServiceAccountList_DeepCopyObject_def pointer_val_def split: prod.splits option.splits)
next
  case (CWSAPtr p)
  with assms deep_copy.copied[OF cwsa_pointer, of mem p] show ?thesis
    by (cases p) (auto simp: ClusterWorkloadServiceAccount_DeepCopyObject_def pointer_val_def split: prod.splits option.splits)
next
  case (CWSAListPtr p)
  with assms deep_copy.copied[OF cwsa_list_pointer, of mem p] show ?thesis
    by (cases p) (auto simp: ClusterWorkloadServiceAccountList_DeepCopyObject_def pointer_val_def split: prod.splits option.splits)
qed

lemma object_allocated: "object_ok V mem x \<Longrightarrow> object_reach V mem x \<subseteq> {..<length mem}"
  using object_pointers[THEN deep_copy.allocated, of mem] by (cases x) simp_all

lemma object_frame:
  "object_ok V mem x \<Longrightarrow> agree (object_reach V mem x) mem mem' \<Longrightarrow>
     object_ok V mem' x \<and> object_val V mem' x = object_val V mem x \<and> object_reach V mem' x = object_reach V mem x"
  using object_pointers[THEN deep_copy.frame, of mem _ mem'] by (cases x) simp_all

end

section \<open>Guarantees of the copies\<close>

text \<open>
  C22. A deep copy is faithful: \<^verbatim>\<open>DeepCopyObject\<close> of any of the four registered types gives nil for a
  nil pointer only, otherwise an object of the same type and the same value, down to the last
  element of the last slice; it writes to no memory that existed before.
\<close>

theorem deep_copy_faithful:
  assumes "apimachinery_copies L V" and "object_ok V mem x" and "DeepCopyObject L x mem = (y, mem')"
  shows "take (length mem) mem' = mem \<and>
    (case y of None \<Rightarrow> object_val V mem x = None
     | Some z \<Rightarrow> object_ok V mem' z \<and> object_val V mem' z = object_val V mem x \<and> object_val V mem x \<noteq> None)"
  using apimachinery_copies.object_copied[OF assms] by (auto split: option.splits)

text \<open>
  C21. A deep copy is independent: whatever is written to memory that existed before the copy was made,
  everything that the original reaches included, and whatever is allocated meanwhile, the copy keeps
  the value of the original; and whatever is written to memory that was allocated for the copy or later,
  the original keeps its value. So the copy that a reconciler takes before it adds a finalizer is the
  object as it was read.
\<close>

theorem deep_copy_independent:
  assumes "apimachinery_copies L V" and "object_ok V mem x" and "DeepCopyObject L x mem = (Some z, mem')"
    and "length overwritten = length mem"
  shows "object_val V (overwritten @ drop (length mem) mem' @ newer) z = object_val V mem x \<and>
    object_val V (mem @ new) x = object_val V mem x \<and>
    object_reach V mem' z \<inter> object_reach V mem' x = {}"
proof -
  note copied = apimachinery_copies.object_copied[OF assms(1-3)]
  note frame = apimachinery_copies.object_frame[OF assms(1)]
  note allocated = apimachinery_copies.object_allocated[OF assms(1)]
  obtain ext where m: "mem' = mem @ ext" using copied by blast
  have z: "object_ok V mem' z" "object_val V mem' z = object_val V mem x" "object_reach V mem' z \<subseteq> {length mem..}"
    using copied by simp_all
  have "agree (object_reach V mem' z) mem' (overwritten @ ext @ newer)"
  proof
    fix a assume a: "a \<in> object_reach V mem' z"
    then have "a < length mem'" "length mem \<le> a" using allocated[OF z(1)] z(3) by auto
    then have "a - length mem < length ext" by (auto simp: m)
    with \<open>length mem \<le> a\<close> show "a < length (overwritten @ ext @ newer) \<and> (overwritten @ ext @ newer) ! a = mem' ! a"
      by (simp add: m assms(4) nth_append)
  qed
  from frame[OF z(1) this] z(2) have "object_val V (overwritten @ drop (length mem) mem' @ newer) z = object_val V mem x"
    by (simp add: m)
  moreover have "object_val V (mem @ new) x = object_val V mem x" "object_reach V mem' x = object_reach V mem x"
    using frame[OF assms(2) agree_append[OF allocated[OF assms(2)]]] by (simp_all add: m)
  ultimately show ?thesis using allocated[OF assms(2)] z(3) by fastforce
qed

section \<open>A library with these copies\<close>

text \<open>
  A policy rule is a struct of five slices, and object metadata have a slice of finalizers next to
  data without references; conditions and list metadata have none.
\<close>

record rule_ref =
  h_Verbs :: "slice option"
  h_APIGroups :: "slice option"
  h_Resources :: "slice option"
  h_ResourceNames :: "slice option"
  h_NonResourceURLs :: "slice option"

record meta_ref =
  h_Plain :: ObjectMeta
  h_Finalizers :: "slice option"

type_synonym k8s_memory = "(meta_ref, string, rule_ref, Condition, unit) memory"

definition rule_copy :: "rule_ref \<Rightarrow> k8s_memory \<Rightarrow> rule_ref \<times> k8s_memory" where
  "rule_copy inp mem =
     (case copy_strings (h_Verbs inp) mem of (x1, mem1) \<Rightarrow>
      case copy_strings (h_APIGroups inp) mem1 of (x2, mem2) \<Rightarrow>
      case copy_strings (h_Resources inp) mem2 of (x3, mem3) \<Rightarrow>
      case copy_strings (h_ResourceNames inp) mem3 of (x4, mem4) \<Rightarrow>
      case copy_strings (h_NonResourceURLs inp) mem4 of (x5, mem5) \<Rightarrow>
      (\<lparr>h_Verbs = x1, h_APIGroups = x2, h_Resources = x3, h_ResourceNames = x4, h_NonResourceURLs = x5\<rparr>, mem5))"

definition rule_ok :: "k8s_memory \<Rightarrow> rule_ref \<Rightarrow> bool" where
  "rule_ok mem s \<longleftrightarrow> strings_ok mem (h_Verbs s) \<and> strings_ok mem (h_APIGroups s) \<and> strings_ok mem (h_Resources s) \<and>
     strings_ok mem (h_ResourceNames s) \<and> strings_ok mem (h_NonResourceURLs s)"

definition rule_val :: "k8s_memory \<Rightarrow> rule_ref \<Rightarrow> PolicyRule" where
  "rule_val mem s = \<lparr>pr_Verbs = strings_val mem (h_Verbs s), pr_APIGroups = strings_val mem (h_APIGroups s),
     pr_Resources = strings_val mem (h_Resources s), pr_ResourceNames = strings_val mem (h_ResourceNames s),
     pr_NonResourceURLs = strings_val mem (h_NonResourceURLs s)\<rparr>"

definition rule_reach :: "k8s_memory \<Rightarrow> rule_ref \<Rightarrow> nat set" where
  "rule_reach mem s = strings_reach mem (h_Verbs s) \<union> strings_reach mem (h_APIGroups s) \<union> strings_reach mem (h_Resources s) \<union>
     strings_reach mem (h_ResourceNames s) \<union> strings_reach mem (h_NonResourceURLs s)"

definition meta_copy :: "meta_ref \<Rightarrow> k8s_memory \<Rightarrow> meta_ref \<times> k8s_memory" where
  "meta_copy inp mem =
     (case copy_strings (h_Finalizers inp) mem of (x1, mem1) \<Rightarrow> (\<lparr>h_Plain = h_Plain inp, h_Finalizers = x1\<rparr>, mem1))"

definition k8s_library :: "(meta_ref, string, rule_ref, Condition, unit) apimachinery" where
  "k8s_library = \<lparr>ObjectMeta_DeepCopyInto = meta_copy, ListMeta_DeepCopyInto = Pair,
     PolicyRule_DeepCopyInto = rule_copy, Condition_DeepCopyInto = Pair,
     zero_ObjectMeta = \<lparr>h_Plain = ObjectMeta_zero, h_Finalizers = None\<rparr>, zero_ListMeta = [],
     zero_PolicyRule = \<lparr>h_Verbs = None, h_APIGroups = None, h_Resources = None, h_ResourceNames = None, h_NonResourceURLs = None\<rparr>,
     zero_Condition = \<lparr>co_Type = [], co_Status = ConditionUnknown, co_Reason = [], co_Message = [], co_ObservedGeneration = 0\<rparr>\<rparr>"

definition k8s_views :: "(meta_ref, string, rule_ref, Condition, unit, string) views" where
  "k8s_views = \<lparr>om_ok = \<lambda>mem m. strings_ok mem (h_Finalizers m),
     om_val = \<lambda>mem m. (h_Plain m)\<lparr>om_Finalizers := strings_val mem (h_Finalizers m)\<rparr>,
     om_reach = \<lambda>mem m. strings_reach mem (h_Finalizers m),
     lm_ok = \<lambda>mem l. True, lm_val = \<lambda>mem l. l, lm_reach = \<lambda>mem l. {},
     ru_ok = rule_ok, ru_val = rule_val, ru_reach = rule_reach,
     cn_ok = \<lambda>mem k. True, cn_val = \<lambda>mem k. k, cn_reach = \<lambda>mem k. {}\<rparr>"

lemma rule_deep_copy: "deep_copy rule_copy rule_ok rule_val rule_reach"
  by (rule struct_deep_copy[where parts = "\<lambda>s. (h_Verbs s, h_APIGroups s, h_Resources s, h_ResourceNames s, h_NonResourceURLs s)"
      and mk = "\<lambda>(x1, x2, x3, x4, x5). \<lparr>h_Verbs = x1, h_APIGroups = x2, h_Resources = x3, h_ResourceNames = x4, h_NonResourceURLs = x5\<rparr>"
      and f = "\<lambda>(x1, x2, x3, x4, x5). \<lparr>pr_Verbs = x1, pr_APIGroups = x2, pr_Resources = x3, pr_ResourceNames = x4, pr_NonResourceURLs = x5\<rparr>",
      OF pair_deep_copy[OF string_slices pair_deep_copy[OF string_slices pair_deep_copy[OF string_slices
        pair_deep_copy[OF string_slices string_slices]]]]])
    (auto simp: rule_copy_def rule_ok_def rule_val_def rule_reach_def copy_pair_def Un_assoc split: prod.splits)

lemma meta_deep_copy: "deep_copy meta_copy (om_ok k8s_views) (om_val k8s_views) (om_reach k8s_views)"
  by (rule struct_deep_copy[where parts = "\<lambda>s. (h_Plain s, h_Finalizers s)" and mk = "\<lambda>(x1, x2). \<lparr>h_Plain = x1, h_Finalizers = x2\<rparr>"
      and f = "\<lambda>(x1, x2). x1\<lparr>om_Finalizers := x2\<rparr>", OF pair_deep_copy[OF plain_deep_copy[where f = "\<lambda>x. x"] string_slices]])
    (auto simp: meta_copy_def k8s_views_def copy_pair_def split: prod.splits)

interpretation k8s: apimachinery_copies k8s_library k8s_views
proof (rule apimachinery_copies.intro)
  show "deep_copy (ObjectMeta_DeepCopyInto k8s_library) (om_ok k8s_views) (om_val k8s_views) (om_reach k8s_views)"
    using meta_deep_copy by (simp add: k8s_library_def)
  show "deep_copy (ListMeta_DeepCopyInto k8s_library) (lm_ok k8s_views) (lm_val k8s_views) (lm_reach k8s_views)"
    using plain_deep_copy[where f = "\<lambda>x. x"] by (simp add: k8s_library_def k8s_views_def)
  show "deep_copy (PolicyRule_DeepCopyInto k8s_library) (ru_ok k8s_views) (ru_val k8s_views) (ru_reach k8s_views)"
    using rule_deep_copy by (simp add: k8s_library_def k8s_views_def)
  show "deep_copy (Condition_DeepCopyInto k8s_library) (cn_ok k8s_views) (cn_val k8s_views) (cn_reach k8s_views)"
    using plain_deep_copy[where f = "\<lambda>x. x"] by (simp add: k8s_library_def k8s_views_def)
qed

section \<open>Examples\<close>

text \<open>A resource whose projects are the last two strings of a longer array.\<close>

definition example_memory :: k8s_memory where
  "example_memory =
     [StringB [''p0'', ''p1'', ''p2''], StringB [''get''], StringB [''cleanup''],
      PolicyRuleB [\<lparr>h_Verbs = Some \<lparr>sl_block = 1, sl_off = 0, sl_len = 1\<rparr>, h_APIGroups = None, h_Resources = None,
        h_ResourceNames = None, h_NonResourceURLs = None\<rparr>],
      WSAB [\<lparr>h_TypeMeta = zero_type,
        h_ObjectMeta = \<lparr>h_Plain = ObjectMeta_zero, h_Finalizers = Some \<lparr>sl_block = 2, sl_off = 0, sl_len = 1\<rparr>\<rparr>,
        h_Spec = \<lparr>h_Scope = zero_scope\<lparr>h_Projects := Some \<lparr>sl_block = 0, sl_off = 1, sl_len = 2\<rparr>\<rparr>,
          h_PermissionsOf = zero_permissions\<lparr>h_Permissions := Some \<lparr>sl_block = 3, sl_off = 0, sl_len = 1\<rparr>\<rparr>\<rparr>,
        h_Status = \<lparr>h_Conditions = None\<rparr>\<rparr>]]"

definition example_object :: runtime_object where
  "example_object = WSAPtr (Some \<lparr>pt_block = 4, pt_index = 0\<rparr>)"

definition example_value :: WorkloadServiceAccount where
  "example_value = \<lparr>wsaMeta = ObjectMeta_zero\<lparr>om_Finalizers := [''cleanup'']\<rparr>,
     wsaSpec = \<lparr>wsaScope = scope_of [''p1'', ''p2''] [],
       wsaPermissions = \<lparr>ClusterRoles = [], Roles = [], Permissions = [\<lparr>pr_Verbs = [''get''], pr_APIGroups = [],
         pr_Resources = [], pr_ResourceNames = [], pr_NonResourceURLs = []\<rparr>]\<rparr>\<rparr>,
     wsaConditions = []\<rparr>"

lemmas example_read_simps = example_memory_def example_object_def k8s_views_def pointer_ok_def pointer_val_def deref_def
  wsa_ok_def wsa_val_def spec_ok_def spec_val_def status_ok_def status_val_def scope_ok_def scope_val_def
  permissions_ok_def permissions_val_def rule_ok_def rule_val_def slice_ok_def slice_val_def slice_elems_def
  zero_scope_def zero_permissions_def

lemma example_ok: "object_ok k8s_views example_memory example_object"
  by (simp add: example_read_simps)

lemma example_val: "object_val k8s_views example_memory example_object = Some (WSAValue (zero_type, example_value))"
  by (simp add: example_read_simps example_value_def scope_of_def)

theorem deep_copy_faithful_witness:
  "\<exists>z mem'. DeepCopyObject k8s_library example_object example_memory = (Some z, mem') \<and>
     object_val k8s_views mem' z = Some (WSAValue (zero_type, example_value))"
proof -
  obtain y mem' where c: "DeepCopyObject k8s_library example_object example_memory = (y, mem')" by fastforce
  from deep_copy_faithful[OF k8s.apimachinery_copies_axioms example_ok c] example_val c show ?thesis
    by (cases y) auto
qed

theorem deep_copy_independent_witness:
  "\<exists>z mem'. DeepCopyObject k8s_library example_object example_memory = (Some z, mem') \<and>
     object_val k8s_views (replicate 5 (StringB []) @ drop 5 mem' @ [StringB [''new'']]) z = Some (WSAValue (zero_type, example_value))"
proof -
  let ?d = "DeepCopyObject k8s_library example_object example_memory"
  have "fst ?d \<noteq> None" by (simp add: example_object_def WorkloadServiceAccount_DeepCopyObject_def
    WorkloadServiceAccount_DeepCopy_def copy_pointer_def split: prod.splits)
  then obtain z mem' where c: "?d = (Some z, mem')" by (metis option.exhaust prod.collapse)
  have len: "length (replicate 5 (StringB []) :: k8s_memory) = length example_memory" by (simp add: example_memory_def)
  then have "length example_memory = 5" by simp
  with deep_copy_independent[OF k8s.apimachinery_copies_axioms example_ok c len, of "[StringB [''new'']]"] example_val c show ?thesis by auto
qed

end
