(* ===== verification/Shutdown.thy ===== *)
theory Shutdown
  imports Orchestrator
begin

text \<open>
  How a leader stops: \<^verbatim>\<open>StageOrchestrator.Start\<close> (\<^verbatim>\<open>internal/reconciliation/orchestrator.go\<close>),
  \<^verbatim>\<open>EventCollector.Start\<close> (\<^verbatim>\<open>collector.go\<close>) and the debouncer as goroutines that share a context. The
  loops are at their \<^verbatim>\<open>select\<close> or inside one of its cases; when the context is cancelled the collector
  closes the batch channel. Shown: every schedule ends, and the loops have stopped then, unless a flush
  of the orchestrator meets the closed channel, which panics; such a schedule exists.
\<close>

section \<open>The goroutines\<close>

datatype loop =
    Selecting
  | Sending "EventInfo list"      \<comment> \<open>in \<open>FlushEvents\<close>, between collecting and sending\<close>
  | Processing "EventInfo list"   \<comment> \<open>in \<open>processBatchWithRetry\<close>\<close>
  | Stopped

record leader =
  ld_ec :: EventCollector
  ld_triggerCh :: nat
  ld_cancelled :: bool
  ld_closed :: bool
  ld_debouncing :: bool
  ld_collector :: loop
  ld_orchestrator :: loop
  ld_panicked :: bool

definition leader_init :: "nat \<Rightarrow> int \<Rightarrow> leader" where
  "leader_init debounceInterval maxBatchSize =
     \<lparr>ld_ec = NewEventCollector debounceInterval maxBatchSize, ld_triggerCh = 0, ld_cancelled = False, ld_closed = False,
      ld_debouncing = True, ld_collector = Selecting, ld_orchestrator = Selecting, ld_panicked = False\<rparr>"

datatype leader_action =
    Cancel                     \<comment> \<open>the manager cancels the context\<close>
  | NewEvent nat EventInfo     \<comment> \<open>a controller or a retry adds an event\<close>
  | FollowUp                   \<comment> \<open>the timer of a follow-up reconciliation fires\<close>
  | DebouncerTimestamp
  | DebouncerTick
  | DebouncerDone
  | CollectorTrigger go_order
  | CollectorSend
  | CollectorDone
  | LoopTrigger go_order
  | LoopSend
  | LoopReceive
  | LoopProcessed
  | LoopDone

text \<open>Sending to a closed channel panics, in a \<^verbatim>\<open>select\<close> with a default case, too.\<close>

definition send_batch :: "EventInfo list \<Rightarrow> leader \<Rightarrow> leader" where
  "send_batch batch s =
     (if ld_closed s then s\<lparr>ld_panicked := True\<rparr> else s\<lparr>ld_ec := sendBatch batch (ld_ec s)\<rparr>)"

definition collected :: "EventInfo list option \<Rightarrow> loop" where
  "collected batch = (case batch of None \<Rightarrow> Selecting | Some b \<Rightarrow> Sending b)"

fun leader_step :: "leader_action \<Rightarrow> leader \<Rightarrow> leader option" where
  "leader_step Cancel s = Some (s\<lparr>ld_cancelled := True\<rparr>)"
| "leader_step (NewEvent now event) s = map_option (\<lambda>ec. s\<lparr>ld_ec := ec\<rparr>) (AddEvent now event (ld_ec s))"
| "leader_step FollowUp s = Some (s\<lparr>ld_triggerCh := triggerReconcile (ld_triggerCh s)\<rparr>)"
| "leader_step DebouncerTimestamp s =
     (if ld_debouncing s
      then map_option (\<lambda>d. s\<lparr>ld_ec := (ld_ec s)\<lparr>ec_eventDebouncer := d\<rparr>\<rparr>) (debouncer_timestamp (ec_eventDebouncer (ld_ec s)))
      else None)"
| "leader_step DebouncerTick s =
     (if ld_debouncing s
      then map_option (\<lambda>(d, ec). s\<lparr>ld_ec := ec\<lparr>ec_eventDebouncer := d\<rparr>\<rparr>)
             (debouncer_tick send_trigger (ec_eventDebouncer (ld_ec s), ld_ec s))
      else None)"
| "leader_step DebouncerDone s = (if ld_debouncing s \<and> ld_cancelled s then Some (s\<lparr>ld_debouncing := False\<rparr>) else None)"
| "leader_step (CollectorTrigger \<omega>) s =
     (if ld_collector s = Selecting \<and> ec_batchTriggerCh (ld_ec s) > 0
      then (case collectEventsIntoBatch \<omega> ((ld_ec s)\<lparr>ec_batchTriggerCh := ec_batchTriggerCh (ld_ec s) - 1\<rparr>) of
              (batch, ec) \<Rightarrow> Some (s\<lparr>ld_ec := ec, ld_collector := collected batch\<rparr>))
      else None)"
| "leader_step CollectorSend s =
     (case ld_collector s of Sending batch \<Rightarrow> Some ((send_batch batch s)\<lparr>ld_collector := Selecting\<rparr>) | _ \<Rightarrow> None)"
| "leader_step CollectorDone s =
     (if ld_collector s = Selecting \<and> ld_cancelled s
      then Some (if ld_closed s then s\<lparr>ld_panicked := True\<rparr> else s\<lparr>ld_closed := True, ld_collector := Stopped\<rparr>) else None)"
| "leader_step (LoopTrigger \<omega>) s =
     (if ld_orchestrator s = Selecting \<and> ld_triggerCh s > 0
      then (case collectEventsIntoBatch \<omega> (ld_ec s) of
              (batch, ec) \<Rightarrow> Some (s\<lparr>ld_ec := ec, ld_triggerCh := ld_triggerCh s - 1, ld_orchestrator := collected batch\<rparr>))
      else None)"
| "leader_step LoopSend s =
     (case ld_orchestrator s of Sending batch \<Rightarrow> Some ((send_batch batch s)\<lparr>ld_orchestrator := Selecting\<rparr>) | _ \<Rightarrow> None)"
| "leader_step LoopReceive s =
     (if ld_orchestrator s = Selecting
      then (case ec_batchReadyCh (ld_ec s) of
              batch # rest \<Rightarrow> Some (s\<lparr>ld_ec := (ld_ec s)\<lparr>ec_batchReadyCh := rest\<rparr>, ld_orchestrator := Processing batch\<rparr>)
            | [] \<Rightarrow> if ld_closed s then Some (s\<lparr>ld_orchestrator := Stopped\<rparr>) else None)
      else None)"
| "leader_step LoopProcessed s =
     (case ld_orchestrator s of Processing batch \<Rightarrow> Some (s\<lparr>ld_orchestrator := Selecting\<rparr>) | _ \<Rightarrow> None)"
| "leader_step LoopDone s =
     (if ld_orchestrator s = Selecting \<and> ld_cancelled s then Some (s\<lparr>ld_orchestrator := Stopped\<rparr>) else None)"

text \<open>A panic ends the process.\<close>

definition leader_exec :: "leader_action \<Rightarrow> leader \<Rightarrow> leader option" where
  "leader_exec a s = (if ld_panicked s then None else leader_step a s)"

fun leader_run :: "leader_action list \<Rightarrow> leader \<Rightarrow> leader option" where
  "leader_run [] s = Some s"
| "leader_run (a # as) s = (case leader_exec a s of None \<Rightarrow> None | Some s' \<Rightarrow> leader_run as s')"

text \<open>Steps of the goroutines themselves; the others are the environment's.\<close>

fun own :: "leader_action \<Rightarrow> bool" where
  "own Cancel = False"
| "own (NewEvent _ _) = False"
| "own FollowUp = False"
| "own _ = True"

section \<open>Every schedule ends\<close>

fun loop_work :: "loop \<Rightarrow> nat" where
  "loop_work Stopped = 0"
| "loop_work Selecting = 1"
| "loop_work (Processing _) = 2"
| "loop_work (Sending _) = 4"

definition work :: "leader \<Rightarrow> nat" where
  "work s = 6 * length (db_timeChan (ec_eventDebouncer (ld_ec s))) +
     (if db_ticking (ec_eventDebouncer (ld_ec s)) then 5 else 0) +
     4 * ec_batchTriggerCh (ld_ec s) + 4 * ld_triggerCh s + 2 * length (ec_batchReadyCh (ld_ec s)) +
     loop_work (ld_collector s) + loop_work (ld_orchestrator s) +
     (if ld_debouncing s then 1 else 0) + (if ld_panicked s then 0 else 1)"

lemma collected_work: "loop_work (collected batch) \<le> 4"
  by (simp add: collected_def split: option.splits)

lemma collect_frame:
  assumes "collectEventsIntoBatch \<omega> ec = (batch, ec')"
  shows "ec_batchTriggerCh ec' = ec_batchTriggerCh ec" "ec_batchReadyCh ec' = ec_batchReadyCh ec"
    "ec_eventDebouncer ec' = ec_eventDebouncer ec"
  using assms by (auto simp: collectEventsIntoBatch_def split: if_splits)

lemma send_batch_frame [simp]:
  "ld_collector (send_batch b s) = ld_collector s" "ld_orchestrator (send_batch b s) = ld_orchestrator s"
  "ld_triggerCh (send_batch b s) = ld_triggerCh s" "ld_debouncing (send_batch b s) = ld_debouncing s"
  "ld_closed (send_batch b s) = ld_closed s" "ld_cancelled (send_batch b s) = ld_cancelled s"
  "ld_panicked (send_batch b s) \<longleftrightarrow> ld_panicked s \<or> ld_closed s"
  by (simp_all add: send_batch_def)

lemma own_step_works:
  assumes "leader_exec a s = Some s'" "own a"
  shows "work s' < work s"
proof -
  have step: "leader_step a s = Some s'" "\<not> ld_panicked s" using assms(1) by (simp_all add: leader_exec_def split: if_splits)
  show ?thesis
  proof (cases a)
    case DebouncerTimestamp
    with step obtain d where d: "debouncer_timestamp (ec_eventDebouncer (ld_ec s)) = Some d"
      "s' = s\<lparr>ld_ec := (ld_ec s)\<lparr>ec_eventDebouncer := d\<rparr>\<rparr>" by (auto split: if_splits)
    then obtain t ts where "db_timeChan (ec_eventDebouncer (ld_ec s)) = t # ts" "db_timeChan d = ts"
      by (auto simp: debouncer_timestamp_def Let_def split: if_splits list.splits)
    with d(2) show ?thesis by (simp add: work_def)
  next
    case DebouncerTick
    with step obtain d ec where d: "debouncer_tick send_trigger (ec_eventDebouncer (ld_ec s), ld_ec s) = Some (d, ec)"
      "s' = s\<lparr>ld_ec := ec\<lparr>ec_eventDebouncer := d\<rparr>\<rparr>" by (auto split: if_splits)
    then have "db_ticking (ec_eventDebouncer (ld_ec s))" "\<not> db_ticking d"
      "db_timeChan d = db_timeChan (ec_eventDebouncer (ld_ec s))" "ec_batchReadyCh ec = ec_batchReadyCh (ld_ec s)"
      "ec_batchTriggerCh ec = ec_batchTriggerCh (ld_ec s) + 1"
      by (auto simp: debouncer_tick_def send_trigger_def Let_def split: if_splits option.splits)
    with d(2) show ?thesis by (simp add: work_def)
  next
    case (CollectorTrigger \<omega>)
    with step obtain batch ec where c: "collectEventsIntoBatch \<omega> ((ld_ec s)\<lparr>ec_batchTriggerCh := ec_batchTriggerCh (ld_ec s) - 1\<rparr>) = (batch, ec)"
      "s' = s\<lparr>ld_ec := ec, ld_collector := collected batch\<rparr>" "ld_collector s = Selecting" "ec_batchTriggerCh (ld_ec s) > 0"
      by (auto split: if_splits prod.splits)
    with collect_frame[OF c(1)] collected_work[of batch] show ?thesis
      by (cases "ec_batchTriggerCh (ld_ec s)") (simp_all add: work_def)
  next
    case (LoopTrigger \<omega>)
    with step obtain batch ec where c: "collectEventsIntoBatch \<omega> (ld_ec s) = (batch, ec)"
      "s' = s\<lparr>ld_ec := ec, ld_triggerCh := ld_triggerCh s - 1, ld_orchestrator := collected batch\<rparr>"
      "ld_orchestrator s = Selecting" "ld_triggerCh s > 0"
      by (auto split: if_splits prod.splits)
    with collect_frame[OF c(1)] collected_work[of batch] show ?thesis by (cases "ld_triggerCh s") (simp_all add: work_def)
  next
    case CollectorSend
    with step obtain b where "ld_collector s = Sending b" "s' = (send_batch b s)\<lparr>ld_collector := Selecting\<rparr>"
      by (auto split: loop.splits)
    with step(2) show ?thesis by (simp add: work_def send_batch_def sendBatch_def)
  next
    case LoopSend
    with step obtain b where "ld_orchestrator s = Sending b" "s' = (send_batch b s)\<lparr>ld_orchestrator := Selecting\<rparr>"
      by (auto split: loop.splits)
    with step(2) show ?thesis by (simp add: work_def send_batch_def sendBatch_def)
  next
    case LoopReceive
    with step show ?thesis by (simp add: work_def split: if_splits list.splits) auto
  next
    case LoopProcessed
    with step show ?thesis by (auto simp: work_def split: loop.splits)
  next
    case DebouncerDone
    with step show ?thesis by (auto simp: work_def split: if_splits)
  next
    case CollectorDone
    with step show ?thesis by (auto simp: work_def split: if_splits)
  next
    case LoopDone
    with step show ?thesis by (auto simp: work_def split: if_splits)
  qed (use assms(2) in simp_all)
qed

lemma own_run_works: "list_all own as \<Longrightarrow> leader_run as s = Some s' \<Longrightarrow> length as + work s' \<le> work s"
proof (induction as arbitrary: s)
  case (Cons a as)
  then obtain s1 where s1: "leader_exec a s = Some s1" "leader_run as s1 = Some s'" by (auto split: option.splits)
  with Cons own_step_works[OF s1(1)] show ?case by fastforce
qed simp

section \<open>Invariants\<close>

inductive leader_reachable :: "leader \<Rightarrow> bool" where
  init: "leader_reachable (leader_init interval maxBatchSize)"
| step: "leader_reachable s \<Longrightarrow> leader_exec a s = Some s' \<Longrightarrow> leader_reachable s'"

definition leader_ok :: "leader \<Rightarrow> bool" where
  "leader_ok s \<longleftrightarrow> (ld_closed s \<longleftrightarrow> ld_collector s = Stopped) \<and> (ld_closed s \<longrightarrow> ld_cancelled s) \<and>
     (\<forall>b. ld_collector s \<noteq> Processing b) \<and> (ld_panicked s \<longrightarrow> ld_closed s)"

lemma collected_cases [simp]: "collected batch \<noteq> Stopped" "collected batch \<noteq> Processing b"
  by (simp_all add: collected_def split: option.splits)

lemma leader_step_ok: "leader_ok s \<Longrightarrow> leader_exec a s = Some s' \<Longrightarrow> leader_ok s'"
  by (cases a) (auto simp: leader_exec_def leader_ok_def split: if_splits loop.splits list.splits prod.splits)

lemma leader_reachable_ok: "leader_reachable s \<Longrightarrow> leader_ok s"
proof (induction rule: leader_reachable.induct)
  case (init interval maxBatchSize)
  then show ?case by (simp add: leader_init_def leader_ok_def)
qed (rule leader_step_ok)

lemma leader_run_reachable: "leader_reachable s \<Longrightarrow> leader_run as s = Some s' \<Longrightarrow> leader_reachable s'"
  by (induction as arbitrary: s) (auto split: option.splits intro: leader_reachable.step)

section \<open>Guarantees\<close>

text \<open>
  C23. Stopping ends: whatever is scheduled, the goroutines of a leader take only boundedly many steps
  after the last new event, and when the context is cancelled and none of them can take a step
  any more, both loops have returned and the batch channel is closed, or the process has panicked.
\<close>

theorem leader_stops:
  assumes "leader_reachable s" and "list_all own as" and "leader_run as s = Some s'"
  shows "length as \<le> work s \<and>
    (ld_cancelled s' \<and> (\<forall>a. own a \<longrightarrow> leader_exec a s' = None) \<longrightarrow>
       ld_panicked s' \<or> ld_collector s' = Stopped \<and> ld_orchestrator s' = Stopped \<and> ld_closed s')"
proof -
  have ok: "leader_ok s'" using leader_reachable_ok leader_run_reachable[OF assms(1,3)] by blast
  have "ld_collector s' = Stopped \<and> ld_orchestrator s' = Stopped \<and> ld_closed s'"
    if "ld_cancelled s'" "\<And>a. own a \<Longrightarrow> leader_exec a s' = None" "\<not> ld_panicked s'"
  proof -
    have c: "leader_step CollectorSend s' = None" "leader_step CollectorDone s' = None" "leader_step LoopSend s' = None"
      "leader_step LoopProcessed s' = None" "leader_step LoopDone s' = None"
      using that(2)[of CollectorSend] that(2)[of CollectorDone] that(2)[of LoopSend] that(2)[of LoopProcessed]
        that(2)[of LoopDone] that(3) by (simp_all add: leader_exec_def)
    have "ld_collector s' = Stopped" using c(1,2) that(1) ok by (cases "ld_collector s'") (auto simp: leader_ok_def)
    moreover have "ld_orchestrator s' = Stopped" using c(3-5) that(1) by (cases "ld_orchestrator s'") auto
    ultimately show ?thesis using ok by (simp add: leader_ok_def)
  qed
  with own_run_works[OF assms(2,3)] show ?thesis by auto
qed

text \<open>The orchestrator flushes only when a follow-up has fired.\<close>

definition no_follow_up :: "leader \<Rightarrow> bool" where
  "no_follow_up s \<longleftrightarrow> ld_triggerCh s = 0 \<and> (\<forall>b. ld_orchestrator s \<noteq> Sending b) \<and> \<not> ld_panicked s"

lemma no_follow_up_step:
  assumes "no_follow_up s" "leader_ok s" "leader_exec a s = Some s'" "a \<noteq> FollowUp"
  shows "no_follow_up s'"
  using assms by (cases a) (auto simp: leader_exec_def no_follow_up_def leader_ok_def split: if_splits loop.splits list.splits prod.splits)

lemma run_without_follow_up:
  "no_follow_up s \<Longrightarrow> leader_ok s \<Longrightarrow> leader_run as s = Some s' \<Longrightarrow> FollowUp \<notin> set as \<Longrightarrow> no_follow_up s'"
proof (induction as arbitrary: s)
  case (Cons a as)
  then obtain s1 where s1: "leader_exec a s = Some s1" "leader_run as s1 = Some s'" by (auto split: option.splits)
  with Cons no_follow_up_step[OF Cons.prems(1,2) s1(1)] leader_step_ok[OF Cons.prems(2) s1(1)] show ?case by auto
qed simp

lemma step_cancelled: "leader_exec a s = Some s' \<Longrightarrow> a \<noteq> Cancel \<Longrightarrow> ld_cancelled s' = ld_cancelled s"
  by (cases a) (auto simp: leader_exec_def split: if_splits loop.splits list.splits prod.splits)

lemma run_cancelled: "leader_run as s = Some s' \<Longrightarrow> ld_cancelled s' \<Longrightarrow> ld_cancelled s \<or> Cancel \<in> set as"
proof (induction as arbitrary: s)
  case (Cons a as)
  then obtain s1 where "leader_exec a s = Some s1" "leader_run as s1 = Some s'" by (auto split: option.splits)
  with Cons step_cancelled show ?case by fastforce
qed simp

lemma leader_run_append:
  "leader_run (as @ bs) s = (case leader_run as s of None \<Rightarrow> None | Some s' \<Rightarrow> leader_run bs s')"
  by (induction as arbitrary: s) (auto split: option.splits)

text \<open>Where in a run the channel was closed, and where the flush began that is under way.\<close>

lemma run_closes:
  assumes "leader_run as s = Some s'" "\<not> ld_closed s" "ld_closed s'"
  obtains xs zs t where "as = xs @ CollectorDone # zs" "leader_run xs s = Some t" "ld_cancelled t"
  using assms
proof (induction as arbitrary: s thesis)
  case (Cons a as)
  then obtain s1 where s1: "leader_exec a s = Some s1" "leader_run as s1 = Some s'" by (auto split: option.splits)
  show ?case
  proof (cases "ld_closed s1")
    case True
    with s1(1) Cons.prems(3) have "a = CollectorDone \<and> ld_cancelled s"
      by (cases a) (auto simp: leader_exec_def split: if_splits loop.splits list.splits prod.splits)
    then show ?thesis using Cons.prems(1)[of "[]" as s] by simp
  next
    case False
    from Cons.IH[OF _ s1(2) False Cons.prems(4)] obtain xs zs t where
      "as = xs @ CollectorDone # zs" "leader_run xs s1 = Some t" "ld_cancelled t" by blast
    then show ?thesis using Cons.prems(1)[of "a # xs" zs t] s1(1) by simp
  qed
qed simp

lemma run_flushes:
  assumes "leader_run as s = Some s'" "\<forall>b. ld_orchestrator s \<noteq> Sending b" "ld_orchestrator s' = Sending b"
  obtains xs \<omega> zs t where "as = xs @ LoopTrigger \<omega> # zs" "leader_run xs s = Some t" "ld_triggerCh t > 0"
  using assms
proof (induction as arbitrary: s thesis)
  case (Cons a as)
  then obtain s1 where s1: "leader_exec a s = Some s1" "leader_run as s1 = Some s'" by (auto split: option.splits)
  show ?case
  proof (cases "\<exists>b. ld_orchestrator s1 = Sending b")
    case True
    with s1(1) Cons.prems(3) have "(\<exists>\<omega>. a = LoopTrigger \<omega>) \<and> ld_triggerCh s > 0"
      by (cases a) (auto simp: leader_exec_def split: if_splits loop.splits list.splits prod.splits)
    then show ?thesis using Cons.prems(1)[of "[]" _ as s] by auto
  next
    case False
    from Cons.IH[OF _ s1(2) _ Cons.prems(4)] False obtain xs \<omega> zs t where
      "as = xs @ LoopTrigger \<omega> # zs" "leader_run xs s1 = Some t" "ld_triggerCh t > 0" by blast
    then show ?thesis using Cons.prems(1)[of "a # xs" \<omega> zs t] s1(1) by simp
  qed
qed simp

text \<open>
  C24. The only panic: every run that panics ends with the orchestrator's flush into the channel that the
  collector has closed. Before that step, the context was cancelled and then the collector closed the channel;
  and a follow-up reconciliation was due and then the orchestrator took its trigger. Without both, no schedule
  panics; the two pairs may come in any order.
\<close>

theorem panics_only_in_shutdown:
  assumes "leader_run as (leader_init interval maxBatchSize) = Some s" and "ld_panicked s"
  shows "\<exists>bs. as = bs @ [LoopSend] \<and> ld_closed s \<and> ld_collector s = Stopped \<and>
    (\<exists>xs ys zs. bs = xs @ Cancel # ys @ CollectorDone # zs) \<and>
    (\<exists>xs ys \<omega> zs. bs = xs @ FollowUp # ys @ LoopTrigger \<omega> # zs)"
proof -
  let ?init = "leader_init interval maxBatchSize"
  have ok: "leader_ok s" using leader_reachable_ok leader_run_reachable[OF leader_reachable.init assms(1)] by blast
  have init: "no_follow_up ?init" "leader_ok ?init" "\<not> ld_cancelled ?init" "\<not> ld_closed ?init" "\<forall>b. ld_orchestrator ?init \<noteq> Sending b"
    by (simp_all add: leader_init_def no_follow_up_def leader_ok_def)
  have "as \<noteq> []" using assms init(1) by (auto simp: no_follow_up_def)
  then obtain bs a where as: "as = bs @ [a]" by (metis rev_exhaust)
  then obtain t where t: "leader_run bs ?init = Some t" "leader_exec a t = Some s"
    using assms(1) by (auto simp: leader_run_append split: option.splits)
  have "leader_ok t" using leader_reachable_ok leader_run_reachable[OF leader_reachable.init t(1)] by blast
  with t(2) assms(2) have a: "a = LoopSend" "ld_collector s = Stopped" "ld_closed t" "\<exists>b. ld_orchestrator t = Sending b"
    by (cases a; auto simp: leader_exec_def leader_ok_def split: if_splits loop.splits list.splits prod.splits)+
  obtain xs zs u where c: "bs = xs @ CollectorDone # zs" "leader_run xs ?init = Some u" "ld_cancelled u"
    using run_closes[OF t(1) init(4) a(3)] by blast
  then have "Cancel \<in> set xs" using run_cancelled[OF c(2)] init(3) by blast
  then have 1: "\<exists>xs ys zs. bs = xs @ Cancel # ys @ CollectorDone # zs"
    using c(1) by (metis append.assoc append_Cons split_list)
  obtain b where "ld_orchestrator t = Sending b" using a(4) by blast
  from run_flushes[OF t(1) init(5) this] obtain xs \<omega> zs u where
    f: "bs = xs @ LoopTrigger \<omega> # zs" "leader_run xs ?init = Some u" "ld_triggerCh u > 0" by blast
  then have "FollowUp \<in> set xs" using run_without_follow_up[OF init(1,2) f(2)] by (auto simp: no_follow_up_def)
  then have 2: "\<exists>xs ys \<omega> zs. bs = xs @ FollowUp # ys @ LoopTrigger \<omega> # zs"
    using f(1) by (metis append.assoc append_Cons split_list)
  show ?thesis using as a(1,2) ok assms(2) 1 2 by (auto simp: leader_ok_def)
qed

definition panic_run :: "leader_action list" where
  "panic_run = [NewEvent 0 (example_event ''a''), FollowUp, Cancel, CollectorDone, LoopTrigger order_id, LoopSend]"

text \<open>
  The panic is possible: an event waits in the map, a follow-up was due when the leader is told to stop,
  the collector closes the channel first, and the orchestrator's \<^verbatim>\<open>select\<close> picks the trigger.
\<close>

theorem stopping_can_panic: "\<exists>s. leader_run panic_run (leader_init 500 100) = Some s \<and> ld_panicked s"
proof -
  have "map_option ld_panicked (leader_run panic_run (leader_init 500 100)) = Some True" by code_simp
  then show ?thesis by auto
qed

section \<open>Examples\<close>

definition stopping :: leader where
  "stopping = the (leader_run [NewEvent 0 (example_event ''a''), Cancel] (leader_init 500 100))"

definition stopping_run :: "leader_action list" where
  "stopping_run = [DebouncerTimestamp, DebouncerTick, CollectorTrigger order_id, CollectorSend, CollectorDone,
     LoopReceive, LoopProcessed, LoopReceive, DebouncerDone]"

lemma stopping_eq: "leader_run [NewEvent 0 (example_event ''a''), Cancel] (leader_init 500 100) = Some stopping"
proof -
  have "leader_run [NewEvent 0 (example_event ''a''), Cancel] (leader_init 500 100) \<noteq> None" by code_simp
  then show ?thesis by (simp add: stopping_def)
qed

theorem leader_stops_witness:
  "\<exists>s. leader_run stopping_run stopping = Some s \<and> length stopping_run \<le> work stopping \<and>
     ld_collector s = Stopped \<and> ld_orchestrator s = Stopped"
proof -
  have r: "leader_reachable stopping" by (rule leader_run_reachable[OF leader_reachable.init stopping_eq])
  have o: "list_all own stopping_run" by (simp add: stopping_run_def)
  have "leader_run stopping_run stopping \<noteq> None" by code_simp
  then obtain s where s: "leader_run stopping_run stopping = Some s" by blast
  have "map_option (\<lambda>s. (ld_collector s, ld_orchestrator s)) (leader_run stopping_run stopping) = Some (Stopped, Stopped)"
    by code_simp
  with leader_stops[OF r o s] s show ?thesis by simp
qed

theorem panics_only_in_shutdown_witness:
  "\<exists>s. leader_run panic_run (leader_init 500 100) = Some s \<and> ld_closed s \<and> (\<exists>bs. panic_run = bs @ [LoopSend])"
proof -
  have "map_option ld_panicked (leader_run panic_run (leader_init 500 100)) = Some True" by code_simp
  then obtain s where "leader_run panic_run (leader_init 500 100) = Some s" "ld_panicked s" by auto
  with panics_only_in_shutdown[OF this] show ?thesis by blast
qed

end
