(* ===== verification/Gauges.thy ===== *)
theory Gauges
  imports Orchestrator StateSync
begin

text \<open>
  The counters, histograms and the gauge of \<^verbatim>\<open>internal/reconciliation\<close>, where \<^verbatim>\<open>collector.go\<close>,
  \<^verbatim>\<open>orchestrator.go\<close> and \<^verbatim>\<open>state_syncer.go\<close> move them; a histogram of durations is the number of its
  observations. Shown: the queue depth is what waits as long as no batch came back from a full channel,
  and not always afterwards; and every batch is counted exactly once, as processed or as failed.
\<close>

record work_instruments =
  wi_eventsCollected :: nat
  wi_batchSize :: "nat list"
  wi_eventQueueDepth :: nat
  wi_batchChannelBackpressure :: nat
  wi_batchProcessingDuration :: nat
  wi_batchesProcessed :: nat
  wi_batchesFailedTotal :: nat
  wi_batchesRetriedTotal :: nat
  wi_stateRebuildsTotal :: nat
  wi_stateRebuildFailuresTotal :: nat

definition work_instruments_zero :: work_instruments where
  "work_instruments_zero =
     \<lparr>wi_eventsCollected = 0, wi_batchSize = [], wi_eventQueueDepth = 0, wi_batchChannelBackpressure = 0,
      wi_batchProcessingDuration = 0, wi_batchesProcessed = 0, wi_batchesFailedTotal = 0, wi_batchesRetriedTotal = 0,
      wi_stateRebuildsTotal = 0, wi_stateRebuildFailuresTotal = 0\<rparr>"

section \<open>The collector's\<close>

definition observe_AddEvent :: "EventInfo \<Rightarrow> EventCollector \<Rightarrow> work_instruments \<Rightarrow> work_instruments" where
  "observe_AddEvent event ec i =
     i\<lparr>wi_eventsCollected := wi_eventsCollected i + 1,
       wi_eventQueueDepth := length (map_put (event_key event) event (ec_eventMap ec))\<rparr>"

definition observe_collectEventsIntoBatch :: "EventCollector \<Rightarrow> work_instruments \<Rightarrow> work_instruments" where
  "observe_collectEventsIntoBatch ec i = (if length (ec_eventMap ec) = 0 then i else i\<lparr>wi_eventQueueDepth := 0\<rparr>)"

definition observe_sendBatch :: "EventInfo list \<Rightarrow> EventCollector \<Rightarrow> work_instruments \<Rightarrow> work_instruments" where
  "observe_sendBatch batch ec i =
     (let i1 = i\<lparr>wi_batchSize := wi_batchSize i @ [length batch]\<rparr>
      in if length (ec_batchReadyCh ec) < batchReadyCh_capacity then i1
         else i1\<lparr>wi_batchChannelBackpressure := wi_batchChannelBackpressure i1 + 1\<rparr>)"

text \<open>The actions of theory \<open>Collector\<close> with what they observe.\<close>

fun observe_action :: "collector_action \<Rightarrow> collector_state \<Rightarrow> work_instruments \<Rightarrow> work_instruments" where
  "observe_action (Add now event) s i = observe_AddEvent event (cs_ec s) i"
| "observe_action (Trigger \<omega>) s i = observe_collectEventsIntoBatch (cs_ec s) i"
| "observe_action (Flush \<omega>) s i = observe_collectEventsIntoBatch (cs_ec s) i"
| "observe_action (Send k) s i = observe_sendBatch (cs_inflight s ! k) (cs_ec s) i"
| "observe_action _ s i = i"

fun observed_run ::
  "collector_action list \<Rightarrow> collector_state \<times> work_instruments \<Rightarrow> (collector_state \<times> work_instruments) option" where
  "observed_run [] si = Some si"
| "observed_run (a # as) (s, i) =
     (case collector_exec a s of None \<Rightarrow> None | Some s' \<Rightarrow> observed_run as (s', observe_action a s i))"

lemma length_put: "length m \<le> length (map_put k v m)"
  by (induction m) auto

lemma length_merge_event: "length m \<le> length (merge_event event m)"
  by (simp add: merge_event_def length_put split: option.splits)

lemma length_merge: "length m \<le> length (fold merge_event batch m)"
proof (induction batch arbitrary: m)
  case (Cons event batch)
  show ?case using Cons.IH[of "merge_event event m"] length_merge_event[of m event] by simp
qed simp

definition gauges_ok :: "collector_state \<times> work_instruments \<Rightarrow> bool" where
  "gauges_ok si \<longleftrightarrow> (case si of (s, i) \<Rightarrow>
     wi_eventsCollected i = length (cs_added s) \<and>
     wi_eventQueueDepth i \<le> length (ec_eventMap (cs_ec s)) \<and>
     (wi_batchChannelBackpressure i = 0 \<longrightarrow> wi_eventQueueDepth i = length (ec_eventMap (cs_ec s))) \<and>
     length (wi_batchSize i) = length (cs_received s) + length (ec_batchReadyCh (cs_ec s)) + wi_batchChannelBackpressure i)"

lemma gauges_step:
  assumes "collector_exec a s = Some s'" "gauges_ok (s, i)"
  shows "gauges_ok (s', observe_action a s i)"
proof (cases a)
  case (Add now event)
  with assms obtain ec' where "AddEvent now event (cs_ec s) = Some ec'" "s' = s\<lparr>cs_ec := ec', cs_added := cs_added s @ [event]\<rparr>"
    by (auto split: option.splits)
  with assms(2) show ?thesis by (auto simp: Add gauges_ok_def observe_AddEvent_def elim!: AddEvent_cases)
next
  case Timestamp
  with assms show ?thesis by (auto simp: gauges_ok_def split: option.splits)
next
  case Tick
  with assms show ?thesis
    by (auto simp: gauges_ok_def debouncer_tick_def send_trigger_def split: option.splits if_splits)
next
  case (Send k)
  with assms length_merge[of "ec_eventMap (cs_ec s)" "cs_inflight s ! k"] show ?thesis
    by (auto simp: gauges_ok_def observe_sendBatch_def sendBatch_def Let_def split: if_splits)
next
  case Receive
  with assms show ?thesis by (auto simp: gauges_ok_def split: list.splits)
qed (use assms in \<open>auto simp: gauges_ok_def observe_collectEventsIntoBatch_def collect_action_def
    collectEventsIntoBatch_def split: if_splits\<close>)

lemma gauges_run: "observed_run as (s, i) = Some si \<Longrightarrow> gauges_ok (s, i) \<Longrightarrow> gauges_ok si"
proof (induction as arbitrary: s i)
  case (Cons a as)
  then obtain s1 where "collector_exec a s = Some s1" "observed_run as (s1, observe_action a s i) = Some si"
    by (auto split: option.splits)
  with Cons gauges_step show ?case by blast
qed simp

text \<open>
  The collector's instruments under every interleaving: the counter of events is the number of
  additions, the queue depth never exceeds what waits and is exactly what waits as long as no
  batch came back, and every batch that was sent was received, is in the channel or came back.
\<close>

theorem collector_gauges_true:
  assumes "observed_run as (collector_init interval maxBatchSize, work_instruments_zero) = Some (s, i)"
  shows "wi_eventsCollected i = length (cs_added s) \<and> wi_eventQueueDepth i \<le> length (ec_eventMap (cs_ec s)) \<and>
    (wi_batchChannelBackpressure i = 0 \<longrightarrow> wi_eventQueueDepth i = length (ec_eventMap (cs_ec s))) \<and>
    length (wi_batchSize i) = length (cs_received s) + length (ec_batchReadyCh (cs_ec s)) + wi_batchChannelBackpressure i"
proof -
  have "gauges_ok (collector_init interval maxBatchSize, work_instruments_zero)"
    by (simp add: gauges_ok_def collector_init_def NewEventCollector_def work_instruments_zero_def)
  from gauges_run[OF assms this] show ?thesis by (simp add: gauges_ok_def)
qed

section \<open>The orchestrator's\<close>

text \<open>
  One attempt at a batch: \<^verbatim>\<open>processBatch\<close> observes its duration, \<^verbatim>\<open>processBatchWithRetry\<close> counts a
  success, \<^verbatim>\<open>handlePermanentFailure\<close> a failure.
\<close>

definition observe_attempt ::
  "('c, 'q) orchestrator_env \<Rightarrow> Batch \<Rightarrow> ('c, 'q) orchestrator_state \<Rightarrow> work_instruments \<Rightarrow> work_instruments" where
  "observe_attempt env batch st i =
     (let so = env_so env; i1 = i\<lparr>wi_batchProcessingDuration := wi_batchProcessingDuration i + 1\<rparr>
      in case processBatch so batch (os_engine st) (os_world st) of
           (None, _) \<Rightarrow> i1\<lparr>wi_batchesProcessed := wi_batchesProcessed i1 + 1\<rparr>
         | (Some err, batch1, _) \<Rightarrow>
             if int (bq_NumRequeues (env_W env) (Some batch1) (os_queue st)) + 1 \<le> so_maxRetries so then i1
             else i1\<lparr>wi_batchesFailedTotal := wi_batchesFailedTotal i1 + 1\<rparr>)"

text \<open>The attempts at one batch as in \<open>settle\<close>; \<^verbatim>\<open>processRetryQueue\<close> counts every attempt but the first.\<close>

fun settle_observed ::
  "('c, 'q) orchestrator_env \<Rightarrow> nat \<Rightarrow> Batch \<Rightarrow> ('c, 'q) orchestrator_state \<Rightarrow> work_instruments \<Rightarrow>
   (nat \<times> ('c, 'q) orchestrator_state \<times> work_instruments) option" where
  "settle_observed env 0 batch st i = None"
| "settle_observed env (Suc n) batch st i =
     (case processBatchWithRetry env batch st of
        None \<Rightarrow> None
      | Some st' \<Rightarrow>
          (let i1 = observe_attempt env batch st i
           in case map_of (bq_batches (os_queue st')) (ba_ID batch) of
                None \<Rightarrow> Some (1, st', i1)
              | Some b \<Rightarrow> map_option (\<lambda>(k, s, j). (Suc k, s, j))
                  (settle_observed env n b st' (i1\<lparr>wi_batchesRetriedTotal := wi_batchesRetriedTotal i1 + 1\<rparr>))))"

definition counted_once :: "work_instruments \<Rightarrow> nat \<Rightarrow> work_instruments \<Rightarrow> bool" where
  "counted_once i k j \<longleftrightarrow>
     wi_batchesProcessed j + wi_batchesFailedTotal j = wi_batchesProcessed i + wi_batchesFailedTotal i + 1 \<and>
     wi_batchesProcessed i \<le> wi_batchesProcessed j \<and> wi_batchesFailedTotal i \<le> wi_batchesFailedTotal j \<and>
     wi_batchesRetriedTotal j + 1 = wi_batchesRetriedTotal i + k \<and>
     wi_batchProcessingDuration j = wi_batchProcessingDuration i + k"

text \<open>A batch is in the queue after an attempt exactly when the attempt counted nothing.\<close>

lemma attempt_counts:
  assumes "processBatchWithRetry env batch st = Some st'" "list_all keeps_shape (so_stages (env_so env))"
  shows "if map_of (bq_batches (os_queue st')) (ba_ID batch) = None then counted_once i 1 (observe_attempt env batch st i)
    else observe_attempt env batch st i = i\<lparr>wi_batchProcessingDuration := wi_batchProcessingDuration i + 1\<rparr>"
proof -
  obtain err b1 e1 c1 where p: "processBatch (env_so env) batch (os_engine st) (os_world st) = (err, b1, e1, c1)"
    by (metis prod.exhaust)
  have id: "ba_ID b1 = ba_ID batch" using processBatch_shape[OF p assms(2)] by (simp add: shape_def)
  have same: "os_queue st2 = os_queue st1" if "handlePermanentFailure env b n er st1 = Some st2" for b n er st1 st2
    using that by (auto simp: handlePermanentFailure_def Let_def split: prod.splits option.splits)
  show ?thesis
    using assms(1) id
    by (cases err) (auto simp: processBatchWithRetry_def observe_attempt_def p Let_def counted_once_def bq_Forget_def bq_NumRequeues_def
        bq_AddRateLimited_def map_of_put delete_conv' dest!: same split: if_splits)
qed

lemma settle_counts:
  assumes "list_all keeps_shape (so_stages (env_so env))" "settle env n batch st = Some (k, st')"
  shows "\<exists>j. settle_observed env n batch st i = Some (k, st', j) \<and> counted_once i k j"
  using assms(2)
proof (induction n arbitrary: batch st i k)
  case (Suc n)
  then obtain st1 where st1: "processBatchWithRetry env batch st = Some st1" by (auto split: option.splits)
  note a = attempt_counts[OF st1 assms(1), of i]
  show ?case
  proof (cases "map_of (bq_batches (os_queue st1)) (ba_ID batch)")
    case None
    with Suc.prems st1 a show ?thesis by (simp add: Let_def)
  next
    case (Some b)
    with Suc.prems st1 obtain k' where k: "k = Suc k'" "settle env n b st1 = Some (k', st')" by auto
    let ?i = "(observe_attempt env batch st i)\<lparr>wi_batchesRetriedTotal := wi_batchesRetriedTotal i + 1\<rparr>"
    obtain j where j: "settle_observed env n b st1 ?i = Some (k', st', j)" "counted_once ?i k' j" using Suc.IH[OF k(2)] by blast
    have "observe_attempt env batch st i = i\<lparr>wi_batchProcessingDuration := wi_batchProcessingDuration i + 1\<rparr>"
      using a Some by simp
    with j have "counted_once i k j" by (auto simp: counted_once_def k(1))
    moreover have "settle_observed env (Suc n) batch st i = Some (k, st', j)"
      using st1 Some j(1) a by (simp add: Let_def k(1))
    ultimately show ?thesis by blast
  qed
qed simp

text \<open>
  Every batch that is settled is counted exactly once, as processed or as failed; the counter of
  retries and the histogram of durations grow by the attempts, the first one not being a retry.
\<close>

theorem settled_counted_once:
  assumes "so_stages (env_so env) = stagingStages \<omega> cl" and "settle env n batch st = Some (k, st')"
  shows "\<exists>j. settle_observed env n batch st i = Some (k, st', j) \<and>
    wi_batchesProcessed j + wi_batchesFailedTotal j = wi_batchesProcessed i + wi_batchesFailedTotal i + 1 \<and>
    wi_batchesProcessed i \<le> wi_batchesProcessed j \<and> wi_batchesFailedTotal i \<le> wi_batchesFailedTotal j \<and>
    wi_batchesRetriedTotal j + 1 = wi_batchesRetriedTotal i + k \<and>
    wi_batchProcessingDuration j = wi_batchProcessingDuration i + k"
  using settle_counts[OF _ assms(2)] by (simp add: assms(1) stagingStages_keep_shape counted_once_def)

section \<open>The state syncer's\<close>

definition rebuild_observed ::
  "go_order \<Rightarrow> 'c InMemoryEngine \<Rightarrow> StateSyncer \<Rightarrow> 'c \<Rightarrow> work_instruments \<Rightarrow>
   (error option \<times> 'c InMemoryEngine \<times> StateSyncer \<times> 'c) \<times> work_instruments" where
  "rebuild_observed \<omega> e s c i =
     (let result = rebuild \<omega> e s c
      in (result, if fst result \<noteq> None then i\<lparr>wi_stateRebuildFailuresTotal := wi_stateRebuildFailuresTotal i + 1\<rparr>
                  else i\<lparr>wi_stateRebuildsTotal := wi_stateRebuildsTotal i + 1\<rparr>))"

text \<open>A replica is ready exactly when its counter of rebuilds has moved.\<close>

lemma ready_counted:
  assumes "rebuild_observed \<omega> e s c i = ((err, e', s', c'), j)" "HasSynced s \<longleftrightarrow> 0 < wi_stateRebuildsTotal i"
  shows "HasSynced s' \<longleftrightarrow> 0 < wi_stateRebuildsTotal j"
  using assms by (auto simp: rebuild_observed_def rebuild_def HasSynced_def Let_def split: prod.splits option.splits)

section \<open>Examples\<close>

text \<open>After the run that stalls, an event waits and the queue depth says zero.\<close>

lemma queue_depth_stale:
  "\<exists>s i. observed_run stall_run (collector_init 500 100, work_instruments_zero) = Some (s, i) \<and>
     length (ec_eventMap (cs_ec s)) = 1 \<and> wi_eventQueueDepth i = 0 \<and> wi_batchChannelBackpressure i = 1"
proof -
  have "map_option (\<lambda>(s, i). (length (ec_eventMap (cs_ec s)), wi_eventQueueDepth i, wi_batchChannelBackpressure i))
      (observed_run stall_run (collector_init 500 100, work_instruments_zero)) = Some (1, 0, 1)" by code_simp
  then show ?thesis by auto
qed

theorem collector_gauges_true_witness:
  "\<exists>s i. observed_run flushed (collector_init 500 100, work_instruments_zero) = Some (s, i) \<and>
     wi_eventsCollected i = length (cs_added s) \<and> length (wi_batchSize i) = 1"
proof -
  have "map_option (\<lambda>(s, i). (length (cs_received s), length (ec_batchReadyCh (cs_ec s)), wi_batchChannelBackpressure i))
      (observed_run flushed (collector_init 500 100, work_instruments_zero)) = Some (0, 1, 0)" by code_simp
  then obtain s i where "observed_run flushed (collector_init 500 100, work_instruments_zero) = Some (s, i)"
    "length (cs_received s) = 0" "length (ec_batchReadyCh (cs_ec s)) = 1" "wi_batchChannelBackpressure i = 0" by auto
  with collector_gauges_true[OF this(1)] show ?thesis by simp
qed

theorem settled_counted_once_witness:
  "\<exists>k st' j. settle_observed failing_env 4 access_batch failing_init work_instruments_zero = Some (k, st', j) \<and>
     wi_batchesProcessed j + wi_batchesFailedTotal j = 1"
proof -
  have "room (length (ba_Resources access_batch)) (os_collector failing_init)"
    "wq_NumRequeues counted_workqueue (ba_ID access_batch) (bq_queue (os_queue failing_init)) = 0" by code_simp+
  then obtain k st' where s: "settle failing_env 4 access_batch failing_init = Some (k, st')"
    using counted.settles[of failing_env 3 access_batch failing_init 4] by (auto simp: failing_wiring stagingStages_keep_shape)
  have stages: "so_stages (env_so failing_env) = stagingStages order_id server_client" by (simp add: failing_wiring)
  from settled_counted_once[OF stages s, of work_instruments_zero]
  obtain j where "settle_observed failing_env 4 access_batch failing_init work_instruments_zero = Some (k, st', j)"
    "wi_batchesProcessed j + wi_batchesFailedTotal j =
       wi_batchesProcessed work_instruments_zero + wi_batchesFailedTotal work_instruments_zero + 1" by blast
  then show ?thesis by (auto simp: work_instruments_zero_def)
qed

end
