(* ===== verification/ApiGroup.thy ===== *)
theory ApiGroup
  imports Engine
begin

text \<open>
  The registration of the API group: \<^verbatim>\<open>api/v1beta1/groupversion_info.go\<close>, the \<^verbatim>\<open>init\<close> functions of the two
  resource types, and the scheme that \<^verbatim>\<open>cmd/main.go\<close> hands to the manager. A scheme knows group, version
  and kind of Go types; the kind is the name of the type. Shown: owner references name the
  registered version and kind.
\<close>

datatype go_type =
    WorkloadServiceAccountType
  | WorkloadServiceAccountListType
  | ClusterWorkloadServiceAccountType
  | ClusterWorkloadServiceAccountListType
  | BuiltinType kind

fun type_name :: "go_type \<Rightarrow> string" where
  "type_name WorkloadServiceAccountType = ''WorkloadServiceAccount''"
| "type_name WorkloadServiceAccountListType = ''WorkloadServiceAccountList''"
| "type_name ClusterWorkloadServiceAccountType = ''ClusterWorkloadServiceAccount''"
| "type_name ClusterWorkloadServiceAccountListType = ''ClusterWorkloadServiceAccountList''"
| "type_name (BuiltinType _) = []"

record GroupVersion =
  gv_Group :: string
  gv_Version :: string

definition gv_String :: "GroupVersion \<Rightarrow> string" where
  "gv_String gv = (if gv_Group gv = [] then gv_Version gv else gv_Group gv @ ''/'' @ gv_Version gv)"

record scheme_Builder =
  sb_GroupVersion :: GroupVersion
  sb_types :: "go_type list"

definition SchemeGroupVersion :: GroupVersion where
  "SchemeGroupVersion = \<lparr>gv_Group = ''agent.octopus.com'', gv_Version = ''v1beta1''\<rparr>"

definition SchemeBuilder :: scheme_Builder where
  "SchemeBuilder = \<lparr>sb_GroupVersion = SchemeGroupVersion, sb_types = []\<rparr>"

definition Register :: "go_type list \<Rightarrow> scheme_Builder \<Rightarrow> scheme_Builder" where
  "Register ts b = b\<lparr>sb_types := sb_types b @ ts\<rparr>"

definition WorkloadServiceAccount_init :: "scheme_Builder \<Rightarrow> scheme_Builder" where
  "WorkloadServiceAccount_init = Register [WorkloadServiceAccountType, WorkloadServiceAccountListType]"

definition ClusterWorkloadServiceAccount_init :: "scheme_Builder \<Rightarrow> scheme_Builder" where
  "ClusterWorkloadServiceAccount_init = Register [ClusterWorkloadServiceAccountType, ClusterWorkloadServiceAccountListType]"

type_synonym type_registry = "go_type \<Rightarrow> (GroupVersion \<times> string) option"

definition AddToScheme :: "scheme_Builder \<Rightarrow> type_registry \<Rightarrow> type_registry" where
  "AddToScheme b known = (\<lambda>t. if t \<in> set (sb_types b) then Some (sb_GroupVersion b, type_name t) else known t)"

text \<open>
  The package is initialised file by file; then \<^verbatim>\<open>main\<close>'s \<^verbatim>\<open>init\<close> adds it to a scheme with the types of
  client-go, \<open>clientgo\<close>.
\<close>

definition main_scheme :: "type_registry \<Rightarrow> type_registry" where
  "main_scheme clientgo =
     AddToScheme (WorkloadServiceAccount_init (ClusterWorkloadServiceAccount_init SchemeBuilder)) clientgo"

text \<open>What \<^verbatim>\<open>apiutil.GVKForObject\<close> finds out about an object of a kind.\<close>

fun type_of_kind :: "kind \<Rightarrow> go_type" where
  "type_of_kind KWorkloadServiceAccount = WorkloadServiceAccountType"
| "type_of_kind KClusterWorkloadServiceAccount = ClusterWorkloadServiceAccountType"
| "type_of_kind k = BuiltinType k"

definition GVKForObject :: "type_registry \<Rightarrow> scheme" where
  "GVKForObject registry k = map_option (\<lambda>(gv, name). (gv_String gv, name)) (registry (type_of_kind k))"

lemma GVKForObject_main:
  "GVKForObject (main_scheme clientgo) KWorkloadServiceAccount =
     Some (''agent.octopus.com/v1beta1'', ''WorkloadServiceAccount'')"
  "GVKForObject (main_scheme clientgo) KClusterWorkloadServiceAccount =
     Some (''agent.octopus.com/v1beta1'', ''ClusterWorkloadServiceAccount'')"
  by (simp_all add: GVKForObject_def main_scheme_def AddToScheme_def WorkloadServiceAccount_init_def
      ClusterWorkloadServiceAccount_init_def Register_def SchemeBuilder_def SchemeGroupVersion_def gv_String_def)

text \<open>Accounts, roles and bindings of a resource are owned by exactly this object.\<close>

lemma owner_reference:
  "ownerReferenceAC (NewResourceManagementServiceWithScheme cl (GVKForObject (main_scheme clientgo))) res =
     Some \<lparr>or_APIVersion = ''agent.octopus.com/v1beta1'',
       or_Kind = (if IsClusterScoped res then ''ClusterWorkloadServiceAccount'' else ''WorkloadServiceAccount''),
       or_Name = GetName res, or_UID = om_UID (case GetOwnerObject res of Inl w \<Rightarrow> wsaMeta w | Inr c \<Rightarrow> cwsaMeta c),
       or_Controller = True, or_BlockOwnerDeletion = True\<rparr>"
  by (cases res) (simp_all add: ownerReferenceAC_def NewResourceManagementServiceWithScheme_def GVKForObject_main)

text \<open>The scheme of the examples is the program's, as far as the group is concerned.\<close>

lemma example_scheme_main: "example_scheme = GVKForObject (main_scheme (\<lambda>t. None))"
proof
  fix k
  show "example_scheme k = GVKForObject (main_scheme (\<lambda>t. None)) k"
    by (cases k) (simp_all add: example_scheme_def GVKForObject_main, simp_all add: GVKForObject_def main_scheme_def AddToScheme_def
      WorkloadServiceAccount_init_def ClusterWorkloadServiceAccount_init_def Register_def SchemeBuilder_def)
qed

end
