(* ===== verification/Race.thy ===== *)
theory Race
  imports Guarantees
begin

text \<open>
  \<^verbatim>\<open>StageOrchestrator.Start\<close> (\<^verbatim>\<open>internal/reconciliation/orchestrator.go\<close>) processes new batches in its own
  loop and retried ones in the goroutine of \<^verbatim>\<open>processRetryQueue\<close>, and nothing keeps two batches apart: their stages
  may alternate on one engine and one cluster. Shown: a batch that runs undisturbed runs as
  \<^verbatim>\<open>processBatch\<close> does, for which the theorems of \<open>Guarantees\<close> hold; a batch
  that had planned before others changed the cluster puts accounts and engine back to its plan.
\<close>

section \<open>Two goroutines at the stages\<close>

text \<open>
  A goroutine inside \<^verbatim>\<open>processBatch\<close>: the stages that it has yet to run, the stage that failed, and
  the result once it has returned. A turn is one iteration of its loop or the code behind the loop.
\<close>

record 'c worker =
  wk_batch :: Batch
  wk_stages :: "'c Stage list"
  wk_failure :: "(string \<times> error) option"
  wk_result :: "error option option"

definition start_worker :: "'c StageOrchestrator \<Rightarrow> Batch \<Rightarrow> 'c worker" where
  "start_worker so batch = \<lparr>wk_batch = batch, wk_stages = so_stages so, wk_failure = None,
     wk_result = (if ba_Resources batch = [] then Some None else None)\<rparr>"

text \<open>What \<^verbatim>\<open>processBatch\<close> does after the loop over the stages.\<close>

definition finish_batch ::
  "'c StageOrchestrator \<Rightarrow> (string \<times> error) option \<Rightarrow> Batch \<Rightarrow> 'c \<Rightarrow> error option \<times> Batch \<times> 'c" where
  "finish_batch so failure batch1 c1 =
     (case updateFinalConditions so failure batch1 c1 of
        (batch2, c2) \<Rightarrow>
          (case failure of
             Some (failedStage, stageErr) \<Rightarrow>
               (Some (Errorf (''stage '' @ failedStage @ '' failed'') (Some stageErr)), batch2, c2)
           | None \<Rightarrow>
               (let c3 = emitReconcileEvents so batch2 c2
                in (None, batch2, if ba_RequeueAfter batch2 > 0 then so_AfterFunc so (ba_RequeueAfter batch2) c3 else c3))))"

definition worker_turn ::
  "'c StageOrchestrator \<Rightarrow> 'c worker \<Rightarrow> 'c InMemoryEngine \<Rightarrow> 'c \<Rightarrow> 'c worker \<times> 'c InMemoryEngine \<times> 'c" where
  "worker_turn so w e c =
     (case wk_result w of
        Some _ \<Rightarrow> (w, e, c)
      | None \<Rightarrow>
          (case wk_stages w of
             [] \<Rightarrow>
               (case finish_batch so (wk_failure w) (wk_batch w) c of
                  (err, batch', c') \<Rightarrow> (w\<lparr>wk_batch := batch', wk_result := Some err\<rparr>, e, c'))
           | stage # stages \<Rightarrow>
               (case runStages so [stage] (wk_batch w) e c of
                  (failure, batch', e', c') \<Rightarrow>
                    (w\<lparr>wk_batch := batch', wk_stages := (if failure = None then stages else []), wk_failure := failure\<rparr>, e', c'))))"

datatype 'c turn =
    Loop                     \<comment> \<open>the loop of \<open>Start\<close>\<close>
  | Retry                    \<comment> \<open>the loop of \<open>processRetryQueue\<close>\<close>
  | World "'c \<Rightarrow> 'c"         \<comment> \<open>somebody else\<close>

fun interleaved ::
  "'c StageOrchestrator \<Rightarrow> 'c turn list \<Rightarrow> 'c worker \<times> 'c worker \<times> 'c InMemoryEngine \<times> 'c \<Rightarrow>
   'c worker \<times> 'c worker \<times> 'c InMemoryEngine \<times> 'c" where
  "interleaved so [] st = st"
| "interleaved so (Loop # turns) (w1, w2, e, c) =
     (case worker_turn so w1 e c of (w1', e', c') \<Rightarrow> interleaved so turns (w1', w2, e', c'))"
| "interleaved so (Retry # turns) (w1, w2, e, c) =
     (case worker_turn so w2 e c of (w2', e', c') \<Rightarrow> interleaved so turns (w1, w2', e', c'))"
| "interleaved so (World f # turns) (w1, w2, e, c) = interleaved so turns (w1, w2, e, f c)"

section \<open>Undisturbed batches\<close>

lemma runStages_first:
  assumes "runStages so [stage] batch e c = (failure, batch', e', c')"
  shows "runStages so (stage # stages) batch e c =
    (if failure = None then runStages so stages batch' e' c' else (failure, batch', e', c'))"
  using assms by (auto simp: Let_def split: prod.splits option.splits)

lemma processBatch_finish:
  assumes "ba_Resources batch \<noteq> []" "runStages so (so_stages so) batch e c = (failure, batch1, e1, c1)"
    "finish_batch so failure batch1 c1 = (err, batch2, c2)"
  shows "processBatch so batch e c = (err, batch2, e1, c2)"
  using assms by (auto simp: processBatch_def finish_batch_def Let_def split: prod.splits option.splits)

lemma worker_idle: "wk_result w \<noteq> None \<Longrightarrow> worker_turn so w e c = (w, e, c)"
  by (auto simp: worker_turn_def)

lemma idle_turns: "wk_result w \<noteq> None \<Longrightarrow> interleaved so (replicate n Loop) (w, w2, e, c) = (w, w2, e, c)"
  by (induction n) (simp_all add: worker_idle)

lemma worker_runs:
  assumes "wk_result w = None" "wk_failure w = None" "runStages so (wk_stages w) (wk_batch w) e c = (failure, batch1, e1, c1)"
    "finish_batch so failure batch1 c1 = (err, batch2, c2)" "length (wk_stages w) < n"
  shows "\<exists>w'. interleaved so (replicate n Loop) (w, w2, e, c) = (w', w2, e1, c2) \<and> wk_batch w' = batch2 \<and> wk_result w' = Some err"
  using assms
proof (induction n arbitrary: w e c)
  case (Suc n)
  show ?case
  proof (cases "wk_stages w")
    case Nil
    with Suc.prems have "worker_turn so w e c = (w\<lparr>wk_batch := batch2, wk_result := Some err\<rparr>, e1, c2)"
      by (simp add: worker_turn_def)
    with idle_turns[of "w\<lparr>wk_batch := batch2, wk_result := Some err\<rparr>" so n w2 e1 c2] show ?thesis by simp
  next
    case (Cons stage stages)
    obtain f b e' c' where r: "runStages so [stage] (wk_batch w) e c = (f, b, e', c')" by (metis prod.exhaust)
    let ?w = "w\<lparr>wk_batch := b, wk_stages := (if f = None then stages else []), wk_failure := f\<rparr>"
    have turn: "worker_turn so w e c = (?w, e', c')"
      using Suc.prems(1) Cons r by (simp add: worker_turn_def)
    note all = Suc.prems(3)[unfolded Cons runStages_first[OF r]]
    show ?thesis
    proof (cases f)
      case None
      then have "runStages so (wk_stages ?w) (wk_batch ?w) e' c' = (failure, batch1, e1, c1)" using all by simp
      moreover have "length (wk_stages ?w) < n" using Suc.prems(5) Cons None by simp
      ultimately obtain w' where "interleaved so (replicate n Loop) (?w, w2, e', c') = (w', w2, e1, c2)" "wk_batch w' = batch2"
        "wk_result w' = Some err"
        using Suc.IH[of ?w e' c'] Suc.prems(1,4) None by auto
      with turn show ?thesis by simp
    next
      case (Some x)
      with all have f: "failure = f" "batch1 = b" "e1 = e'" "c1 = c'" by simp_all
      with Suc.prems(1,4) Some have "worker_turn so ?w e' c' = (?w\<lparr>wk_batch := batch2, wk_result := Some err\<rparr>, e1, c2)"
        by (simp add: worker_turn_def)
      moreover obtain m where "n = Suc m" using Suc.prems(5) Cons by (cases n) auto
      ultimately show ?thesis using turn idle_turns[of "?w\<lparr>wk_batch := batch2, wk_result := Some err\<rparr>" so m w2 e1 c2] by simp
    qed
  qed
qed simp

text \<open>
  A goroutine that is not disturbed does what the model of one batch says: when its turns follow each
  other, batch, result, engine and cluster are those of \<open>processBatch\<close>, and the other goroutine
  is where it was; so the guarantees of a batch hold for it.
\<close>

theorem undisturbed_batch:
  assumes "processBatch so batch e c = (err, batch', e', c')" and "length (so_stages so) < n"
  shows "\<exists>w'. interleaved so (replicate n Loop) (start_worker so batch, w2, e, c) = (w', w2, e', c') \<and>
    wk_batch w' = batch' \<and> wk_result w' = Some err"
proof (cases "ba_Resources batch = []")
  case True
  with assms(1) have "err = None" "batch' = batch" "e' = e" "c' = c" by (simp_all add: processBatch_def)
  with True idle_turns[of "start_worker so batch" so n w2 e c] show ?thesis by (simp add: start_worker_def)
next
  case False
  obtain failure b1 e1 c1 where r: "runStages so (so_stages so) batch e c = (failure, b1, e1, c1)" by (metis prod.exhaust)
  obtain err2 b2 c2 where f: "finish_batch so failure b1 c1 = (err2, b2, c2)" by (metis prod.exhaust)
  from processBatch_finish[OF False r f] assms(1) have "err2 = err" "b2 = batch'" "e1 = e'" "c2 = c'" by simp_all
  with False worker_runs[of "start_worker so batch" so e c failure b1 e1 c1 err2 b2 c2 n w2] r f assms(2)
  show ?thesis by (simp add: start_worker_def)
qed

section \<open>Old plans\<close>

text \<open>The stages write the engine's maps only, so the resource management service stays.\<close>

lemma stage_service:
  assumes "stage \<in> set (stagingStages \<omega> cl)" "runStages so [stage] batch e c = (failure, batch', e', c')"
  shows "e_service e' = e_service e"
  using assms
  by (auto simp: stagingStages_def planning_stage_def validation_stage_def execution_stage_def ExecutionStage_Execute_def
      ApplyBatchPlan_def Let_def split: prod.splits option.splits if_splits)

lemma worker_service:
  assumes "worker_turn so w e c = (w', e', c')" "set (wk_stages w) \<subseteq> set (stagingStages \<omega> cl)"
  shows "e_service e' = e_service e \<and> set (wk_stages w') \<subseteq> set (stagingStages \<omega> cl)"
  using assms stage_service by (auto simp: worker_turn_def split: option.splits list.splits prod.splits if_splits)

lemma other_turns:
  assumes "Retry \<notin> set others" "set (wk_stages w1) \<subseteq> set (stagingStages \<omega> cl)"
  shows "\<exists>w1' e' c'. interleaved so (others @ turns) (w1, w, e, c) = interleaved so turns (w1', w, e', c') \<and>
    e_service e' = e_service e"
  using assms
proof (induction others arbitrary: w1 e c)
  case (Cons t others)
  show ?case
  proof (cases t)
    case Loop
    obtain w1' e' c' where t: "worker_turn so w1 e c = (w1', e', c')" by (metis prod.exhaust)
    from worker_service[OF t Cons.prems(2)] Cons.IH[of w1' e' c'] Cons.prems(1) Loop t show ?thesis by auto
  qed (use Cons in auto)
qed auto

context pipeline
begin

lemma worker_stage:
  assumes "wk_result w = None" "wk_stages w = stage # stages" "worker_turn so w e0 c0 = (w', e1, c1)"
  obtains b d err b' d' where "map_option plan_core (ba_Plan b) = map_option plan_core (ba_Plan (wk_batch w))"
    "same_cluster (view c0) (view d)" "stg_Execute stage b e0 d = (err, b', e1, d')" "same_cluster (view d') (view c1)"
    "map_option plan_core (ba_Plan (wk_batch w')) = map_option plan_core (ba_Plan b')"
    "wk_result w' = None" "wk_stages w' = (if err = None then stages else [])" "wk_failure w' = None \<longleftrightarrow> err = None"
proof -
  obtain failure b3 e3 c3 where r: "runStages so [stage] (wk_batch w) e0 c0 = (failure, b3, e3, c3)" by (metis prod.exhaust)
  have w': "w' = w\<lparr>wk_batch := b3, wk_stages := (if failure = None then stages else []), wk_failure := failure\<rparr>"
    "e3 = e1" "c3 = c1" using assms r by (simp_all add: worker_turn_def)
  from r show ?thesis
  proof (rule stage_turn)
    fix b d err b' e2 d' b2 d2
    assume t: "reported (wk_batch w, c0) (b, d)" "stg_Execute stage b e0 d = (err, b', e2, d')" "reported (b', d') (b2, d2)"
      "if err = None then runStages so [] b2 e2 d2 = (failure, b3, e3, c3) else failure \<noteq> None \<and> b2 = b3 \<and> d2 = c3 \<and> e2 = e3"
    then have "b2 = b3" "d2 = c1" "e2 = e1" "failure = None \<longleftrightarrow> err = None" using w'(2,3) by (auto split: if_splits)
    with t show ?thesis using that[of b d err b' d'] assms(1) by (simp add: reported_def w'(1))
  qed
qed

lemma worker_end:
  assumes "wk_result w = None" "wk_stages w = []" "worker_turn so w e0 c0 = (w', e1, c1)"
  shows "e1 = e0" "same_cluster (view c0) (view c1)" "wk_result w' \<noteq> None" "wk_result w' = Some None \<longleftrightarrow> wk_failure w = None"
proof -
  obtain b2 c2 where u: "updateFinalConditions so (wk_failure w) (wk_batch w) c0 = (b2, c2)" by fastforce
  have "reported (wk_batch w, c0) (b2, c2)"
    using u reported_conditions by (auto simp: updateFinalConditions_def split: option.splits) (metis, metis)
  then have "same_cluster (view c0) (view c2)" by (simp add: reported_def)
  moreover have "view c1 = view c2"
    using assms u by (auto simp: worker_turn_def finish_batch_def Let_def emitReconcileEvents_frame after_frame split: option.splits)
  ultimately show "same_cluster (view c0) (view c1)" by simp
  show "e1 = e0" "wk_result w' \<noteq> None" "wk_result w' = Some None \<longleftrightarrow> wk_failure w = None"
    using assms u by (auto simp: worker_turn_def finish_batch_def Let_def split: option.splits)
qed

text \<open>A worker that was past its planning ends well only by executing the plan that it had.\<close>

lemma planned_worker_executes:
  assumes "wk_result w = None" "wk_stages w = [validation_stage cl, execution_stage \<omega>]"
    and "interleaved so [Retry, Retry, Retry] (w1, w, e0, c0) = (w1', w', e', c')" "wk_result w' = Some None"
  obtains b d d' where "map_option plan_core (ba_Plan b) = map_option plan_core (ba_Plan (wk_batch w))"
    "ExecutionStage_Execute \<omega> e0 b d = (None, e', d')" "same_cluster (view d') (view c')"
proof -
  obtain wa ea ca where a: "worker_turn so w e0 c0 = (wa, ea, ca)" by (metis prod.exhaust)
  obtain wb eb cb where b: "worker_turn so wa ea ca = (wb, eb, cb)" by (metis prod.exhaust)
  have c: "worker_turn so wb eb cb = (w', e', c')" using assms(3) a b by (auto split: prod.splits)
  have failed: "wk_result y \<noteq> None \<and> wk_result y \<noteq> Some None"
    if "wk_result x = None" "wk_stages x = []" "wk_failure x \<noteq> None" "worker_turn so x ex cx = (y, ey, cy)" for x ex cx y ey cy
    using worker_end(3,4)[OF that(1,2,4)] that(3) by simp
  from assms(1,2) a show ?thesis
  proof (rule worker_stage)
    fix b1 d1 err b1' d1'
    assume 1: "map_option plan_core (ba_Plan b1) = map_option plan_core (ba_Plan (wk_batch w))"
      "stg_Execute (validation_stage cl) b1 e0 d1 = (err, b1', ea, d1')"
      "map_option plan_core (ba_Plan (wk_batch wa)) = map_option plan_core (ba_Plan b1')"
      "wk_result wa = None" "wk_stages wa = (if err = None then [execution_stage \<omega>] else [])" "wk_failure wa = None \<longleftrightarrow> err = None"
    have v: "ea = e0" "ba_Plan b1' = ba_Plan b1"
      using 1(2) by (auto simp: validation_stage_def ValidationStage_Execute_def Let_def split: prod.splits option.splits if_splits)
    have "err = None"
    proof (rule ccontr)
      assume "err \<noteq> None"
      with 1 have "wk_result wb \<noteq> None \<and> wk_result wb \<noteq> Some None" using failed[OF _ _ _ b] by simp
      with worker_idle[of wb so eb cb] c assms(4) show False by simp
    qed
    with 1(5) have "wk_stages wa = [execution_stage \<omega>]" by simp
    from 1(4) this b show ?thesis
    proof (rule worker_stage)
      fix b2 d2 err2 b2' d2'
      assume 2: "map_option plan_core (ba_Plan b2) = map_option plan_core (ba_Plan (wk_batch wa))"
        "stg_Execute (execution_stage \<omega>) b2 ea d2 = (err2, b2', eb, d2')" "same_cluster (view d2') (view cb)"
        "wk_result wb = None" "wk_stages wb = (if err2 = None then [] else [])" "wk_failure wb = None \<longleftrightarrow> err2 = None"
      have wb: "wk_stages wb = []" using 2(5) by simp
      note fin = worker_end[OF 2(4) wb c]
      have "err2 = None" using fin(4) assms(4) 2(6) by simp
      then have "ExecutionStage_Execute \<omega> e0 b2 d2 = (None, e', d2')"
        using 2(2) v(1) fin(1) by (auto simp: execution_stage_def split: prod.splits)
      moreover have "same_cluster (view d2') (view c')" using 2(3) fin(2) by (rule same_cluster_trans)
      moreover have "map_option plan_core (ba_Plan b2) = map_option plan_core (ba_Plan (wk_batch w))"
        by (simp only: 2(1) 1(3) v(2) 1(1))
      ultimately show ?thesis using that by blast
    qed
  qed
qed

lemma planning_turn:
  assumes "ba_Resources batch \<noteq> []" "worker_turn so (start_worker so batch) e c = (w, e1, c1)" "wk_failure w = None"
  obtains d rs nss where "same_cluster (view c) (view d)" "set rs = cluster_resources (view d)" "e1 = e"
    "map_option plan_core (ba_Plan (wk_batch w)) = Some (plan_core (planFor \<omega> rs nss))" "wk_result w = None"
    "wk_stages w = [validation_stage (e_client e), execution_stage \<omega>]"
proof -
  have start: "wk_result (start_worker so batch) = None"
    "wk_stages (start_worker so batch) = planning_stage \<omega> # [validation_stage (e_client e), execution_stage \<omega>]"
    using assms(1) by (simp_all add: start_worker_def the_stages stagingStages_def)
  from start assms(2) show ?thesis
  proof (rule worker_stage)
    fix b d err b' d'
    assume t: "same_cluster (view c) (view d)" "stg_Execute (planning_stage \<omega>) b e d = (err, b', e1, d')"
      "map_option plan_core (ba_Plan (wk_batch w)) = map_option plan_core (ba_Plan b')" "wk_result w = None"
      "wk_stages w = (if err = None then [validation_stage (e_client e), execution_stage \<omega>] else [])"
      "wk_failure w = None \<longleftrightarrow> err = None"
    then have "PlanningStage_Execute \<omega> e b d = (None, b', d')" "e1 = e"
      using assms(3) by (auto simp: planning_stage_def split: prod.splits)
    then show ?thesis using t assms(3) by (elim planning_ok) (rule that[of d], auto)
  qed
qed

text \<open>What an executed plan leaves behind follows from its core.\<close>

lemma plan_published:
  assumes "map_option plan_core (ba_Plan b) = Some (plan_core (planFor \<omega> rs nss))"
    and "ExecutionStage_Execute \<omega> e0 b d = (None, e', d')" "e_service e0 = e_service e"
  shows "engine_GetServiceAccountForScope e' p = GetServiceAccountForScope (resolver \<omega> rs) p"
    and "view d' i = Some (OServiceAccount sa) \<Longrightarrow> managed (OServiceAccount sa) \<Longrightarrow> \<not> terminating (OServiceAccount sa) \<Longrightarrow>
      \<exists>s. covering rs s \<noteq> {} \<and> om_Name (sa_Meta sa) = account_of \<omega> rs s"
proof -
  from assms(2) obtain plan c1 where p: "ba_Plan b = Some plan"
    "garbageCollect e0 plan (pl_AllResources plan) (pl_TargetNamespaces plan) c1 = (None, d')"
    "ApplyBatchPlan (plan_as_BatchPlan plan) e0 = (None, e')" by (rule ExecutionStage_ok)
  have core: "pl_ScopeToSA plan = scopeToSA_of \<omega> (scopeMap_of \<omega> rs)" "pl_Vocabulary plan = Some (vocab_of rs)"
    "pl_UniqueAccounts plan = accounts_of \<omega> (scopeMap_of \<omega> rs)"
    using assms(1) p(1) by (simp_all add: plan_core_def)
  have "e_ScopeComputation e' = NewScopeComputationService (vocab_of rs) (scopeToSA_of \<omega> (scopeMap_of \<omega> rs))"
    using p(3) core by (auto simp: ApplyBatchPlan_def plan_as_BatchPlan_def Let_def)
  then show "engine_GetServiceAccountForScope e' p = GetServiceAccountForScope (resolver \<omega> rs) p"
    by (simp add: engine_GetServiceAccountForScope_def ComputeScopes_snd)
  assume sa: "view d' i = Some (OServiceAccount sa)" "managed (OServiceAccount sa)" "\<not> terminating (OServiceAccount sa)"
  have "expected plan (OServiceAccount sa)" by (rule rm.garbageCollect_complete[OF p(2) assms(3) sa])
  then have "om_Name (sa_Meta sa) \<in> groupName \<omega> ` set (groupList \<omega> (scopeMap_of \<omega> rs))"
    unfolding names_accounts_of(1)[OF order, symmetric] by (simp add: expected_def core)
  then obtain s where "s \<in> dom (map_of (scopeMap_of \<omega> rs))" "om_Name (sa_Meta sa) = account_of \<omega> rs s"
    unfolding groupList_group_of[OF order] account_of_def by blast
  then show "\<exists>s. covering rs s \<noteq> {} \<and> om_Name (sa_Meta sa) = account_of \<omega> rs s"
    using scopeMap_dom[OF order] by blast
qed

text \<open>A scope that is covered is its own known combination, so it is asked for as it stands.\<close>

lemma covered_scope_known:
  assumes "covering rs s \<noteq> {}"
  shows "GetKnownScopeCombination (vocab_of rs) s = s"
proof (rule scope_eqI)
  fix d assume d: "d < MaxDimensionIndex"
  from assms obtain r where "r \<in> set rs" "covers (vocab_of rs) r s" by (auto simp: covering_def)
  from covers_dim(1)[OF this(2,1) d] known_dim[OF d, of "vocab_of rs" s]
  show "scope_dims (GetKnownScopeCombination (vocab_of rs) s) ! d = scope_dims s ! d" by auto
qed

lemma same_matches:
  assumes "same_cluster (view c) (view d)" "set rs = cluster_resources (view d)"
    and "\<forall>r \<in> cluster_resources (view c). no_wildcard [r]"
  shows "no_wildcard rs" and "(\<exists>r \<in> set rs. wsa_matches r p) \<longleftrightarrow> (\<exists>r \<in> cluster_resources (view c). wsa_matches r p)"
proof -
  have origin: "\<exists>r' \<in> cluster_resources (view c). same_spec r r'" if "r \<in> set rs" for r
    using same_resources[OF same_cluster_sym[OF assms(1)]] that assms(2) by blast
  show "no_wildcard rs"
    using assms(3) origin same_spec_fields(4) by (simp add: no_wildcard_def scopeSlices_def) metis
  show "(\<exists>r \<in> set rs. wsa_matches r p) \<longleftrightarrow> (\<exists>r \<in> cluster_resources (view c). wsa_matches r p)"
    using origin same_resources[OF assms(1)] same_spec_derived(4) unfolding assms(2)[symmetric] by blast
qed

lemma old_plan_wins:
  assumes "ba_Resources batch \<noteq> []" "worker_turn so (start_worker so batch) e c = (w, e1, c1)" "wk_failure w = None"
    and "set (wk_stages w1) \<subseteq> set (so_stages so)" "Retry \<notin> set others"
    and "interleaved so (others @ [Retry, Retry, Retry]) (w1, w, e1, c1) = (w1', w', e', c')" "wk_result w' = Some None"
    and wild: "\<forall>r \<in> cluster_resources (view c). no_wildcard [r]"
  shows "fst (engine_GetServiceAccountForScope e' p) \<noteq> [] \<longleftrightarrow> (\<exists>r \<in> cluster_resources (view c). wsa_matches r p)"
    and "view c' i = Some (OServiceAccount sa) \<Longrightarrow> managed (OServiceAccount sa) \<Longrightarrow> \<not> terminating (OServiceAccount sa) \<Longrightarrow>
      \<exists>p. engine_GetServiceAccountForScope e' p = (om_Name (sa_Meta sa), None) \<and>
          (\<exists>r \<in> cluster_resources (view c). wsa_matches r p)"
proof -
  from assms(1-3) obtain d rs nss where planned: "same_cluster (view c) (view d)" "set rs = cluster_resources (view d)" "e1 = e"
    "map_option plan_core (ba_Plan (wk_batch w)) = Some (plan_core (planFor \<omega> rs nss))" "wk_result w = None"
    "wk_stages w = [validation_stage (e_client e), execution_stage \<omega>]" by (rule planning_turn)
  obtain w1s e0 c0 where served: "interleaved so [Retry, Retry, Retry] (w1s, w, e0, c0) = (w1', w', e', c')"
    "e_service e0 = e_service e"
    using other_turns[OF assms(5) assms(4)[unfolded the_stages], of so "[Retry, Retry, Retry]" w e1 c1] assms(6) planned(3) by metis
  from planned(5,6) served(1) assms(7) obtain b b1 b2 where run: "map_option plan_core (ba_Plan b) = map_option plan_core (ba_Plan (wk_batch w))"
    "ExecutionStage_Execute \<omega> e0 b b1 = (None, e', b2)" "same_cluster (view b2) (view c')" by (rule planned_worker_executes)
  note pub = plan_published[OF run(1)[unfolded planned(4)] run(2) served(2)]
  note m = same_matches[OF planned(1,2) wild]
  have answer: "fst (engine_GetServiceAccountForScope e' p) \<noteq> [] \<longleftrightarrow> (\<exists>r \<in> cluster_resources (view c). wsa_matches r p)" for p
    unfolding pub(1) by (simp add: resolver_eq[OF order m(1)] m(2))
  then show "fst (engine_GetServiceAccountForScope e' p) \<noteq> [] \<longleftrightarrow> (\<exists>r \<in> cluster_resources (view c). wsa_matches r p)" .
  assume sa: "view c' i = Some (OServiceAccount sa)" "managed (OServiceAccount sa)" "\<not> terminating (OServiceAccount sa)"
  have "view b2 i = view c' i"
    using same_cluster_other[OF run(3) view_id view_id] view_id[OF sa(1)] by fastforce
  then obtain s where s: "covering rs s \<noteq> {}" "om_Name (sa_Meta sa) = account_of \<omega> rs s" using pub(2)[of i sa] sa by auto
  have "engine_GetServiceAccountForScope e' s = (account_of \<omega> rs s, None)"
    unfolding pub(1) ComputeScopes_snd GetServiceAccountForScope_eq[OF order] covered_scope_known[OF s(1)] using s(1) by (simp add: Let_def)
  with s(2) answer[of s] show "\<exists>p. engine_GetServiceAccountForScope e' p = (om_Name (sa_Meta sa), None) \<and>
      (\<exists>r \<in> cluster_resources (view c). wsa_matches r p)" by auto
qed

end

text \<open>
  C26. An old plan wins: when a batch has planned, and ends well with the three turns that it has left after
  whatever the other goroutine and the world did in between (the other one may have processed the batch of
  a change meanwhile), the engine answers the deployments that matched the resources at the time of the planning,
  and no others; and each managed account in the cluster that is not being deleted is the answer to a scope that such
  a resource matches, so accounts made in between for others are gone. (The resources at the planning do not use
  the wildcard mark as a value; nothing is asked of those that came later.)
\<close>

theorem stale_plan_wins:
  assumes "pipeline e view so \<omega>" and "ba_Resources batch \<noteq> []"
    and "worker_turn so (start_worker so batch) e c = (w, e1, c1)" and "wk_failure w = None"
    and "set (wk_stages w1) \<subseteq> set (so_stages so)" and "Retry \<notin> set others"
    and "interleaved so (others @ [Retry, Retry, Retry]) (w1, w, e1, c1) = (w1', w', e', c')" and "wk_result w' = Some None"
    and "\<forall>r \<in> cluster_resources (view c). no_wildcard [r]"
  shows "(\<forall>p. fst (engine_GetServiceAccountForScope e' p) \<noteq> [] \<longleftrightarrow> (\<exists>r \<in> cluster_resources (view c). wsa_matches r p)) \<and>
    (\<forall>i sa. view c' i = Some (OServiceAccount sa) \<longrightarrow> managed (OServiceAccount sa) \<longrightarrow> \<not> terminating (OServiceAccount sa) \<longrightarrow>
       (\<exists>p. engine_GetServiceAccountForScope e' p = (om_Name (sa_Meta sa), None) \<and>
          (\<exists>r \<in> cluster_resources (view c). wsa_matches r p)))"
  using pipeline.old_plan_wins[OF assms] by blast

section \<open>The race\<close>

text \<open>
  A batch fails in planning, because a list request times out, and is taken up again by the retry loop. When it
  has planned, the user moves the resource from project \<^verbatim>\<open>p1\<close> to \<^verbatim>\<open>p2\<close>, and the batch of that
  change is processed. Then the retried batch goes on with its plan.
\<close>

definition edited_wsa :: WorkloadServiceAccount where
  "edited_wsa = access_wsa\<lparr>wsaSpec := (wsaSpec access_wsa)\<lparr>wsaScope := scope_of [''p2''] []\<rparr>\<rparr>"

definition edited_batch :: Batch where
  "edited_batch = NewBatch ''b2'' 0 [NewCreateOrUpdateEventInfo 0 (NewWSAResource edited_wsa)]"

definition first_attempt :: "error option \<times> Batch \<times> server InMemoryEngine \<times> server" where
  "first_attempt = processBatch (example_orchestrator order_id) access_batch access_engine
     (access_server\<lparr>srv_faults := [Proceed, Proceed, Refuse ''timeout'']\<rparr>)"

definition race_start :: "server worker \<times> server worker \<times> server InMemoryEngine \<times> server" where
  "race_start = (case first_attempt of (err, batch, e, c) \<Rightarrow>
     (start_worker (example_orchestrator order_id) edited_batch,
      start_worker (example_orchestrator order_id) (batch\<lparr>ba_LastError := err\<rparr>), e, c))"

definition race :: "server turn list \<Rightarrow> server worker \<times> server worker \<times> server InMemoryEngine \<times> server" where
  "race turns = interleaved (example_orchestrator order_id) turns race_start"

definition race_served :: "server turn list" where
  "race_served = [Retry, World (store_object (OWorkloadServiceAccount edited_wsa)), Loop, Loop, Loop, Loop]"

definition race_over :: "server turn list" where
  "race_over = race_served @ [Retry, Retry, Retry]"

definition worker_results ::
  "'c worker \<times> 'c worker \<times> 'c InMemoryEngine \<times> 'c \<Rightarrow> error option option \<times> error option option" where
  "worker_results st = (case st of (w1, w2, e, c) \<Rightarrow> (wk_result w1, wk_result w2))"

text \<open>
  What the webhook is told for deployments of a project, the account that is made for a project, whether it is
  in the cluster, and the projects of the stored resource.
\<close>

definition answers :: "'c worker \<times> 'c worker \<times> 'c InMemoryEngine \<times> 'c \<Rightarrow> string \<Rightarrow> ServiceAccountName" where
  "answers st project =
     (case st of (w1, w2, e, c) \<Rightarrow> fst (engine_GetServiceAccountForScope e (deployment project ''prod'')))"

definition account_of :: "string \<Rightarrow> ServiceAccountName" where
  "account_of project = generateGroupedServiceAccountName (collectDimensionValues order_id [deployment project []])"

definition exists_account :: "server worker \<times> server worker \<times> server InMemoryEngine \<times> server \<Rightarrow> string \<Rightarrow> bool" where
  "exists_account st project =
     (case st of (w1, w2, e, c) \<Rightarrow> server_view c (KServiceAccount, key ''team'' (account_of project)) \<noteq> None)"

definition stored_projects :: "server worker \<times> server worker \<times> server InMemoryEngine \<times> server \<Rightarrow> string list" where
  "stored_projects st =
     (case st of (w1, w2, e, c) \<Rightarrow>
        (case server_view c (KWorkloadServiceAccount, key ''team'' ''a'') of
           Some (OWorkloadServiceAccount w) \<Rightarrow> Projects (wsaScope (wsaSpec w))
         | _ \<Rightarrow> []))"

lemma edit_served:
  "(let st = race race_served
    in (worker_results st, answers st ''p1'', answers st ''p2'' = account_of ''p2'', exists_account st ''p2'')) =
   ((Some None, None), [], True, True)"
  by code_simp

lemma edit_undone:
  "(let st = race race_over
    in (worker_results st, stored_projects st, answers st ''p1'' = account_of ''p1'', answers st ''p2'',
        exists_account st ''p1'', exists_account st ''p2'')) =
   ((Some None, Some None), [''p2''], True, [], True, False)"
  by code_simp

lemma first_attempt_fails: "fst first_attempt \<noteq> None"
  by code_simp

text \<open>
  A whole run, beginning with the attempt that fails: the batch of the change succeeds and gives \<open>p2\<close> its account;
  then the retried batch, planned just before the change, succeeds too: the account of \<open>p2\<close> goes from the
  cluster and from the answers of the engine, and \<open>p1\<close> has its account back, though the stored resource names
  \<open>p2\<close> only. No batch is left to repair it.
\<close>

theorem stale_plan_undoes_change:
  "let before = race race_served; after = race race_over
   in fst first_attempt \<noteq> None \<and>
      worker_results before = (Some None, None) \<and> answers before ''p1'' = [] \<and>
      answers before ''p2'' = account_of ''p2'' \<and> exists_account before ''p2'' \<and>
      worker_results after = (Some None, Some None) \<and> stored_projects after = [''p2''] \<and>
      answers after ''p1'' = account_of ''p1'' \<and> exists_account after ''p1'' \<and>
      answers after ''p2'' = [] \<and> \<not> exists_account after ''p2''"
  using edit_served edit_undone first_attempt_fails by (simp add: Let_def)

definition retried_batch :: Batch where
  "retried_batch = (fst (snd first_attempt))\<lparr>ba_LastError := fst first_attempt\<rparr>"

definition retried_world :: server where
  "retried_world = snd (snd (snd first_attempt))"

lemma retried_plans:
  "(ba_Resources retried_batch = [],
    wk_failure (fst (worker_turn (example_orchestrator order_id) (start_worker (example_orchestrator order_id) retried_batch)
      access_engine retried_world)),
    case fst (listResources access_engine retried_world) of Inl _ \<Rightarrow> None | Inr rs \<Rightarrow> Some (map scopeSlices rs)) =
   (False, None, Some [[[''p1''], [], [], [], [], []]])"
  by code_simp

lemma retried_resources:
  obtains r where "cluster_resources (server_view retried_world) = {r}" "scopeSlices r = [[''p1''], [], [], [], [], []]"
proof -
  obtain rs d where l: "listResources access_engine retried_world = (Inr rs, d)" "map scopeSlices rs = [[[''p1''], [], [], [], [], []]]"
    using retried_plans by (cases "listResources access_engine retried_world") (auto split: sum.splits)
  moreover have "cluster_resources (server_view retried_world) = set rs"
    using api_client_current.listResources_current(1)[OF srv.api_client_current_axioms _ l(1)]
    by (simp add: access_engine_def NewInMemoryEngineWithNamespaces_def NewResourceManagementServiceWithScheme_def)
  ultimately show ?thesis using that by auto
qed

text \<open>In the run, the change is undone whatever the other batch has done.\<close>

theorem stale_plan_wins_witness:
  "answers (race race_over) ''p1'' \<noteq> [] \<and> answers (race race_over) ''p2'' = []"
proof -
  let ?so = "example_orchestrator order_id"
  have "fst first_attempt \<noteq> None" by (rule first_attempt_fails)
  then obtain err where attempt: "first_attempt = (Some err, fst (snd first_attempt), fst (snd (snd first_attempt)), retried_world)"
    unfolding retried_world_def by (metis not_Some_eq prod.collapse)
  then have "fst (snd (snd first_attempt)) = access_engine"
    unfolding first_attempt_def by (rule failed_batch_engine) (simp add: example_orchestrator_def NewStageOrchestrator_def)
  then have start: "race_start = (start_worker ?so edited_batch, start_worker ?so retried_batch, access_engine, retried_world)"
    unfolding race_start_def retried_batch_def by (subst attempt) (simp add: attempt[THEN arg_cong, of fst])
  obtain w e1 c1 where w: "worker_turn ?so (start_worker ?so retried_batch) access_engine retried_world = (w, e1, c1)"
    by (metis prod.exhaust)
  obtain w1' w' e' c' where over: "race race_over = (w1', w', e', c')" by (metis prod.exhaust)
  let ?others = "[World (store_object (OWorkloadServiceAccount edited_wsa)), Loop, Loop, Loop, Loop]"
  have run: "interleaved ?so (?others @ [Retry, Retry, Retry]) (start_worker ?so edited_batch, w, e1, c1) = (w1', w', e', c')"
  proof -
    have turns: "race_over = Retry # (?others @ [Retry, Retry, Retry])" by (simp add: race_over_def race_served_def)
    from over show ?thesis by (simp only: race_def start turns interleaved.simps w prod.case)
  qed
  have succeeded: "wk_result w' = Some None" using edit_undone by (simp add: Let_def over worker_results_def)
  obtain r where r: "cluster_resources (server_view retried_world) = {r}" "scopeSlices r = [[''p1''], [], [], [], [], []]"
    by (rule retried_resources)
  have wild: "\<forall>r \<in> cluster_resources (server_view retried_world). no_wildcard [r]"
    by (simp add: r no_wildcard_def all_dims WildcardValue_def)
  have planned: "ba_Resources retried_batch \<noteq> []" "wk_failure w = None" using retried_plans by (simp_all add: w)
  have stages: "set (wk_stages (start_worker ?so edited_batch)) \<subseteq> set (so_stages ?so)" by (simp add: start_worker_def)
  have answer: "fst (engine_GetServiceAccountForScope e' p) \<noteq> [] \<longleftrightarrow>
      (\<exists>r \<in> cluster_resources (server_view retried_world). wsa_matches r p)" for p
    using stale_plan_wins[OF access_pipeline planned(1) w planned(2) stages _ run succeeded wild] by simp
  from answer[of "deployment ''p1'' ''prod''"] answer[of "deployment ''p2'' ''prod''"] show ?thesis
    by (simp add: answers_def over r wsa_matches_def all_dims scope_dims_def deployment_def Scope_zero_def)
qed

end
