(* ===== verification/Spec2Isabelle.thy ===== *)
theory Spec2Isabelle
  imports Watches Replicas Startup Journey Instruments DeepCopy Shutdown Gauges ApiGroup Race
begin

text \<open>
  A model of the Octopus permissions controller (\<^verbatim>\<open>OctopusDeploy/octopus-permissions-controller\<close>, Go),
  with the theorems that make it correct.

  \<^bold>\<open>The program.\<close> Custom resources (\<^verbatim>\<open>WorkloadServiceAccount\<close>, WSA, in a namespace, and the cluster-wide
  \<^verbatim>\<open>ClusterWorkloadServiceAccount\<close>, CWSA) say which roles deployments of a given scope (space, project
  group, project, environment, tenant, step) are to have. The controller computes a minimal set of service
  accounts, keeps accounts, roles and bindings in the cluster, and its webhook gives every labelled pod the
  account of its scope. A change of a resource passes through these parts:

  \<^enum> the watches and predicates (\<^verbatim>\<open>internal/controller\<close>, theory \<open>Watches\<close>) wake a reconciler (theory
    \<open>Controllers\<close>), which keeps a finalizer on the resource and hands an event to the collector;
  \<^enum> the event collector and its debouncer (\<^verbatim>\<open>internal/reconciliation/collector.go\<close>,
    \<^verbatim>\<open>debouncer.go\<close>, theory \<open>Collector\<close>) turn events into batches;
  \<^enum> the stage orchestrator with its retry queue (\<^verbatim>\<open>orchestrator.go\<close>, \<^verbatim>\<open>batch_queue.go\<close>,
    theories \<open>Pipeline\<close> and \<open>Orchestrator\<close>) runs a batch through planning, validation and execution
    (\<^verbatim>\<open>stages/*.go\<close>, theory \<open>Stages\<close>) and reports conditions (theory \<open>Status\<close>);
  \<^enum> the stages use the in-memory engine (\<^verbatim>\<open>internal/rules/engine.go\<close>, theory \<open>Engine\<close>), which is made
    of the scope computation (\<^verbatim>\<open>generator.go\<close>, \<^verbatim>\<open>scope_computation.go\<close>, theories \<open>Scopes\<close> and
    \<open>Mappings\<close>), the resource management (\<^verbatim>\<open>resource_management.go\<close>, theory \<open>ResourceManagement\<close>)
    and the namespace discovery;
  \<^enum> on replicas that are not the leader the state syncer (\<^verbatim>\<open>state_syncer.go\<close>, theory \<open>StateSync\<close>)
    refreshes the engine;
  \<^enum> the pod webhook (\<^verbatim>\<open>internal/webhook\<close>, theory \<open>Webhooks\<close>) reads the engine, and the metrics
    collector (\<^verbatim>\<open>internal/metrics/collector.go\<close>, theory \<open>Metrics\<close>) reads engine and cluster;
  \<^enum> \<^verbatim>\<open>cmd/main.go\<close> configures servers and engine and wires the parts (theory \<open>Startup\<close>).

  \<^bold>\<open>Conventions.\<close> A Go struct is a record with the source's field names behind a short prefix, an interface
  with several implementations a datatype or a record of functions, a function a definition of the same name
  (with a prefix where two methods share a name). A Go map is an association list without duplicate keys
  (\<open>gomap\<close>); every loop over a map takes the order of iteration from a parameter \<open>\<omega>\<close>, of which only
  \<open>order_ok\<close>, that it permutes the keys, is assumed. Errors are values (\<open>error\<close>, theory \<open>Prelude\<close>),
  panics are \<open>None\<close>. Operations that reach outside take and return a world \<open>'c\<close>. A channel is the number
  or the list of its elements, bounded by its capacity; goroutines are the actions of a transition system and
  everything that holds a mutex is one action. Logging is left out, and the
  operations leave out the instruments they move, which theory \<open>Instruments\<close> adds around them.

  \<^bold>\<open>What is a parameter.\<close> The API client and server are the record \<open>client\<close>; the documented behaviour
  the theorems rely on is the locales \<open>api_client\<close> and \<open>api_client_current\<close>, in which \<open>view\<close> is the
  set of stored objects, extended by \<open>status_client\<close> (status patches), \<open>patch_client\<close> (finalizers)
  and, with an engine, \<open>engine_api\<close>. In \<open>api_client_current\<close> a read that succeeds returns what is stored
  at that moment; this is the API server's behaviour, while the client of the manager (\<^verbatim>\<open>mgr.GetClient()\<close>) reads
  from informer caches, which may lag behind. A theorem that uses it speaks of caches that have caught up. The locales
  are interpreted on an in-memory server with injected faults (theory
  \<open>Kube\<close>), on which the witnesses run. In the same way \<open>rate_limited_queue\<close> is the work queue of
  client-go, \<open>finalizers\<close> is controllerutil, and \<open>runtime\<close> the predicates of controller-runtime.
  The expirable cache, compiled regular expressions, clocks, batch ids and \<^verbatim>\<open>meta.SetStatusCondition\<close> are
  arguments. SHA-256 is modelled (theory \<open>Sha256\<close>, on \<open>32 word\<close>); that names built from its truncated
  digests are different for the finitely many inputs at hand is a hypothesis where a theorem needs it
  (\<open>no_clash\<close> for roles and bindings, injectivity of \<open>shortHash\<close> on a named set for accounts).

  Resources are values here; where the code copies them, theory \<open>DeepCopy\<close> justifies it: on a
  memory with slices and pointers (theory \<open>Memory\<close>), the generated \<^verbatim>\<open>DeepCopyObject\<close> gives the same value and
  shares nothing with the original. There the library's representation of metadata, rules and conditions is a
  parameter, whose deep copies meet the locale \<open>deep_copy\<close>.

  \<^bold>\<open>What is shown.\<close>
  \<^item> \<open>Scopes\<close>, \<open>Mappings\<close>: the scope map is exactly the relation "resource covers scope", and the four
    account maps are determined by it, whatever the order of iteration.
  \<^item> \<open>Isolation\<close>: a deployment finds an account exactly when a resource matches it, the account carries
    every matching resource, and no other as long as each resource restricts one dimension; an
    example shows that with two dimensions accounts can be shared.
  \<^item> \<open>ResourceManagement\<close>: what each of the ensure and garbage collection operations leaves in the cluster,
    errors included, and what it never touches.
  \<^item> \<open>Stages\<close>, \<open>Access\<close>, \<open>Passes\<close>, \<open>Status\<close>, \<open>Pipeline\<close>, \<open>Guarantees\<close>: composition to whole
    batches. A batch without an error grants access and keeps to least privilege, and no batch touches
    objects of others.
  \<^item> \<open>Engine\<close>, \<open>StateSync\<close>: refreshed replicas agree, a ready replica has refreshed, triggers are
    not lost, a replica catches up.
  \<^item> \<open>Collector\<close>, \<open>Orchestrator\<close>: of every resource with an added event one is on its way or received, and one
    as new as it unless generations start anew; armed events are sent; batches are settled after at most four
    attempts, and the resources of a batch that was given up are collected again as far as they can be read.
  \<^item> \<open>Controllers\<close>, \<open>Watches\<close>, \<open>Webhooks\<close>, \<open>Metrics\<close>: the finalizer protocol, which events wake whom,
    admission of pods and resources, and that scrapes are true.
  \<^item> \<open>Shutdown\<close> (\<^verbatim>\<open>StageOrchestrator.Start\<close>): a leader that is told to stop does so under every
    schedule, or panics in a flush into the closed batch channel, with a follow-up pending and after the
    context was cancelled, and in no other way.
  \<^item> \<open>Race\<close> (\<^verbatim>\<open>Start\<close> and \<^verbatim>\<open>processRetryQueue\<close>): new and retried batches may overlap. Undisturbed, a batch
    runs as in the theorems on batches; one that had planned before others changed the cluster puts engine and
    accounts back to its plan.
  \<^item> \<open>Memory\<close>, \<open>DeepCopy\<close> (\<^verbatim>\<open>zz_generated.deepcopy.go\<close>): deep copies are faithful and independent.
    \<open>ApiGroup\<close> (\<^verbatim>\<open>groupversion_info.go\<close>): owner references name the registered version and kind.
  \<^item> \<open>Gauges\<close>: the instruments of the collector are true as long as no batch came back, and every
    batch is counted once.
  \<^item> \<open>Instruments\<close> (\<^verbatim>\<open>metrics.go\<close>, \<^verbatim>\<open>reporter.go\<close>): what the counters count; reconciliations are
    recorded as successes whatever becomes of them.
  \<^item> \<open>Journey\<close>: a reconciled change becomes a batch and, once that is processed, reaches the pods.
  \<^item> \<open>Replicas\<close>: the webhooks of all replicas answer alike. \<open>Startup\<close>: the parts of the program, which hold
    pointers into a memory, share one engine, one event collector and one syncer, and meet the assumptions of
    these theorems, given the contracts of API server and libraries.

  \<^bold>\<open>Bounds.\<close> No function needs fuel: every loop of the source is over a list or a map. The bound of four
  attempts in \<open>batch_settled\<close> is the constant \<open>maxRetries = 3\<close> of \<^verbatim>\<open>NewStageOrchestrator\<close> plus the first
  attempt; the four steps in \<open>replica_catches_up\<close> are receiving the trigger, stamping, firing and rebuilding.
  Metric values are naturals: the conversion to \<^verbatim>\<open>float64\<close> is exact below \<^verbatim>\<open>2^53\<close>. Counters of the source
  are \<^verbatim>\<open>int\<close> of 64 bits and count objects in memory, so they are naturals, too.

  \<^bold>\<open>Not modelled.\<close> Parsing of the command line and a failing manager in \<^verbatim>\<open>cmd/main.go\<close>, the histogram of
  the duration per stage, the registration functions of the webhooks (calls into controller-runtime), test
  support, and timeouts: a stage returns, possibly with an error, which the client may report at any
  request. Cancelling the context is part of theory \<open>Shutdown\<close> only. The lag of the informer caches behind the
  API server is not modelled (see above). A send of \<^verbatim>\<open>AddEvent\<close> to a full trigger channel blocks with the mutex
  held; here such a step is not enabled, and in \<open>requeueFailedResources\<close> it has no result. Theory \<open>Shutdown\<close>
  takes the processing of a batch as a step that is always enabled, so it does not see that send. Theory
  \<open>StateSync\<close> ends with the election: that the batches of the new leader then write to the engine is not an
  action of its system, and neither is a cancelled context. \<open>Race\<close> lets two batches overlap, one of each loop.
\<close>

end
